(* ===== verification/Go_Prelude.thy ===== *)
theory Go_Prelude
  imports Main "HOL-Library.AList" "HOL-Library.Multiset" "HOL-Library.Sublist"
begin

text \<open>
  Shared vocabulary of the development: what a call of a Go function can do
  (\<open>outcome\<close>), Go maps as association lists with distinct keys, buffered channels, and
  the parts of the packages \<open>strings\<close> and \<open>strconv\<close> the modelled code calls
  (\<open>TrimSpace\<close>, \<open>Itoa\<close>, \<open>Atoi\<close>). Strings are byte sequences, as in Go.
\<close>

section \<open>Outcomes of calls\<close>

text \<open>
  A Go call returns a value, returns a non-nil error, panics, or never returns because it
  waits for a lock or a channel nobody will serve. Operations on shared state return the
  outcome together with the state they leave behind, on every path.
\<close>

datatype panic =
    NilDeref
  | IndexOutOfRange
  | MakeSliceCap
  | SendOnClosed
  | CloseOfClosed
  | PanicMsg string

datatype ('e, 'a) outcome = Ok 'a | Err 'e | Panics panic | Blocked

fun is_ok :: "('e, 'a) outcome \<Rightarrow> bool" where
  "is_ok (Ok _) = True"
| "is_ok _ = False"

fun then_ok :: "('e, 'a) outcome \<Rightarrow> ('a \<Rightarrow> ('e, 'b) outcome) \<Rightarrow> ('e, 'b) outcome" where
  "then_ok (Ok a) f = f a"
| "then_ok (Err e) f = Err e"
| "then_ok (Panics p) f = Panics p"
| "then_ok Blocked f = Blocked"

fun map_err :: "('e \<Rightarrow> 'f) \<Rightarrow> ('e, 'a) outcome \<Rightarrow> ('f, 'a) outcome" where
  "map_err g (Ok a) = Ok a"
| "map_err g (Err e) = Err (g e)"
| "map_err g (Panics p) = Panics p"
| "map_err g Blocked = Blocked"

lemma then_ok_eq_Ok: "then_ok x f = Ok b \<longleftrightarrow> (\<exists>a. x = Ok a \<and> f a = Ok b)"
  by (cases x) auto

lemma map_err_eq_Ok: "map_err g x = Ok b \<longleftrightarrow> x = Ok b"
  by (cases x) auto

lemma is_ok_iff: "is_ok x \<longleftrightarrow> (\<exists>a. x = Ok a)"
  by (cases x) auto

section \<open>Collections of lemmas\<close>

named_theorems inv_intros \<open>operations keep the invariant of their component\<close>
named_theorems frame_simps \<open>what an operation leaves unchanged\<close>
named_theorems step_simps \<open>one step of an operation, on one branch\<close>

section \<open>Go maps\<close>

text \<open>
  A Go map is an association list with distinct keys: \<open>map_of\<close> reads it,
  \<open>gput\<close> writes one key, \<open>gdel\<close> is \<open>delete\<close>, \<open>length\<close> is \<open>len\<close>.
  Go leaves the order of \<open>range\<close> over a map open; the list fixes one order, and the
  properties of the development speak of sets and counts of entries or hold for every list.
\<close>

type_synonym ('k, 'v) gomap = "('k \<times> 'v) list"

definition gput :: "'k \<Rightarrow> 'v \<Rightarrow> ('k, 'v) gomap \<Rightarrow> ('k, 'v) gomap" where
  "gput k v m = AList.update k v m"

definition gdel :: "'k \<Rightarrow> ('k, 'v) gomap \<Rightarrow> ('k, 'v) gomap" where
  "gdel k m = AList.delete k m"

definition gmap_ok :: "('k, 'v) gomap \<Rightarrow> bool" where
  "gmap_ok m \<longleftrightarrow> distinct (map fst m)"

lemma map_of_gput [simp]: "map_of (gput k v m) = (map_of m)(k \<mapsto> v)"
  by (simp add: gput_def update_conv')

lemma map_of_gdel [simp]: "map_of (gdel k m) = (map_of m)(k := None)"
  by (simp add: gdel_def delete_conv')

lemma gput_Nil [simp]: "gput k v [] = [(k, v)]"
  by (simp add: gput_def)

lemma gput_Cons [simp]: "gput k v (x # m) = (if fst x = k then (k, v) # m else x # gput k v m)"
  by (cases x) (simp add: gput_def)

lemma gdel_Nil [simp]: "gdel k [] = []"
  by (simp add: gdel_def)

lemma gdel_Cons [simp]: "gdel k (x # m) = (if fst x = k then gdel k m else x # gdel k m)"
  by (cases x) (simp add: gdel_def)

lemma gmap_ok_Nil [simp]: "gmap_ok []"
  by (simp add: gmap_ok_def)

lemma keys_gput [simp]: "fst ` set (gput k v m) = insert k (fst ` set m)"
  by (induction m) auto

lemma keys_gdel [simp]: "fst ` set (gdel k m) = fst ` set m - {k}"
  by (induction m) auto

lemma gmap_ok_gput [simp, intro]: "gmap_ok m \<Longrightarrow> gmap_ok (gput k v m)"
  by (simp add: gmap_ok_def gput_def distinct_update)

lemma gmap_ok_gdel [simp, intro]: "gmap_ok m \<Longrightarrow> gmap_ok (gdel k m)"
  by (simp add: gmap_ok_def gdel_def distinct_delete)

lemma set_gmap_iff: "gmap_ok m \<Longrightarrow> (k, v) \<in> set m \<longleftrightarrow> map_of m k = Some v"
  by (simp add: gmap_ok_def)

lemma map_of_None_iff_key: "map_of m k = None \<longleftrightarrow> k \<notin> fst ` set m"
  by (rule map_of_eq_None_iff)

lemma gmap_ok_length_1:
  assumes "length m = 1" and "map_of m k = Some v"
  shows "m = [(k, v)]"
proof -
  from assms(1) obtain x where "m = [x]" by (auto simp: length_Suc_conv)
  with assms(2) show ?thesis by (cases x) (auto split: if_splits)
qed

lemma gdel_notin [simp]: "k \<notin> fst ` set m \<Longrightarrow> gdel k m = m"
  by (induction m) auto

section \<open>Buffered channels\<close>

record 'a chan =
  cap :: nat
  buf :: "'a list"
  closed :: bool

definition mk_chan :: "nat \<Rightarrow> 'a chan" where
  "mk_chan n = \<lparr>cap = n, buf = [], closed = False\<rparr>"

text \<open>A send in a \<open>select\<close> with a \<open>default\<close> branch: \<open>Ok None\<close> is the default branch.\<close>

definition try_send :: "'a \<Rightarrow> 'a chan \<Rightarrow> ('e, 'a chan option) outcome" where
  "try_send x c =
     (if closed c then Panics SendOnClosed
      else if length (buf c) < cap c then Ok (Some (c\<lparr>buf := buf c @ [x]\<rparr>))
      else Ok None)"

text \<open>A receive in a \<open>select\<close> with a \<open>default\<close> branch, for its effect on the buffer.\<close>

definition try_drop :: "'a chan \<Rightarrow> 'a chan" where
  "try_drop c = c\<lparr>buf := tl (buf c)\<rparr>"

definition close_chan :: "'a chan \<Rightarrow> ('e, 'a chan) outcome" where
  "close_chan c = (if closed c then Panics CloseOfClosed else Ok (c\<lparr>closed := True\<rparr>))"

section \<open>Objects with operations\<close>

text \<open>
  An object is driven by a list of calls, each of which returns an outcome and leaves a
  state. \<open>run_ops\<close> makes the calls one after the other.
\<close>

fun run_ops :: "('op \<Rightarrow> 's \<Rightarrow> 's \<times> 'r) \<Rightarrow> 'op list \<Rightarrow> 's \<Rightarrow> 's \<times> 'r list" where
  "run_ops f [] s = (s, [])"
| "run_ops f (x # xs) s =
     (let (s', r) = f x s; (t, rs) = run_ops f xs s' in (t, r # rs))"

lemma fst_run_ops_Cons: "fst (run_ops f (x # xs) s) = fst (run_ops f xs (fst (f x s)))"
  by (simp add: Let_def split: prod.splits)

lemma run_ops_append:
  "run_ops f (xs @ ys) s =
     (let (s', rs) = run_ops f xs s; (t, rs') = run_ops f ys s' in (t, rs @ rs'))"
  by (induction xs arbitrary: s) (auto simp: Let_def split: prod.splits)

text \<open>The contract of an object with an invariant: every operation keeps it.\<close>

locale invariant_object =
  fixes step :: "'op \<Rightarrow> 's \<Rightarrow> 's \<times> 'r" and inv :: "'s \<Rightarrow> bool"
  assumes inv_step: "inv s \<Longrightarrow> inv (fst (step x s))"
begin

lemma inv_run: "inv s \<Longrightarrow> inv (fst (run_ops step xs s))"
proof (induction xs arbitrary: s)
  case Nil
  then show ?case by simp
next
  case (Cons x xs)
  then have "inv (fst (run_ops step xs (fst (step x s))))" by (blast intro: inv_step)
  then show ?case by (simp only: fst_run_ops_Cons)
qed

lemma results_run:
  assumes "\<And>s x. inv s \<Longrightarrow> good x (snd (step x s))"
  shows "inv s \<Longrightarrow> list_all2 good xs (snd (run_ops step xs s))"
proof (induction xs arbitrary: s)
  case Nil
  then show ?case by simp
next
  case (Cons x xs)
  from Cons.prems have "inv (fst (step x s))" by (rule inv_step)
  from Cons.IH [OF this] assms [OF Cons.prems, of x] show ?case
    by (simp add: Let_def split_beta)
qed

end

text \<open>
  The contract of an object behind a lock: while the lock is held by somebody who will
  never release it, a call that has to take the lock changes nothing and does not return.
\<close>

locale locked_object =
  fixes step :: "'op \<Rightarrow> 's \<Rightarrow> 's \<times> ('e, 'a) outcome"
    and stuck :: "'s \<Rightarrow> bool" and takes_lock :: "'op \<Rightarrow> 's \<Rightarrow> bool"
  assumes stuck_step: "stuck s \<Longrightarrow> takes_lock x s \<Longrightarrow> step x s = (s, Blocked)"
begin

lemma stuck_run:
  "stuck s \<Longrightarrow> (\<And>x. x \<in> set xs \<Longrightarrow> takes_lock x s) \<Longrightarrow>
     run_ops step xs s = (s, replicate (length xs) Blocked)"
  by (induction xs) (simp_all add: stuck_step)

end

section \<open>strings.TrimSpace\<close>

text \<open>The UTF-8 encodings of the characters with the Unicode property White Space.\<close>

definition white_runes :: "string list" where
  "white_runes =
     [[CHR 0x09], [CHR 0x0A], [CHR 0x0B], [CHR 0x0C], [CHR 0x0D], [CHR 0x20],
      [CHR 0xC2, CHR 0x85], [CHR 0xC2, CHR 0xA0], [CHR 0xE1, CHR 0x9A, CHR 0x80],
      [CHR 0xE2, CHR 0x80, CHR 0x80], [CHR 0xE2, CHR 0x80, CHR 0x81],
      [CHR 0xE2, CHR 0x80, CHR 0x82], [CHR 0xE2, CHR 0x80, CHR 0x83],
      [CHR 0xE2, CHR 0x80, CHR 0x84], [CHR 0xE2, CHR 0x80, CHR 0x85],
      [CHR 0xE2, CHR 0x80, CHR 0x86], [CHR 0xE2, CHR 0x80, CHR 0x87],
      [CHR 0xE2, CHR 0x80, CHR 0x88], [CHR 0xE2, CHR 0x80, CHR 0x89],
      [CHR 0xE2, CHR 0x80, CHR 0x8A], [CHR 0xE2, CHR 0x80, CHR 0xA8],
      [CHR 0xE2, CHR 0x80, CHR 0xA9], [CHR 0xE2, CHR 0x80, CHR 0xAF],
      [CHR 0xE2, CHR 0x81, CHR 0x9F], [CHR 0xE3, CHR 0x80, CHR 0x80]]"

lemma white_runes_nonempty: "w \<in> set white_runes \<Longrightarrow> w \<noteq> []"
  by (auto simp: white_runes_def)

function strip_front :: "string list \<Rightarrow> string \<Rightarrow> string" where
  "strip_front ws s =
     (case find (\<lambda>w. w \<noteq> [] \<and> prefix w s) ws of
        None \<Rightarrow> s
      | Some w \<Rightarrow> strip_front ws (drop (length w) s))"
  by pat_completeness auto
termination
  by (relation "measure (\<lambda>(ws, s). length s)")
     (auto simp: find_Some_iff prefix_def)

declare strip_front.simps [simp del]

definition trim_space :: "string \<Rightarrow> string" where
  "trim_space s =
     rev (strip_front (map rev white_runes) (rev (strip_front white_runes s)))"

lemma strip_front_suffix: "suffix (strip_front ws s) s"
proof (induction ws s rule: strip_front.induct)
  case (1 ws s)
  show ?case
  proof (cases "find (\<lambda>w. w \<noteq> [] \<and> prefix w s) ws")
    case None
    then show ?thesis by (subst strip_front.simps) simp
  next
    case (Some w)
    from "1.IH" [OF Some] have "suffix (strip_front ws (drop (length w) s)) (drop (length w) s)" .
    moreover have "suffix (drop (length w) s) s" by (rule suffix_drop)
    ultimately show ?thesis
      using Some by (subst strip_front.simps) (auto intro: suffix_order.trans)
  qed
qed

lemma strip_front_no_white: "w \<in> set ws \<Longrightarrow> w \<noteq> [] \<Longrightarrow> \<not> prefix w (strip_front ws s)"
proof (induction ws s rule: strip_front.induct)
  case (1 ws s)
  show ?case
  proof (cases "find (\<lambda>w. w \<noteq> [] \<and> prefix w s) ws")
    case None
    then have "strip_front ws s = s" by (subst strip_front.simps) simp
    moreover have "\<not> prefix w s" using None "1.prems" by (auto simp: find_None_iff)
    ultimately show ?thesis by simp
  next
    case (Some v)
    with "1.IH" [OF Some] "1.prems" show ?thesis by (subst strip_front.simps) simp
  qed
qed

lemma strip_front_fixed:
  assumes "\<And>w. w \<in> set ws \<Longrightarrow> w \<noteq> [] \<Longrightarrow> \<not> prefix w s"
  shows "strip_front ws s = s"
proof -
  have "find (\<lambda>w. w \<noteq> [] \<and> prefix w s) ws = None"
    using assms by (auto simp: find_None_iff)
  then show ?thesis by (subst strip_front.simps) simp
qed

lemma trim_space_idem [simp]: "trim_space (trim_space s) = trim_space s"
proof -
  let ?l = "strip_front white_runes s"
  let ?r = "strip_front (map rev white_runes) (rev ?l)"
  have pre: "prefix (rev ?r) ?l"
    using strip_front_suffix [of "map rev white_runes" "rev ?l"] by (simp add: suffix_to_prefix)
  have left: "strip_front white_runes (rev ?r) = rev ?r"
  proof (rule strip_front_fixed)
    fix w assume "w \<in> set white_runes" "w \<noteq> []"
    then have "\<not> prefix w ?l" by (rule strip_front_no_white)
    with pre show "\<not> prefix w (rev ?r)" by (auto dest: prefix_order.trans)
  qed
  have "strip_front (map rev white_runes) ?r = ?r"
    by (rule strip_front_fixed) (rule strip_front_no_white)
  with left show ?thesis by (simp add: trim_space_def)
qed

lemma trim_space_Nil [simp]: "trim_space [] = []"
  by (simp add: trim_space_def strip_front.simps white_runes_def)

end
