(* ===== verification/Emergency_Stop.thy ===== *)
theory Emergency_Stop
  imports Go_Prelude
begin

text \<open>
  The emergency stop reader of \<open>design_for_chaos/es/es.go\<close>: the table of entries read
  from \<open>configs/es.json\<close>, the subscriptions of workflows to their entry, and the loop
  that rereads the file and tells subscribers to stop. The channels handed to subscribers
  are shared with the reader, so they live in a heap (\<open>chans\<close>) and the subscriptions
  hold addresses. \<open>mu\<close> says that the mutex is held when a call starts: the calls are
  serialised by it, so it is held then only by a goroutine that never releases it.
\<close>

section \<open>Data\<close>

definition Go :: string where "Go = ''go''"
definition Stop :: string where "Stop = ''stop''"

record info =
  info_name :: string
  info_status :: string

datatype es_err =
    RuleEmptyName
  | RuleBadStatus string string
  | CannotOpen
  | BadlyFormatted

record reader =
  entries :: "(string, info) gomap"
  mu :: bool
  subscribers :: "(string, nat list) gomap"
  chans :: "nat \<Rightarrow> string chan"
  next_chan :: nat

text \<open>
  What \<open>Subscribe\<close> returns beside the channel: the function that does nothing, or the
  closure over the name and the channel.
\<close>

datatype cancel_fn = CancelNothing | CancelSub string nat

text \<open>
  A file is absent, or a sequence of decoded values: \<open>None\<close> is a value the decoder
  rejects (malformed JSON, an unknown field).
\<close>

type_synonym es_file = "info option list option"

section \<open>Operations\<close>

definition validate :: "info \<Rightarrow> (es_err, unit) outcome" where
  "validate i =
     (let n = trim_space (info_name i)
      in if n = [] then Err RuleEmptyName
         else if info_status i = ''go'' \<or> info_status i = ''stop'' then Ok ()
         else Err (RuleBadStatus n (info_status i)))"

fun load_entries :: "(string, info) gomap \<Rightarrow> info option list \<Rightarrow> (string, info) gomap option" where
  "load_entries m [] = Some m"
| "load_entries m (None # ds) = None"
| "load_entries m (Some i # ds) =
     (if map_of m (info_name i) \<noteq> None then load_entries m ds
      else if \<not> is_ok (validate i) then load_entries m ds
      else load_entries (gput (info_name i) i m) ds)"

definition load :: "es_file \<Rightarrow> reader \<Rightarrow> reader \<times> (es_err, (string, info) gomap) outcome" where
  "load file r =
     (case file of
        None \<Rightarrow> (r, Err CannotOpen)
      | Some ds \<Rightarrow>
          (case load_entries [] ds of
             None \<Rightarrow> (r\<lparr>entries := []\<rparr>, Err BadlyFormatted)
           | Some m \<Rightarrow> (r, Ok m)))"

definition new_reader :: "es_file \<Rightarrow> (es_err, reader) outcome" where
  "new_reader file =
     (let r = \<lparr>entries = [], mu = False, subscribers = [], chans = (\<lambda>_. mk_chan 0), next_chan = 0\<rparr>
      in case load file r of
           (r', Ok m) \<Rightarrow> Ok (r'\<lparr>entries := m\<rparr>)
         | (_, Err e) \<Rightarrow> Err e
         | (_, Panics p) \<Rightarrow> Panics p
         | (_, Blocked) \<Rightarrow> Blocked)"

definition status :: "string \<Rightarrow> reader \<Rightarrow> string" where
  "status name r =
     (case map_of (entries r) name of
        Some i \<Rightarrow> (if info_status i = Go then Go else Stop)
      | None \<Rightarrow> Stop)"

text \<open>\<open>r.subscribers[name]\<close>: the zero value of a missing key is the empty slice.\<close>

definition subs_of :: "string \<Rightarrow> reader \<Rightarrow> nat list" where
  "subs_of name r = (case map_of (subscribers r) name of Some l \<Rightarrow> l | None \<Rightarrow> [])"

text \<open>The channel made with room for one value, with the value in it.\<close>

definition alloc_chan :: "string chan \<Rightarrow> reader \<Rightarrow> reader" where
  "alloc_chan c r = r\<lparr>chans := (chans r)(next_chan r := c), next_chan := Suc (next_chan r)\<rparr>"

text \<open>
  \<open>Subscribe\<close> first looks the entry up without the lock (\<open>may_subscribe\<close>), then
  registers under the lock (\<open>register\<close>). Other calls can run in between.
\<close>

definition may_subscribe :: "string \<Rightarrow> reader \<Rightarrow> bool" where
  "may_subscribe name r =
     (case map_of (entries r) name of Some i \<Rightarrow> info_status i = Go | None \<Rightarrow> False)"

definition refuse :: "reader \<Rightarrow> reader \<times> (es_err, nat \<times> cancel_fn) outcome" where
  "refuse r =
     (alloc_chan \<lparr>cap = 1, buf = [Stop], closed = True\<rparr> r, Ok (next_chan r, CancelNothing))"

definition register :: "string \<Rightarrow> reader \<Rightarrow> reader \<times> (es_err, nat \<times> cancel_fn) outcome" where
  "register name r =
     (if mu r then (r, Blocked)
      else let ch = next_chan r;
               l = subs_of name r
           in ((alloc_chan \<lparr>cap = 1, buf = [Go], closed = False\<rparr> r)
                 \<lparr>subscribers := gput name (l @ [ch]) (subscribers r)\<rparr>,
               Ok (ch, CancelSub name ch)))"

definition subscribe :: "string \<Rightarrow> reader \<Rightarrow> reader \<times> (es_err, nat \<times> cancel_fn) outcome" where
  "subscribe name r = (if may_subscribe name r then register name r else refuse r)"

text \<open>\<open>make\<close> panics on a negative capacity, which is the case of no subscriber.\<close>

fun cancel :: "cancel_fn \<Rightarrow> reader \<Rightarrow> reader \<times> (es_err, unit) outcome" where
  "cancel CancelNothing r = (r, Ok ())"
| "cancel (CancelSub name ch) r =
     (if mu r then (r, Blocked)
      else let l = subs_of name r
           in if int (length l) - 1 < 0 then (r, Panics MakeSliceCap)
              else (r\<lparr>subscribers := gput name (filter (\<lambda>c. c \<noteq> ch) l) (subscribers r)\<rparr>, Ok ()))"

text \<open>
  The inner loop of \<open>sendStop\<close>: send, or drop the oldest value and try again. On a
  channel without room and without values the loop would spin.
\<close>

function push_stop :: "string chan \<Rightarrow> (es_err, string chan) outcome" where
  "push_stop c =
     (case try_send Stop c of
        Panics p \<Rightarrow> Panics p
      | Ok (Some c') \<Rightarrow> Ok c'
      | Ok None \<Rightarrow> if buf c = [] then Blocked else push_stop (try_drop c)
      | Err e \<Rightarrow> Err e
      | Blocked \<Rightarrow> Blocked)"
  by pat_completeness auto
termination
  by (relation "measure (\<lambda>c. length (buf c))") (auto simp: try_drop_def)

declare push_stop.simps [simp del]

fun stop_chans :: "string \<Rightarrow> nat list \<Rightarrow> reader \<Rightarrow> reader \<times> (es_err, unit) outcome" where
  "stop_chans name [] r = (r, Ok ())"
| "stop_chans name (ch # chs) r =
     (case then_ok (push_stop (chans r ch)) close_chan of
        Ok c \<Rightarrow>
          stop_chans name chs
            (r\<lparr>chans := (chans r)(ch := c), subscribers := gdel name (subscribers r)\<rparr>)
      | Err e \<Rightarrow> (r, Err e)
      | Panics p \<Rightarrow> (r, Panics p)
      | Blocked \<Rightarrow> (r, Blocked))"

definition send_stop :: "string \<Rightarrow> reader \<Rightarrow> reader \<times> (es_err, unit) outcome" where
  "send_stop name r =
     (if mu r then (r, Blocked)
      else stop_chans name (subs_of name r) r)"

fun send_stops :: "string list \<Rightarrow> reader \<Rightarrow> reader \<times> (es_err, unit) outcome" where
  "send_stops [] r = (r, Ok ())"
| "send_stops (n # ns) r =
     (case send_stop n r of
        (r', Ok _) \<Rightarrow> send_stops ns r'
      | (r', Err e) \<Rightarrow> (r', Err e)
      | (r', Panics p) \<Rightarrow> (r', Panics p)
      | (r', Blocked) \<Rightarrow> (r', Blocked))"

text \<open>The names whose subscribers are told to stop when the table becomes \<open>new\<close>.\<close>

definition stopped_names :: "(string, info) gomap \<Rightarrow> (string, info) gomap \<Rightarrow> string list" where
  "stopped_names old new =
     map fst (filter (\<lambda>(name, i).
        (case map_of new name of
           None \<Rightarrow> True
         | Some j \<Rightarrow> info_status i = Go \<and> info_status j \<noteq> Go)) old)"

text \<open>
  One round of \<open>loop\<close>. After a failed load the round takes the mutex itself and then
  calls \<open>sendStop\<close>, which takes it again.
\<close>

definition tick :: "es_file \<Rightarrow> reader \<Rightarrow> reader \<times> (es_err, unit) outcome" where
  "tick file r =
     (case load file r of
        (r1, Err _) \<Rightarrow>
          (if mu r1 then (r1, Blocked)
           else (case send_stops (map fst (subscribers r1)) (r1\<lparr>mu := True\<rparr>) of
                   (r2, Ok _) \<Rightarrow> (r2\<lparr>mu := False\<rparr>, Ok ())
                 | (r2, oc) \<Rightarrow> (r2, oc)))
      | (r1, Ok new) \<Rightarrow>
          (case send_stops (stopped_names (entries r1) new) r1 of
             (r2, Ok _) \<Rightarrow> (r2\<lparr>entries := new\<rparr>, Ok ())
           | (r2, oc) \<Rightarrow> (r2, oc))
      | (r1, Panics p) \<Rightarrow> (r1, Panics p)
      | (r1, Blocked) \<Rightarrow> (r1, Blocked))"

datatype es_op = OpSubscribe string | OpCancel cancel_fn | OpTick es_file

fun es_step :: "es_op \<Rightarrow> reader \<Rightarrow> reader \<times> (es_err, (nat \<times> cancel_fn) option) outcome" where
  "es_step (OpSubscribe n) r = (case subscribe n r of (r', oc) \<Rightarrow> (r', then_ok oc (\<lambda>x. Ok (Some x))))"
| "es_step (OpCancel c) r = (case cancel c r of (r', oc) \<Rightarrow> (r', then_ok oc (\<lambda>_. Ok None)))"
| "es_step (OpTick f) r = (case tick f r of (r', oc) \<Rightarrow> (r', then_ok oc (\<lambda>_. Ok None)))"

section \<open>The invariant of the reader\<close>

definition open_chan :: "string chan \<Rightarrow> bool" where
  "open_chan c \<longleftrightarrow> cap c = 1 \<and> length (buf c) \<le> 1 \<and> \<not> closed c"

definition stopped :: "string chan \<Rightarrow> string chan" where
  "stopped c = c\<lparr>buf := [Stop], closed := True\<rparr>"

definition es_inv :: "reader \<Rightarrow> bool" where
  "es_inv r \<longleftrightarrow>
     gmap_ok (entries r) \<and> gmap_ok (subscribers r)
     \<and> (\<forall>n. distinct (subs_of n r))
     \<and> (\<forall>m n. m \<noteq> n \<longrightarrow> set (subs_of m r) \<inter> set (subs_of n r) = {})
     \<and> (\<forall>n. \<forall>ch \<in> set (subs_of n r). ch < next_chan r \<and> open_chan (chans r ch))"

lemma push_stop_open: "open_chan c \<Longrightarrow> push_stop c = Ok (c\<lparr>buf := [Stop]\<rparr>)"
proof -
  assume c: "open_chan c"
  have room: "push_stop d = Ok (d\<lparr>buf := [Stop]\<rparr>)" if "open_chan d" "buf d = []" for d
    using that by (subst push_stop.simps) (simp add: open_chan_def try_send_def)
  show ?thesis
  proof (cases "buf c")
    case Nil
    with c show ?thesis by (rule room)
  next
    case (Cons x xs)
    with c have "buf c = [x]" by (simp add: open_chan_def)
    moreover from this c have "push_stop (try_drop c) = Ok ((try_drop c)\<lparr>buf := [Stop]\<rparr>)"
      by (intro room) (simp_all add: open_chan_def try_drop_def)
    ultimately show ?thesis
      using c by (subst push_stop.simps) (simp add: open_chan_def try_send_def try_drop_def)
  qed
qed

lemma stop_chans_open:
  "distinct l \<Longrightarrow> (\<And>ch. ch \<in> set l \<Longrightarrow> open_chan (chans r ch)) \<Longrightarrow>
     stop_chans name l r =
       (r\<lparr>chans := (\<lambda>ch. if ch \<in> set l then stopped (chans r ch) else chans r ch),
          subscribers := (if l = [] then subscribers r else gdel name (subscribers r))\<rparr>, Ok ())"
proof (induction l arbitrary: r)
  case Nil
  then show ?case by simp
next
  case (Cons ch chs)
  let ?r = "r\<lparr>chans := (chans r)(ch := stopped (chans r ch)), subscribers := gdel name (subscribers r)\<rparr>"
  have "then_ok (push_stop (chans r ch)) close_chan = Ok (stopped (chans r ch))"
    using Cons.prems(2) [of ch]
    by (simp add: push_stop_open close_chan_def stopped_def open_chan_def)
  then have "stop_chans name (ch # chs) r = stop_chans name chs ?r" by simp
  also have "\<dots> = (?r\<lparr>chans := (\<lambda>c. if c \<in> set chs then stopped (chans ?r c) else chans ?r c),
          subscribers := (if chs = [] then subscribers ?r else gdel name (subscribers ?r))\<rparr>, Ok ())"
    using Cons.prems by (intro Cons.IH) auto
  finally show ?case
    using Cons.prems(1) by (auto simp: fun_eq_iff gdel_notin)
qed

lemma send_stop_eq:
  assumes "es_inv r" and "\<not> mu r"
  shows "send_stop name r =
     (r\<lparr>chans := (\<lambda>ch. if ch \<in> set (subs_of name r) then stopped (chans r ch) else chans r ch),
        subscribers := (if subs_of name r = [] then subscribers r
                        else gdel name (subscribers r))\<rparr>, Ok ())"
  using assms by (simp add: send_stop_def stop_chans_open es_inv_def)

lemma subs_of_gdel [simp]:
  "subs_of m (r\<lparr>subscribers := gdel n (subscribers r)\<rparr>) = (if m = n then [] else subs_of m r)"
  by (simp add: subs_of_def)

lemma subs_of_gput [simp]:
  "subs_of m (r\<lparr>subscribers := gput n l (subscribers r)\<rparr>) = (if m = n then l else subs_of m r)"
  by (simp add: subs_of_def)

lemma subs_of_frame [simp]:
  "subs_of m (r\<lparr>chans := c\<rparr>) = subs_of m r" "subs_of m (r\<lparr>next_chan := k\<rparr>) = subs_of m r"
  "subs_of m (r\<lparr>mu := b\<rparr>) = subs_of m r" "subs_of m (r\<lparr>entries := e\<rparr>) = subs_of m r"
  by (simp_all add: subs_of_def)

lemma es_inv_send_stop [inv_intros]:
  assumes "es_inv r" and "\<not> mu r"
  shows "es_inv (fst (send_stop n r))"
proof -
  let ?r = "fst (send_stop n r)"
  have subs: "subs_of m ?r = (if m = n then [] else subs_of m r)" for m
    using send_stop_eq [OF assms] by (simp add: subs_of_def)
  have rest: "gmap_ok (entries ?r)" "gmap_ok (subscribers ?r)" "next_chan ?r = next_chan r"
    using assms send_stop_eq [OF assms] by (auto simp: es_inv_def)
  have chs: "chans ?r ch = chans r ch" if "ch \<in> set (subs_of m r)" "m \<noteq> n" for ch m
    using that assms send_stop_eq [OF assms, of n] by (auto simp: es_inv_def)
  show ?thesis
    using assms rest chs unfolding es_inv_def by (simp add: subs)
qed

lemma send_stops_spec:
  assumes "es_inv r" and "\<not> mu r"
  shows "\<exists>r'. send_stops ns r = (r', Ok ()) \<and> es_inv r' \<and> \<not> mu r'
    \<and> entries r' = entries r \<and> next_chan r' = next_chan r
    \<and> (\<forall>n. subs_of n r' = (if n \<in> set ns then [] else subs_of n r))
    \<and> (\<forall>ch. chans r' ch =
          (if \<exists>n \<in> set ns. ch \<in> set (subs_of n r) then stopped (chans r ch) else chans r ch))"
  using assms
proof (induction ns arbitrary: r)
  case Nil
  then show ?case by simp
next
  case (Cons n ns)
  obtain r1 where r1: "send_stop n r = (r1, Ok ())"
    using send_stop_eq [OF Cons.prems] by blast
  have inv1: "es_inv r1" using es_inv_send_stop [OF Cons.prems, of n] r1 by simp
  have frame: "\<not> mu r1" "entries r1 = entries r" "next_chan r1 = next_chan r"
    and subs: "subs_of m r1 = (if m = n then [] else subs_of m r)"
    and chs: "chans r1 ch = (if ch \<in> set (subs_of n r) then stopped (chans r ch) else chans r ch)"
    for m ch
    using r1 send_stop_eq [OF Cons.prems, of n] Cons.prems(2) by (auto simp: subs_of_def)
  have idem: "stopped (stopped c) = stopped c" for c by (simp add: stopped_def)
  from Cons.IH [OF inv1 frame(1)] r1 frame show ?case
    by (auto simp: subs chs idem)
qed

subsection \<open>Loading the file\<close>

lemma load_entries_None: "load_entries m ds = None \<longleftrightarrow> None \<in> set ds"
proof (induction ds arbitrary: m)
  case (Cons d ds)
  then show ?case by (cases d) auto
qed simp

lemma load_entries_find:
  "load_entries m (map Some is) = Some m' \<Longrightarrow>
     map_of m' n = (case map_of m n of
        Some i \<Rightarrow> Some i
      | None \<Rightarrow> find (\<lambda>i. info_name i = n \<and> is_ok (validate i)) is)"
  by (induction "is" arbitrary: m) (auto split: if_splits option.splits)

lemma gmap_ok_load_entries: "gmap_ok m \<Longrightarrow> load_entries m ds = Some m' \<Longrightarrow> gmap_ok m'"
  by (induction m ds rule: load_entries.induct) (auto split: if_splits)

lemma load_cases:
  obtains (missing) "file = None" "load file r = (r, Err CannotOpen)"
  | (bad) ds where "file = Some ds" "load file r = (r\<lparr>entries := []\<rparr>, Err BadlyFormatted)"
  | (good) ds m where "file = Some ds" "load_entries [] ds = Some m" "gmap_ok m" "load file r = (r, Ok m)"
proof (cases "file")
  case None
  then show thesis by (intro missing) (auto simp: load_def)
next
  case (Some ds)
  show thesis
  proof (cases "load_entries [] ds")
    case None
    with Some show thesis by (intro bad) (auto simp: load_def)
  next
    case m: (Some m)
    with Some show thesis
      by (intro good [OF Some m]) (auto simp: load_def intro: gmap_ok_load_entries [OF gmap_ok_Nil])
  qed
qed

subsection \<open>Every operation keeps the invariant\<close>

lemma es_inv_frame [simp]:
  "es_inv (r\<lparr>mu := b\<rparr>) = es_inv r" "gmap_ok e \<Longrightarrow> es_inv r \<Longrightarrow> es_inv (r\<lparr>entries := e\<rparr>)"
  by (simp_all add: es_inv_def)

lemma es_inv_alloc [inv_intros]: "es_inv r \<Longrightarrow> es_inv (alloc_chan c r)"
  by (fastforce simp: es_inv_def alloc_chan_def)

lemma register_ok:
  assumes "register n r = (r', Ok (ch, c))"
  shows "\<not> mu r" "\<not> mu r'" "ch = next_chan r" "c = CancelSub n ch" "entries r' = entries r"
    "chans r' ch = \<lparr>cap = 1, buf = [Go], closed = False\<rparr>"
    "subs_of m r' = (if m = n then subs_of n r @ [ch] else subs_of m r)"
  using assms by (auto simp: register_def Let_def alloc_chan_def subs_of_def split: if_splits)

lemma es_inv_register [inv_intros]: "es_inv r \<Longrightarrow> es_inv (fst (register n r))"
  unfolding es_inv_def register_def alloc_chan_def Let_def
  by (fastforce simp: open_chan_def subs_of_def split: if_splits)

lemma es_inv_subscribe [inv_intros]: "es_inv r \<Longrightarrow> es_inv (fst (subscribe n r))"
  by (simp add: subscribe_def refuse_def es_inv_alloc es_inv_register)

lemma es_inv_cancel [inv_intros]: "es_inv r \<Longrightarrow> es_inv (fst (cancel c r))"
  by (cases c) (auto simp: es_inv_def Let_def)

lemma send_stops_stuck: "mu r \<Longrightarrow> ns \<noteq> [] \<Longrightarrow> send_stops ns r = (r, Blocked)"
  by (cases ns) (auto simp: send_stop_def)

lemma tick_good:
  assumes "es_inv r" "\<not> mu r" "load file r = (r, Ok new)"
  obtains r2 where "tick file r = (r2\<lparr>entries := new\<rparr>, Ok ())"
    and "send_stops (stopped_names (entries r) new) r = (r2, Ok ())" and "es_inv r2" "\<not> mu r2"
    and "\<And>n. subs_of n r2 = (if n \<in> set (stopped_names (entries r) new) then [] else subs_of n r)"
    and "\<And>ch. chans r2 ch = (if \<exists>n \<in> set (stopped_names (entries r) new). ch \<in> set (subs_of n r)
                            then stopped (chans r ch) else chans r ch)"
  using send_stops_spec [OF assms(1,2), of "stopped_names (entries r) new"] assms(3)
  by (auto simp: tick_def)

lemma tick_failed:
  assumes "es_inv r" "\<not> mu r" "load file r = (r1, Err e)"
  shows "tick file r = (if subscribers r = [] then (r1, Ok ()) else (r1\<lparr>mu := True\<rparr>, Blocked))"
    and "subscribers r1 = subscribers r" and "chans r1 = chans r"
    and "file = None \<Longrightarrow> entries r1 = entries r" and "file \<noteq> None \<Longrightarrow> entries r1 = []"
    and "\<not> mu r1"
  using assms
  by (cases rule: load_cases [of "file" r]; auto simp: tick_def send_stops_stuck)+

lemma es_inv_tick [inv_intros]: "es_inv r \<Longrightarrow> es_inv (fst (tick file r))"
proof (cases "mu r")
  case True
  assume r: "es_inv r"
  show ?thesis
  proof (cases rule: load_cases [of "file" r])
    case (good ds m)
    then show ?thesis using r True
      by (cases "stopped_names (entries r) m") (auto simp: tick_def send_stop_def)
  qed (use r True in \<open>auto simp: tick_def\<close>)
next
  case False
  assume r: "es_inv r"
  show ?thesis
  proof (cases rule: load_cases [of "file" r])
    case missing
    then show ?thesis using r False tick_failed(1) [OF r False missing(2)] by simp
  next
    case (bad ds)
    then show ?thesis using r False tick_failed(1) [OF r False bad(2)] by simp
  next
    case (good ds m)
    obtain r2 where "tick file r = (r2\<lparr>entries := m\<rparr>, Ok ())" "es_inv r2"
      by (rule tick_good [OF r False good(4)])
    then show ?thesis using good by simp
  qed
qed

lemma es_inv_step: "es_inv r \<Longrightarrow> es_inv (fst (es_step x r))"
  using es_inv_subscribe es_inv_cancel es_inv_tick
  by (cases x) (auto split: prod.splits, (metis fst_conv)+)

interpretation es_obj: invariant_object es_step es_inv
  by unfold_locales (rule es_inv_step)

lemma es_inv_new: "new_reader file = Ok r \<Longrightarrow> es_inv r"
  by (cases rule: load_cases [of "file" "\<lparr>entries = [], mu = False, subscribers = [],
        chans = (\<lambda>_. mk_chan 0), next_chan = 0\<rparr>"])
     (auto simp: new_reader_def Let_def es_inv_def subs_of_def)

definition needs_mu :: "es_op \<Rightarrow> reader \<Rightarrow> bool" where
  "needs_mu x r =
     (case x of
        OpSubscribe n \<Rightarrow> may_subscribe n r
      | OpCancel c \<Rightarrow> c \<noteq> CancelNothing
      | OpTick f \<Rightarrow> f = None)"

interpretation es_lock: locked_object es_step mu needs_mu
proof
  fix s x assume "mu s" and "needs_mu x s"
  then show "es_step x s = (s, Blocked)"
    by (cases x; cases "case x of OpCancel c \<Rightarrow> c | _ \<Rightarrow> CancelNothing")
       (auto simp: needs_mu_def subscribe_def register_def tick_def load_def split: es_op.splits)
qed

lemma stopped_names_iff:
  "gmap_ok old \<Longrightarrow> n \<in> set (stopped_names old new) \<longleftrightarrow>
     (\<exists>i. map_of old n = Some i
        \<and> (case map_of new n of None \<Rightarrow> True
           | Some j \<Rightarrow> info_status i = Go \<and> info_status j \<noteq> Go))"
  by (force simp: stopped_names_def set_gmap_iff image_iff)

section \<open>Properties\<close>

text \<open>Concrete readers for the witnesses.\<close>

definition erase_go :: info where "erase_go = \<lparr>info_name = ''erase'', info_status = ''go''\<rparr>"
definition erase_stop :: info where "erase_stop = \<lparr>info_name = ''erase'', info_status = ''stop''\<rparr>"

definition demo :: reader where
  "demo = \<lparr>entries = [(''erase'', erase_go)], mu = False, subscribers = [(''erase'', [0])],
           chans = (\<lambda>_. \<lparr>cap = 1, buf = [Go], closed = False\<rparr>), next_chan = 1\<rparr>"

lemma trim_erase [simp]: "trim_space ''erase'' = ''erase''"
  by code_simp

lemma validate_erase [simp]: "validate erase_go = Ok ()" "validate erase_stop = Ok ()"
  by (simp_all add: validate_def erase_go_def erase_stop_def)

lemma load_erase [simp]:
  "load (Some [Some erase_go]) r = (r, Ok [(''erase'', erase_go)])"
  "load (Some [Some erase_stop]) r = (r, Ok [(''erase'', erase_stop)])"
  by (simp_all add: load_def) (simp_all add: erase_go_def erase_stop_def)

lemma demo_inv [simp]: "es_inv demo" "\<not> mu demo"
  by (auto simp: es_inv_def demo_def gmap_ok_def subs_of_def open_chan_def)

text \<open>
  C17: Whatever sequence of Subscribe calls, Cancel calls and rereads of the file a reader
  goes through after it was created, its tables have one entry per name, every subscribed
  channel has been allocated, is open with at most one buffered value, and is subscribed
  once, under one name. So sendStop never sends on or closes a closed channel.
\<close>

theorem es_reachable_inv:
  assumes "new_reader file = Ok r"
  shows "es_inv (fst (run_ops es_step ops r))"
  by (rule es_obj.inv_run [OF es_inv_new [OF assms]])

definition demo0 :: reader where
  "demo0 = \<lparr>entries = [(''erase'', erase_go)], mu = False, subscribers = [],
            chans = (\<lambda>_. mk_chan 0), next_chan = 0\<rparr>"

lemma new_demo0: "new_reader (Some [Some erase_go]) = Ok demo0"
  by (simp add: new_reader_def demo0_def)

theorem es_reachable_inv_witness:
  "es_inv (fst (run_ops es_step [OpSubscribe ''erase'', OpTick (Some [Some erase_stop])] demo0))"
  by (rule es_reachable_inv [OF new_demo0])



text \<open>
  When the file is missing, every workflow keeps the status it had: the reread does not
  move anything into the stop state. If somebody is subscribed the reread takes the mutex,
  then waits for itself, with no subscriber told to stop; from then on every Subscribe to
  an entry that is Go, every Cancel of a subscription and every further reread of the
  missing file waits forever.
\<close>

theorem missing_file_keeps_go_and_deadlocks:
  assumes "es_inv r" "\<not> mu r" "subscribers r \<noteq> []"
    and "\<And>x. x \<in> set ops \<Longrightarrow> needs_mu x r"
  shows "tick None r = (r\<lparr>mu := True\<rparr>, Blocked)
    \<and> status n (r\<lparr>mu := True\<rparr>) = status n r
    \<and> run_ops es_step ops (r\<lparr>mu := True\<rparr>) = (r\<lparr>mu := True\<rparr>, replicate (length ops) Blocked)"
proof -
  have "load None r = (r, Err CannotOpen)" by (simp add: load_def)
  from tick_failed(1) [OF assms(1,2) this] assms(3)
  have "tick None r = (r\<lparr>mu := True\<rparr>, Blocked)" by simp
  moreover have "status n (r\<lparr>mu := True\<rparr>) = status n r" by (simp add: status_def)
  moreover from assms(4) have "\<And>x. x \<in> set ops \<Longrightarrow> needs_mu x (r\<lparr>mu := True\<rparr>)"
    by (fastforce simp: needs_mu_def may_subscribe_def split: es_op.splits)
  then have "run_ops es_step ops (r\<lparr>mu := True\<rparr>) = (r\<lparr>mu := True\<rparr>, replicate (length ops) Blocked)"
    by (intro es_lock.stuck_run) auto
  ultimately show ?thesis by simp
qed

theorem missing_file_keeps_go_and_deadlocks_witness:
  "tick None demo = (demo\<lparr>mu := True\<rparr>, Blocked)
   \<and> status ''erase'' (demo\<lparr>mu := True\<rparr>) = status ''erase'' demo
   \<and> run_ops es_step [OpSubscribe ''erase'', OpCancel (CancelSub ''erase'' 0)]
       (demo\<lparr>mu := True\<rparr>) = (demo\<lparr>mu := True\<rparr>, replicate (length
          [OpSubscribe ''erase'', OpCancel (CancelSub ''erase'' 0)]) Blocked)"
  by (rule missing_file_keeps_go_and_deadlocks)
     (auto simp: needs_mu_def may_subscribe_def demo_def erase_go_def Go_def es_inv_def
        gmap_ok_def subs_of_def open_chan_def)

text \<open>
  The cancel function of a subscription panics if it is called, as the package comment
  recommends with defer, after a reread has told the subscription to stop: the name has no
  subscribers any more, and make is called with capacity -1.
\<close>

theorem deferred_cancel_panics_after_stop:
  assumes "es_inv r" "\<not> mu r" "subscribe n r = (r1, Ok (ch, CancelSub n ch))"
    and "load file r1 = (r1, Ok new)" "n \<in> set (stopped_names (entries r1) new)"
  shows "\<exists>r2. tick file r1 = (r2, Ok ()) \<and> buf (chans r2 ch) = [Stop] \<and> closed (chans r2 ch)
     \<and> cancel (CancelSub n ch) r2 = (r2, Panics MakeSliceCap)"
proof -
  have inv1: "es_inv r1" using es_inv_subscribe [OF assms(1), of n] assms(3) by simp
  have "register n r = (r1, Ok (ch, CancelSub n ch))"
    using assms(3) by (simp add: subscribe_def refuse_def split: if_splits)
  from register_ok(2,7) [OF this] have r1: "\<not> mu r1" "ch \<in> set (subs_of n r1)"
    by simp_all
  obtain r2 where r2: "tick file r1 = (r2\<lparr>entries := new\<rparr>, Ok ())" "\<not> mu r2"
    and subs: "\<And>m. subs_of m r2 = (if m \<in> set (stopped_names (entries r1) new) then [] else subs_of m r1)"
    and chs: "\<And>c. chans r2 c = (if \<exists>m \<in> set (stopped_names (entries r1) new). c \<in> set (subs_of m r1)
                            then stopped (chans r1 c) else chans r1 c)"
    by (rule tick_good [OF inv1 r1(1) assms(4)]) blast
  have "subs_of n r2 = []" "chans r2 ch = stopped (chans r1 ch)"
    using subs [of n] chs [of ch] assms(5) r1(2) by auto
  then show ?thesis using r2
    by (intro exI [of _ "r2\<lparr>entries := new\<rparr>"]) (simp add: stopped_def)
qed

theorem deferred_cancel_panics_after_stop_witness:
  "\<exists>r1 r2. subscribe ''erase'' demo = (r1, Ok (1, CancelSub ''erase'' 1))
     \<and> tick (Some [Some erase_stop]) r1 = (r2, Ok ())
     \<and> cancel (CancelSub ''erase'' 1) r2 = (r2, Panics MakeSliceCap)"
proof -
  obtain r1 where r1: "subscribe ''erase'' demo = (r1, Ok (1, CancelSub ''erase'' 1))"
    and e: "entries r1 = [(''erase'', erase_go)]"
    by (simp add: subscribe_def may_subscribe_def register_def Let_def demo_def erase_go_def
        Go_def alloc_chan_def)
  have "''erase'' \<in> set (stopped_names (entries r1) [(''erase'', erase_stop)])"
    by (simp add: e stopped_names_def erase_go_def erase_stop_def Go_def)
  from deferred_cancel_panics_after_stop [OF demo_inv r1 load_erase(2) this] r1
  show ?thesis by blast
qed

text \<open>
  A subscription can miss its stop for good. If the entry leaves Go between the check
  Subscribe makes without the lock and its registration under the lock, the subscriber is
  handed a channel that says Go, and as long as the file stays as it is no reread ever
  sends Stop to it, although the status of the name is Stop.
\<close>

theorem subscription_race_loses_stop:
  assumes "es_inv r" "\<not> mu r" "may_subscribe n r"
    and "\<And>x. load file x = (x, Ok new)" "tick file r = (r1, Ok ())"
    and "map_of new n = Some i" "info_status i \<noteq> Go"
    and "register n r1 = (r2, Ok (ch, c))"
  shows "\<exists>r3. run_ops es_step (replicate k (OpTick file)) r2 = (r3, replicate k (Ok None))
     \<and> chans r3 ch = \<lparr>cap = 1, buf = [Go], closed = False\<rparr> \<and> status n r3 = Stop"
proof -
  obtain r0 where r0: "tick file r = (r0\<lparr>entries := new\<rparr>, Ok ())" "es_inv r0" "\<not> mu r0"
    by (rule tick_good [OF assms(1,2) assms(4)]) blast
  have new: "gmap_ok new"
    using assms(4) [of r] by (cases rule: load_cases [of "file" r]) auto
  have r1: "r1 = r0\<lparr>entries := new\<rparr>" using r0(1) assms(5) by simp
  note reg = register_ok [OF assms(8)]
  have start: "entries r2 = new" using reg(5) r1 by simp
  have none: "stopped_names new new = []"
    using new by (auto simp: stopped_names_def filter_empty_conv set_gmap_iff split: option.splits)
  have "tick file x = (x, Ok ())" if "entries x = new" for x
    using that assms(4) none by (simp add: tick_def)
  then have "run_ops es_step (replicate k (OpTick file)) r2 = (r2, replicate k (Ok None))"
    using start by (induction k) auto
  moreover have "status n r2 = Stop" using start assms(6,7) by (simp add: status_def)
  ultimately show ?thesis using reg(6) by simp
qed

theorem subscription_race_loses_stop_witness:
  "\<exists>r1 r2 r3. may_subscribe ''erase'' demo
     \<and> tick (Some [Some erase_stop]) demo = (r1, Ok ())
     \<and> register ''erase'' r1 = (r2, Ok (1, CancelSub ''erase'' 1))
     \<and> run_ops es_step (replicate 5 (OpTick (Some [Some erase_stop]))) r2 = (r3, replicate 5 (Ok None))
     \<and> buf (chans r3 1) = [Go] \<and> status ''erase'' r3 = Stop"
proof -
  have go: "may_subscribe ''erase'' demo"
    by (simp add: may_subscribe_def demo_def erase_go_def Go_def)
  obtain r0 where r0: "tick (Some [Some erase_stop]) demo = (r0, Ok ())" "\<not> mu r0" "next_chan r0 = 1"
    using send_stop_eq [OF demo_inv, of "''erase''"]
    by (simp add: tick_def) (simp add: demo_def stopped_names_def erase_go_def erase_stop_def Go_def
        subs_of_def)
  obtain r2 where r2: "register ''erase'' r0 = (r2, Ok (1, CancelSub ''erase'' 1))"
    using r0(2,3) by (simp add: register_def)
  have stop: "map_of [(''erase'', erase_stop)] ''erase'' = Some erase_stop" "info_status erase_stop \<noteq> Go"
    by (simp_all add: erase_stop_def Go_def)
  from subscription_race_loses_stop [OF demo_inv go load_erase(2) r0(1) stop r2, of 5] go r0(1) r2
  show ?thesis by auto
qed

text \<open>
  A file whose values all decode loads into the table that has, for each name, the
  first entry of that name in the file that passes validation, and nothing else; later
  definitions of a name are ignored, entries that fail validation do not hide a later valid
  one. A file with one value that does not decode empties the table and fails.
\<close>

theorem load_takes_first_valid_entry:
  "(None \<notin> set ds \<longrightarrow>
      (\<exists>m. load (Some ds) r = (r, Ok m) \<and> gmap_ok m
         \<and> (\<forall>n. map_of m n = find (\<lambda>i. info_name i = n \<and> is_ok (validate i)) (map the ds))))
   \<and> (None \<in> set ds \<longrightarrow> load (Some ds) r = (r\<lparr>entries := []\<rparr>, Err BadlyFormatted))"
proof (cases "None \<in> set ds")
  case True
  then have "load_entries [] ds = None" by (simp add: load_entries_None)
  with True show ?thesis by (simp add: load_def)
next
  case False
  then obtain m where m: "load_entries [] ds = Some m"
    using load_entries_None [of "[]" ds] by auto
  have "map Some (map the ds) = ds"
    using False by (induction ds) auto
  with m load_entries_find [of "[]" "map the ds" m] gmap_ok_load_entries [OF gmap_ok_Nil m] False
  show ?thesis by (simp add: load_def)
qed

theorem load_takes_first_valid_entry_witness:
  "\<exists>m. load (Some [Some erase_stop, Some erase_go]) demo = (demo, Ok m)
     \<and> map_of m ''erase'' = Some erase_stop"
  using load_takes_first_valid_entry [of "[Some erase_stop, Some erase_go]" demo]
  by (auto simp: erase_stop_def erase_go_def validate_def)

end
