(* ===== verification/Go_Strconv.thy ===== *)
theory Go_Strconv
  imports Go_Prelude
begin

text \<open>
  The parts of the Go packages \<open>strconv\<close> and \<open>net\<close> that the modelled code calls on
  strings: \<open>Itoa\<close> (also the \<open>%d\<close> verb of \<open>fmt\<close>), \<open>Atoi\<close>,
  \<open>SplitHostPort\<close> and \<open>JoinHostPort\<close>, with the round trips the components use.
\<close>

section \<open>Decimal numbers\<close>

definition digit_char :: "nat \<Rightarrow> char" where
  "digit_char d = char_of (48 + d)"

definition digit_val :: "char \<Rightarrow> nat option" where
  "digit_val c = (if 48 \<le> (of_char c :: nat) \<and> (of_char c :: nat) \<le> 57
                  then Some (of_char c - 48) else None)"

fun dec_nat :: "nat \<Rightarrow> string" where
  "dec_nat n = (if n < 10 then [digit_char n] else dec_nat (n div 10) @ [digit_char (n mod 10)])"

declare dec_nat.simps [simp del]

definition itoa :: "int \<Rightarrow> string" where
  "itoa i = (if i < 0 then CHR ''-'' # dec_nat (nat (- i)) else dec_nat (nat i))"

fun digits_val :: "nat \<Rightarrow> string \<Rightarrow> nat option" where
  "digits_val acc [] = Some acc"
| "digits_val acc (c # cs) =
     (case digit_val c of None \<Rightarrow> None | Some d \<Rightarrow> digits_val (10 * acc + d) cs)"

text \<open>
  \<open>Atoi\<close> returns a number and whether there was an error: 0 on a syntax error, the
  nearest 64-bit integer when the value is out of range.
\<close>

definition atoi :: "string \<Rightarrow> int \<times> bool" where
  "atoi s =
     (let neg = (s \<noteq> [] \<and> hd s = CHR ''-'');
          body = (if s \<noteq> [] \<and> (hd s = CHR ''-'' \<or> hd s = CHR ''+'') then tl s else s)
      in if body = [] then (0, True)
         else (case digits_val 0 body of
                 None \<Rightarrow> (0, True)
               | Some n \<Rightarrow>
                   let v = (if neg then - int n else int n)
                   in if v > 2 ^ 63 - 1 then (2 ^ 63 - 1, True)
                      else if v < - (2 ^ 63) then (- (2 ^ 63), True)
                      else (v, False)))"

lemma digit_val_digit_char [simp]: "d < 10 \<Longrightarrow> digit_val (digit_char d) = Some d"
  by (simp add: digit_val_def digit_char_def)

lemma digits_val_append:
  "digits_val acc (xs @ ys) =
     (case digits_val acc xs of None \<Rightarrow> None | Some n \<Rightarrow> digits_val n ys)"
  by (induction xs arbitrary: acc) (auto split: option.splits)

lemma dec_nat_nonempty [simp]: "dec_nat n \<noteq> []"
  by (subst dec_nat.simps) simp

lemma dec_nat_chars: "c \<in> set (dec_nat n) \<Longrightarrow> \<exists>d<10. c = digit_char d"
proof (induction n rule: dec_nat.induct)
  case (1 n)
  show ?case
  proof (cases "n < 10")
    case True
    with "1.prems" show ?thesis by (auto simp: dec_nat.simps [of n])
  next
    case False
    with "1.prems" have "c \<in> set (dec_nat (n div 10)) \<or> c = digit_char (n mod 10)"
      by (simp add: dec_nat.simps [of n] disj_commute)
    with "1.IH" [OF False] show ?thesis by (auto intro: exI [of _ "n mod 10"])
  qed
qed

lemma digit_val_Some_of_dec: "c \<in> set (dec_nat n) \<Longrightarrow> digit_val c \<noteq> None"
  using dec_nat_chars by fastforce

lemma digits_val_dec_nat: "digits_val 0 (dec_nat n) = Some n"
proof (induction n rule: dec_nat.induct)
  case (1 n)
  show ?case
  proof (cases "n < 10")
    case True
    then show ?thesis by (simp add: dec_nat.simps [of n])
  next
    case False
    with "1.IH" show ?thesis
      by (simp add: dec_nat.simps [of n] digits_val_append)
  qed
qed

lemma dec_nat_inj: "dec_nat m = dec_nat n \<Longrightarrow> m = n"
  using digits_val_dec_nat by (metis option.inject)

lemma hd_dec_nat_digit: "digit_val (hd (dec_nat n)) \<noteq> None"
  by (rule digit_val_Some_of_dec [of _ n]) simp

lemma digit_val_sign [simp]: "digit_val (CHR ''-'') = None" "digit_val (CHR ''+'') = None"
    "digit_val (CHR '':'') = None" "digit_val (CHR ''['') = None" "digit_val (CHR '']'') = None"
  by (simp_all add: digit_val_def)

lemma itoa_no_char: "digit_val c = None \<Longrightarrow> c \<noteq> CHR ''-'' \<Longrightarrow> c \<notin> set (itoa i)"
  by (auto simp: itoa_def dest: digit_val_Some_of_dec)

lemma itoa_nonempty [simp]: "itoa i \<noteq> []"
  by (simp add: itoa_def)

lemma itoa_inj: "itoa i = itoa j \<Longrightarrow> i = j"
proof -
  have neg: "dec_nat n \<noteq> CHR ''-'' # s" for n s
    using hd_dec_nat_digit [of n] by auto
  assume "itoa i = itoa j"
  then show "i = j"
    using neg neg [THEN not_sym] dec_nat_inj
    by (fastforce simp: itoa_def split: if_splits)
qed

lemma atoi_itoa:
  assumes "- (2 ^ 63) \<le> i" and "i \<le> 2 ^ 63 - 1"
  shows "atoi (itoa i) = (i, False)"
proof (cases "i < 0")
  case True
  with assms show ?thesis
    by (simp add: atoi_def itoa_def digits_val_dec_nat)
next
  case False
  then have "hd (itoa i) \<noteq> CHR ''-''" "hd (itoa i) \<noteq> CHR ''+''"
    using hd_dec_nat_digit [of "nat i"] by (auto simp: itoa_def)
  with False assms show ?thesis
    by (simp add: atoi_def itoa_def digits_val_dec_nat)
qed

section \<open>Host and port\<close>

fun index_byte :: "char \<Rightarrow> string \<Rightarrow> nat option" where
  "index_byte c [] = None"
| "index_byte c (x # xs) = (if x = c then Some 0 else map_option Suc (index_byte c xs))"

fun last_index_byte :: "char \<Rightarrow> string \<Rightarrow> nat option" where
  "last_index_byte c [] = None"
| "last_index_byte c (x # xs) =
     (case last_index_byte c xs of
        Some i \<Rightarrow> Some (Suc i)
      | None \<Rightarrow> if x = c then Some 0 else None)"

datatype addr_err =
    MissingPort | TooManyColons | MissingBracket | UnexpectedOpen | UnexpectedClose

definition split_host_port :: "string \<Rightarrow> (addr_err, string \<times> string) outcome" where
  "split_host_port hp =
     (case last_index_byte (CHR '':'') hp of
        None \<Rightarrow> Err MissingPort
      | Some i \<Rightarrow>
          let finish = (\<lambda>host j k.
                 if index_byte (CHR ''['') (drop j hp) \<noteq> None then Err UnexpectedOpen
                 else if index_byte (CHR '']'') (drop k hp) \<noteq> None then Err UnexpectedClose
                 else Ok (host, drop (Suc i) hp))
          in if hd hp = CHR ''['' then
               (case index_byte (CHR '']'') hp of
                  None \<Rightarrow> Err MissingBracket
                | Some e \<Rightarrow>
                    if Suc e = length hp then Err MissingPort
                    else if Suc e = i then finish (take (e - 1) (tl hp)) 1 (Suc e)
                    else if hp ! Suc e = CHR '':'' then Err TooManyColons
                    else Err MissingPort)
             else if index_byte (CHR '':'') (take i hp) \<noteq> None then Err TooManyColons
             else finish (take i hp) 0 0)"

definition join_host_port :: "string \<Rightarrow> string \<Rightarrow> string" where
  "join_host_port host port =
     (if index_byte (CHR '':'') host \<noteq> None then ''['' @ host @ '']:'' @ port
      else host @ '':'' @ port)"

lemma index_byte_None [simp]: "index_byte c xs = None \<longleftrightarrow> c \<notin> set xs"
  by (induction xs) auto

lemma last_index_byte_None [simp]: "last_index_byte c xs = None \<longleftrightarrow> c \<notin> set xs"
  by (induction xs) (auto split: option.splits)

lemma last_index_byte_notin [simp]: "c \<notin> set xs \<Longrightarrow> last_index_byte c xs = None"
  by simp

lemma index_byte_append: "c \<notin> set xs \<Longrightarrow> index_byte c (xs @ c # ys) = Some (length xs)"
  by (induction xs) auto

lemma last_index_byte_append: "c \<notin> set ys \<Longrightarrow> last_index_byte c (xs @ c # ys) = Some (length xs)"
  by (induction xs) simp_all

lemma last_index_byte_SomeD: "last_index_byte c xs = Some i \<Longrightarrow> i < length xs \<and> xs ! i = c"
  by (induction xs arbitrary: i) (auto split: option.splits if_splits)

lemma split_join_host_port:
  assumes "CHR ''['' \<notin> set host" "CHR '']'' \<notin> set host"
    and "CHR ''['' \<notin> set port" "CHR '']'' \<notin> set port" "CHR '':'' \<notin> set port"
  shows "split_host_port (join_host_port host port) = Ok (host, port)"
proof (cases "CHR '':'' \<in> set host")
  case True
  have last: "last_index_byte (CHR '':'') (''['' @ host @ '']:'' @ port) = Some (Suc (Suc (length host)))"
    using last_index_byte_append [of "CHR '':''" port "''['' @ host @ '']''"] assms by simp
  have idx: "index_byte (CHR '']'') (''['' @ host @ '']:'' @ port) = Some (Suc (length host))"
    using index_byte_append [of "CHR '']''" "''['' @ host" "'':'' @ port"] assms by simp
  have "index_byte (CHR '':'') host \<noteq> None" using True by simp
  then have j: "join_host_port host port = ''['' @ host @ '']:'' @ port"
    by (simp only: join_host_port_def if_True) simp
  show ?thesis
    unfolding j split_host_port_def last idx using assms by simp
next
  case False
  have last: "last_index_byte (CHR '':'') (host @ '':'' @ port) = Some (length host)"
    using last_index_byte_append [of "CHR '':''" port host] assms by simp
  have j: "join_host_port host port = host @ '':'' @ port"
    using False by (simp add: join_host_port_def)
  have "hd (host @ '':'' @ port) \<noteq> CHR ''[''"
    using assms(1) by (cases host) auto
  then show ?thesis
    unfolding j split_host_port_def last using assms False by simp
qed

end
