(* ===== verification/Go_Net.thy ===== *)
theory Go_Net
  imports Go_Strconv
begin

text \<open>
  The functions of Go's package \<open>net\<close> on IP addresses that the modelled code calls:
  \<open>ParseIP\<close> (IPv4 and IPv6 text, no zones), \<open>IP.String\<close> and the length test behind
  \<open>To4\<close> and \<open>To16\<close>. An address is its list of bytes, as \<open>net.IP\<close> is.
\<close>

type_synonym net_ip = "nat list"

definition has_ip_length :: "net_ip \<Rightarrow> bool" where
  "has_ip_length ip \<longleftrightarrow> length ip = 4 \<or> length ip = 16"

definition v4_prefix :: "nat list" where
  "v4_prefix = [0, 0, 0, 0, 0, 0, 0, 0, 0, 0, 255, 255]"

section \<open>Parsing\<close>

text \<open>The loop of \<open>parseIPv4\<close>: fields so far, value and digits of the current field.\<close>

fun v4_scan :: "string \<Rightarrow> nat list \<Rightarrow> nat \<Rightarrow> nat \<Rightarrow> nat list option" where
  "v4_scan [] fs v d = (if length fs = 3 then Some (fs @ [v]) else None)"
| "v4_scan (c # cs) fs v d =
     (case digit_val c of
        Some x \<Rightarrow>
          if d = 1 \<and> v = 0 then None
          else if 10 * v + x > 255 then None
          else v4_scan cs fs (10 * v + x) (Suc d)
      | None \<Rightarrow>
          if c = CHR ''.'' then
            (if d = 0 \<or> cs = [] \<or> length fs = 3 then None else v4_scan cs (fs @ [v]) 0 0)
          else None)"

definition parse_ipv4 :: "string \<Rightarrow> nat list option" where
  "parse_ipv4 s = v4_scan s [] 0 0"

definition hex_val :: "char \<Rightarrow> nat option" where
  "hex_val c =
     (let n = (of_char c :: nat)
      in if 48 \<le> n \<and> n \<le> 57 then Some (n - 48)
         else if 97 \<le> n \<and> n \<le> 102 then Some (n - 87)
         else if 65 \<le> n \<and> n \<le> 70 then Some (n - 55)
         else None)"

fun hex_group :: "string \<Rightarrow> nat \<Rightarrow> nat \<Rightarrow> (nat \<times> nat \<times> string) option" where
  "hex_group [] acc off = Some (acc, off, [])"
| "hex_group (c # cs) acc off =
     (case hex_val c of
        None \<Rightarrow> Some (acc, off, c # cs)
      | Some x \<Rightarrow>
          if off > 3 \<or> 16 * acc + x > 65535 then None
          else hex_group cs (16 * acc + x) (Suc off))"

text \<open>The loop of \<open>parseIPv6\<close>: the text left, the bytes so far, the place of the ellipsis.\<close>

fun v6_loop :: "nat \<Rightarrow> string \<Rightarrow> nat list \<Rightarrow> nat option \<Rightarrow> (string \<times> nat list \<times> nat option) option" where
  "v6_loop 0 s bs e = Some (s, bs, e)"
| "v6_loop (Suc n) s bs e =
     (case hex_group s 0 0 of
        None \<Rightarrow> None
      | Some (acc, off, rest) \<Rightarrow>
          if off = 0 then None
          else if rest \<noteq> [] \<and> hd rest = CHR ''.'' then
            (if (e = None \<and> length bs \<noteq> 12) \<or> length bs + 4 > 16 then None
             else (case parse_ipv4 s of None \<Rightarrow> None | Some f \<Rightarrow> Some ([], bs @ f, e)))
          else
            (let bs' = bs @ [acc div 256, acc mod 256]
             in case rest of
                  [] \<Rightarrow> Some ([], bs', e)
                | c # r \<Rightarrow>
                    if c \<noteq> CHR '':'' \<or> r = [] then None
                    else if hd r = CHR '':'' then
                      (if e \<noteq> None then None
                       else if tl r = [] then Some ([], bs', Some (length bs'))
                       else v6_loop n (tl r) bs' (Some (length bs')))
                    else v6_loop n r bs' e))"

definition parse_ipv6 :: "string \<Rightarrow> nat list option" where
  "parse_ipv6 s =
     (if CHR ''%'' \<in> set s then None
      else if s = ''::'' then Some (replicate 16 0)
      else
        (case (if take 2 s = ''::'' then v6_loop 8 (drop 2 s) [] (Some 0) else v6_loop 8 s [] None) of
           Some ([], bs, e) \<Rightarrow>
             if length bs < 16 then
               (case e of None \<Rightarrow> None
                | Some k \<Rightarrow> Some (take k bs @ replicate (16 - length bs) 0 @ drop k bs))
             else if e \<noteq> None then None
             else Some bs
         | _ \<Rightarrow> None))"

definition parse_ip :: "string \<Rightarrow> net_ip option" where
  "parse_ip s =
     (case find (\<lambda>c. c = CHR ''.'' \<or> c = CHR '':'' \<or> c = CHR ''%'') s of
        None \<Rightarrow> None
      | Some c \<Rightarrow>
          if c = CHR ''.'' then map_option (\<lambda>f. v4_prefix @ f) (parse_ipv4 s)
          else if c = CHR '':'' then parse_ipv6 s
          else None)"

section \<open>Printing\<close>

definition hex_digit :: "nat \<Rightarrow> char" where
  "hex_digit d = (if d < 10 then char_of (48 + d) else char_of (87 + d))"

fun hex_nat :: "nat \<Rightarrow> string" where
  "hex_nat n = (if n < 16 then [hex_digit n] else hex_nat (n div 16) @ [hex_digit (n mod 16)])"

declare hex_nat.simps [simp del]

definition v4_string :: "nat list \<Rightarrow> string" where
  "v4_string f = dec_nat (f ! 0) @ ''.'' @ dec_nat (f ! 1) @ ''.'' @ dec_nat (f ! 2) @ ''.'' @ dec_nat (f ! 3)"

fun groups_of :: "nat list \<Rightarrow> nat list" where
  "groups_of (a # b # bs) = (256 * a + b) # groups_of bs"
| "groups_of _ = []"

text \<open>Start and end of the longest run of at least two zero groups, the first of the longest.\<close>

definition zero_run :: "nat list \<Rightarrow> nat \<times> nat" where
  "zero_run g =
     foldl (\<lambda>(s, e) i.
        (let l = length (takeWhile (\<lambda>x. x = 0) (drop i g))
         in if 2 \<le> l \<and> e - s < l then (i, i + l) else (s, e))) (255, 255) [0..<8]"

fun v6_groups :: "nat list \<Rightarrow> string" where
  "v6_groups [] = []"
| "v6_groups [x] = hex_nat x"
| "v6_groups (x # y # xs) = hex_nat x @ '':'' @ v6_groups (y # xs)"

definition v6_string :: "nat list \<Rightarrow> string" where
  "v6_string bs =
     (let g = groups_of bs; (s, e) = zero_run g
      in if s = 255 then v6_groups g
         else v6_groups (take s g) @ ''::'' @ v6_groups (drop e g))"

definition ip_text :: "net_ip \<Rightarrow> string" where
  "ip_text ip =
     (if ip = [] then ''<nil>''
      else if length ip = 4 then v4_string ip
      else if length ip = 16 then
        (if take 12 ip = v4_prefix then v4_string (drop 12 ip) else v6_string ip)
      else ''?'' @ concat (map (\<lambda>b. [hex_digit (b div 16), hex_digit (b mod 16)]) ip))"

section \<open>Round trip\<close>

lemma digit_val_dot [simp]: "digit_val (CHR ''.'') = None"
  by (simp add: digit_val_def)

lemma v4_scan_dec:
  "n \<le> 255 \<Longrightarrow> v4_scan (dec_nat n @ rest) fs 0 0 = v4_scan rest fs n (length (dec_nat n))"
proof (induction n arbitrary: rest rule: dec_nat.induct)
  case (1 n)
  show ?case
  proof (cases "n < 10")
    case True
    then show ?thesis by (simp add: dec_nat.simps [of n])
  next
    case False
    then have "n div 10 \<noteq> 0" "n div 10 \<le> 255" "10 * (n div 10) + n mod 10 = n"
      using "1.prems" by simp_all
    with False "1.IH" "1.prems" show ?thesis by (simp add: dec_nat.simps [of n])
  qed
qed

lemma parse_v4_string:
  assumes "a \<le> 255" "b \<le> 255" "c \<le> 255" "d \<le> 255"
  shows "parse_ipv4 (v4_string [a, b, c, d]) = Some [a, b, c, d]"
proof -
  have "v4_scan (dec_nat d) fs 0 0 = v4_scan [] fs d (length (dec_nat d))" for fs
    using v4_scan_dec [OF assms(4), of "[]" fs] by simp
  with assms(1-3) show ?thesis by (simp add: parse_ipv4_def v4_string_def v4_scan_dec)
qed

lemma find_dot_dec: "find (\<lambda>c. c = CHR ''.'' \<or> c = CHR '':'' \<or> c = CHR ''%'') (dec_nat n @ CHR ''.'' # s) = Some (CHR ''.'')"
proof -
  have "\<not> (c = CHR ''.'' \<or> c = CHR '':'' \<or> c = CHR ''%'')" if "c \<in> set (dec_nat n)" for c
    using digit_val_Some_of_dec [OF that] by (auto simp: digit_val_def)
  then have "find (\<lambda>c. c = CHR ''.'' \<or> c = CHR '':'' \<or> c = CHR ''%'') (xs @ CHR ''.'' # s) = Some (CHR ''.'')"
    if "set xs \<subseteq> set (dec_nat n)" for xs using that by (induction xs) auto
  then show ?thesis by simp
qed

lemma parse_ip_text_v4:
  assumes "a \<le> 255" "b \<le> 255" "c \<le> 255" "d \<le> 255"
  shows "parse_ip (ip_text [a, b, c, d]) = Some (v4_prefix @ [a, b, c, d])"
    and "ip_text (v4_prefix @ [a, b, c, d]) = ip_text [a, b, c, d]"
proof -
  have "parse_ip (v4_string [a, b, c, d]) = map_option (\<lambda>f. v4_prefix @ f) (parse_ipv4 (v4_string [a, b, c, d]))"
    using find_dot_dec [of a "dec_nat b @ ''.'' @ dec_nat c @ ''.'' @ dec_nat d"]
    by (simp add: parse_ip_def v4_string_def)
  then show "parse_ip (ip_text [a, b, c, d]) = Some (v4_prefix @ [a, b, c, d])"
    using parse_v4_string [OF assms] by (simp add: ip_text_def)
  show "ip_text (v4_prefix @ [a, b, c, d]) = ip_text [a, b, c, d]"
    by (simp add: ip_text_def v4_prefix_def)
qed

lemma v4_scan_length: "v4_scan s fs v d = Some bs \<Longrightarrow> length bs = 4"
  by (induction s fs v d rule: v4_scan.induct) (auto split: if_splits option.splits)

lemma v6_loop_bound:
  "v6_loop n s bs e = Some (r, bs', e') \<Longrightarrow> length bs = 2 * (8 - n) \<Longrightarrow> n \<le> 8
     \<Longrightarrow> (\<forall>k. e = Some k \<longrightarrow> k \<le> length bs) \<Longrightarrow> length bs' \<le> 16 \<and> (\<forall>k. e' = Some k \<longrightarrow> k \<le> length bs')"
proof (induction n s bs e rule: v6_loop.induct)
  case (1 s bs e)
  then show ?case by auto
next
  case (2 n s bs e)
  then show ?case
    by (fastforce split: if_splits option.splits list.splits prod.splits
        simp: Let_def parse_ipv4_def dest: v4_scan_length)
qed

lemma parse_ip_length: "parse_ip s = Some ip \<Longrightarrow> has_ip_length ip"
proof -
  have "length bs = 16" if "parse_ipv6 s = Some bs" for bs
    using that v6_loop_bound [of 8 "drop 2 s" "[]" "Some 0"] v6_loop_bound [of 8 s "[]" None]
    by (auto simp: parse_ipv6_def split: if_splits option.splits list.splits prod.splits)
  moreover have "length f = 4" if "parse_ipv4 s = Some f" for f
    using that v4_scan_length by (auto simp: parse_ipv4_def)
  moreover assume "parse_ip s = Some ip"
  ultimately show ?thesis
    by (auto simp: parse_ip_def has_ip_length_def v4_prefix_def split: option.splits if_splits)
qed

end
