(* ===== verification/LB_Backend.thy ===== *)
theory LB_Backend
  imports Go_Net "HOL-Library.Word"
begin

text \<open>
  Backends of the HTTP load balancer (\<open>lb/server/http/server.go\<close>): the health states,
  \<open>IPBackend\<close> with its constructor and validation, and the health checks
  (\<open>HealthMultiplexer\<close>, \<open>StatusCheck\<close>). The network is a parameter: what the
  HTTP GET of a status page returns. The code asks an address for \<open>To4\<close> and \<open>To16\<close>, which
  are both nil exactly for a slice whose length is neither 4 nor 16.
\<close>

section \<open>IPBackend\<close>

datatype health_state = UnknownHS | Healthy | Sick

record ip_backend =
  be_ip :: net_ip
  be_port :: int
  be_url_path :: string
  be_health :: health_state
  be_endpoint :: string
  be_url :: string

datatype lb_err =
    BadIP net_ip
  | BadPort int
  | CtxDone
  | BackendIsSick string
  | BackendExists
  | BackendNotFound string
  | NoHealthyValues
  | CheckFailed string
  | NotHealthy string
  | PatternRegistered string
  | PoolNotFound string
  | NoPool
  | EmptyPattern
  | NoPoolType
  | NoHealthChecks
  | HealthCheckWithoutType
  | UnknownPoolType int
  | BackendIPInvalid
  | PortInvalid
  | BackendWithoutType

definition be_validate :: "ip_backend \<Rightarrow> (lb_err, unit) outcome" where
  "be_validate i =
     (if \<not> has_ip_length (be_ip i) then Err (BadIP (be_ip i))
      else if be_port i < 1 \<or> be_port i > 65534 then Err (BadPort (be_port i))
      else Ok ())"

text \<open>
  \<open>resolveURL\<close> resolves the field \<open>urlPath\<close> against \<open>http://\<close> and the endpoint. The
  constructor does not set that field, so the reference is always empty and the URL is
  the base.
\<close>

definition resolve_url :: "ip_backend \<Rightarrow> ip_backend" where
  "resolve_url i = i\<lparr>be_url := ''http://'' @ be_endpoint i\<rparr>"

definition new_ip_backend :: "net_ip \<Rightarrow> int \<Rightarrow> string \<Rightarrow> (lb_err, ip_backend) outcome" where
  "new_ip_backend ip port url_path =
     (let i = resolve_url
            \<lparr>be_ip = ip, be_port = port, be_url_path = [], be_health = UnknownHS,
             be_endpoint = ip_text ip @ '':'' @ itoa port, be_url = []\<rparr>
      in then_ok (be_validate i) (\<lambda>_. Ok i))"

definition set_health :: "health_state \<Rightarrow> ip_backend \<Rightarrow> ip_backend" where
  "set_health h i = i\<lparr>be_health := h\<rparr>"

lemma set_health_url [simp]: "be_url (set_health h i) = be_url i"
    "be_ip (set_health h i) = be_ip i" "be_port (set_health h i) = be_port i"
    "be_url_path (set_health h i) = be_url_path i" "be_health (set_health h i) = h"
  by (simp_all add: set_health_def)

lemma new_ip_backend_Ok:
  "new_ip_backend ip port p = Ok i \<longleftrightarrow>
     has_ip_length ip \<and> 1 \<le> port \<and> port \<le> 65534
     \<and> i = \<lparr>be_ip = ip, be_port = port, be_url_path = [], be_health = UnknownHS,
            be_endpoint = ip_text ip @ '':'' @ itoa port,
            be_url = ''http://'' @ ip_text ip @ '':'' @ itoa port\<rparr>"
  by (auto simp: new_ip_backend_def be_validate_def resolve_url_def Let_def)

text \<open>The URL identifies the endpoint: the port is what follows the last colon.\<close>

lemma endpoint_inj:
  assumes "t @ '':'' @ itoa p = t' @ '':'' @ itoa q"
  shows "t = t' \<and> p = q"
proof -
  have no: "CHR '':'' \<notin> set (itoa x)" for x by (rule itoa_no_char) simp_all
  have eq: "last_index_byte (CHR '':'') (t @ '':'' @ itoa p) = Some (length t)"
    "last_index_byte (CHR '':'') (t' @ '':'' @ itoa q) = Some (length t')"
    using last_index_byte_append [OF no] by simp_all
  with assms have "length t = length t'" by simp
  with assms show ?thesis by (auto dest: itoa_inj)
qed

section \<open>Health checks\<close>

text \<open>
  A health check of a backend is a function from its endpoint to \<open>None\<close> (healthy) or an
  error. \<open>HealthMultiplexer\<close> starts all checks and takes the results in the order in
  which they arrive (\<open>arrive\<close>), returning the first error it meets.
\<close>

type_synonym health_check = "string \<Rightarrow> lb_err option"

fun first_error :: "lb_err option list \<Rightarrow> lb_err option" where
  "first_error [] = None"
| "first_error (r # rs) = (if r \<noteq> None then r else first_error rs)"

definition health_multiplexer ::
  "(lb_err option list \<Rightarrow> lb_err option list) \<Rightarrow> health_check list \<Rightarrow> health_check" where
  "health_multiplexer arrive hcs endpoint = first_error (arrive (map (\<lambda>hc. hc endpoint) hcs))"

text \<open>
  \<open>StatusCheck\<close> fetches the page at \<open>url_path\<close> of the endpoint: \<open>get\<close> returns the
  body, or \<open>None\<close> when parsing the URL, the request or reading the body fails.
\<close>

definition status_check ::
  "(string \<Rightarrow> string \<Rightarrow> string option) \<Rightarrow> string \<Rightarrow> string list
     \<Rightarrow> (lb_err, health_check) outcome" where
  "status_check get url_path healthy_values =
     (if healthy_values = [] then Err NoHealthyValues
      else Ok (\<lambda>endpoint.
        (case get endpoint url_path of
           None \<Rightarrow> Some (CheckFailed endpoint)
         | Some body \<Rightarrow>
             (let b = trim_space body
              in if \<exists>v \<in> set healthy_values. length v = length b \<and> b = v then None
                 else Some (NotHealthy b)))))"

lemma first_error_None: "first_error rs = None \<longleftrightarrow> (\<forall>r \<in> set rs. r = None)"
  by (induction rs) auto

lemma first_error_in: "first_error rs = Some e \<Longrightarrow> Some e \<in> set rs"
  by (induction rs) (auto split: if_splits)

text \<open>
  Combined checks pass exactly when every single check passes, in whatever order their
  results arrive; otherwise the error reported is the error of one of the checks.
\<close>

theorem health_multiplexer_all:
  assumes "\<And>rs. mset (arrive rs) = mset rs"
  shows "(health_multiplexer arrive hcs e = None \<longleftrightarrow> (\<forall>hc \<in> set hcs. hc e = None))
    \<and> (\<forall>x. health_multiplexer arrive hcs e = Some x \<longrightarrow> (\<exists>hc \<in> set hcs. hc e = Some x))"
proof -
  have arr: "set (arrive rs) = set rs" for rs using assms by (metis set_mset_mset)
  have "\<exists>hc \<in> set hcs. hc e = Some x" if "health_multiplexer arrive hcs e = Some x" for x
    using first_error_in [OF that [unfolded health_multiplexer_def]] by (auto simp: arr image_iff)
  then show ?thesis by (auto simp: health_multiplexer_def first_error_None arr)
qed

theorem health_multiplexer_all_witness:
  "health_multiplexer rev [(\<lambda>_. None), (\<lambda>e. Some (CheckFailed e))] ''x'' \<noteq> None"
proof -
  have "mset (rev rs) = mset rs" for rs :: "lb_err option list" by simp
  from health_multiplexer_all [of rev, OF this, of "[(\<lambda>_. None), (\<lambda>e. Some (CheckFailed e))]" "''x''"]
  show ?thesis by simp
qed

end
