(* ===== verification/Pool_P2C.thy ===== *)
theory Pool_P2C
  imports LB_Backend
begin

text \<open>
  The power-of-two-choices pool (\<open>lb/server/http/p2c.go\<close>). The lists of healthy and
  sick backends hold pointers to \<open>weightedBackend\<close> values, which requests in flight
  also hold, so the values live in a heap and the lists hold addresses. The lists are
  replaced as a whole (\<open>atomic.Value\<close>); the checks of one health round run as
  goroutines that each load, change and store them, and are modelled one access at a time.
\<close>

section \<open>Data\<close>

record wbackend =
  backend :: ip_backend
  weight :: "32 word"

record p2c =
  heap :: "nat \<Rightarrow> wbackend"
  next_wb :: nat
  healthy :: "nat list"
  sick :: "nat list"
  done_closed :: bool

datatype pool_status = PS_UNKNOWN | PS_FULL | PS_EMPTY | PS_DEGRADED
datatype backend_status = BS_UNKNOWN | BS_HEALTHY | BS_SICK

record backend_health =
  bh_ip :: string
  bh_port :: int
  bh_url_path :: string
  bh_status :: backend_status

record pool_health =
  ph_status :: pool_status
  ph_backends :: "backend_health list"

record pool_health_req =
  phr_pattern :: string
  phr_healthy :: bool
  phr_sick :: bool

definition url_of :: "p2c \<Rightarrow> nat \<Rightarrow> string" where
  "url_of s a = be_url (backend (heap s a))"

section \<open>The pool and its lists\<close>

definition no_backend :: wbackend where
  "no_backend = \<lparr>backend = \<lparr>be_ip = [], be_port = 0, be_url_path = [],
     be_health = UnknownHS, be_endpoint = [], be_url = []\<rparr>, weight = 0\<rparr>"

definition new_p2c :: p2c where
  "new_p2c = \<lparr>heap = (\<lambda>_. no_backend), next_wb = 0, healthy = [], sick = [], done_closed = False\<rparr>"

definition close_p2c :: "p2c \<Rightarrow> p2c \<times> (lb_err, unit) outcome" where
  "close_p2c s = (if done_closed s then (s, Panics CloseOfClosed)
                  else (s\<lparr>done_closed := True\<rparr>, Ok ()))"

definition add_to_list :: "(nat \<Rightarrow> string) \<Rightarrow> nat \<Rightarrow> nat list \<Rightarrow> (lb_err, nat list) outcome" where
  "add_to_list u b backs =
     (if list_ex (\<lambda>a. u b = u a) backs then Err BackendExists else Ok (backs @ [b]))"

text \<open>\<open>Ok None\<close>: the list is empty, nothing is stored and there is no error.\<close>

definition remove_from_list :: "(nat \<Rightarrow> string) \<Rightarrow> string \<Rightarrow> nat list
    \<Rightarrow> (lb_err, nat list option) outcome" where
  "remove_from_list u url backs =
     (if int (length backs) - 1 < 0 then Ok None
      else let n = filter (\<lambda>a. url \<noteq> u a) backs
           in if length backs = length n then Err (BackendNotFound url) else Ok (Some n))"

text \<open>
  \<open>Add\<close>: \<open>ctx_err\<close> says that the context is done, \<open>hc\<close> is the health check of the
  pool. A failed check marks the caller's backend, which no pool holds, and leaves the pool
  alone.
\<close>

definition p2c_add :: "bool \<Rightarrow> health_check \<Rightarrow> ip_backend \<Rightarrow> p2c \<Rightarrow> p2c \<times> (lb_err, unit) outcome" where
  "p2c_add ctx_err hc b s =
     (if ctx_err then (s, Err CtxDone)
      else if hc (be_url b) \<noteq> None then (s, Err (BackendIsSick (be_url b)))
      else let a = next_wb s;
               s1 = s\<lparr>heap := (heap s)(a := \<lparr>backend = set_health Healthy b, weight = 0\<rparr>),
                      next_wb := Suc a\<rparr>
           in case add_to_list (url_of s1) a (healthy s1) of
                Ok l \<Rightarrow> (s1\<lparr>healthy := l\<rparr>, Ok ())
              | Err e \<Rightarrow> (s1, Err e)
              | Panics p \<Rightarrow> (s1, Panics p)
              | Blocked \<Rightarrow> (s1, Blocked))"

definition stored :: "nat list \<Rightarrow> (lb_err, nat list option) outcome \<Rightarrow> nat list" where
  "stored old oc = (case oc of Ok (Some l) \<Rightarrow> l | _ \<Rightarrow> old)"

definition p2c_remove :: "ip_backend \<Rightarrow> p2c \<Rightarrow> p2c \<times> (lb_err, unit) outcome" where
  "p2c_remove b s =
     (let s1 = s\<lparr>healthy := stored (healthy s) (remove_from_list (url_of s) (be_url b) (healthy s))\<rparr>;
          s2 = s1\<lparr>sick := stored (sick s1) (remove_from_list (url_of s1) (be_url b) (sick s1))\<rparr>
      in (s2, Ok ()))"

definition backend_report :: "backend_status \<Rightarrow> wbackend \<Rightarrow> backend_health" where
  "backend_report st w =
     \<lparr>bh_ip = ip_text (be_ip (backend w)), bh_port = be_port (backend w),
      bh_url_path = be_url_path (backend w), bh_status = st\<rparr>"

definition p2c_health :: "pool_health_req \<Rightarrow> p2c \<Rightarrow> pool_health" where
  "p2c_health req s =
     (if length (sick s) = 0 \<and> length (healthy s) = 0
      then \<lparr>ph_status = PS_EMPTY, ph_backends = []\<rparr>
      else \<lparr>ph_status = (if length (sick s) > 0 then PS_DEGRADED else PS_FULL),
            ph_backends =
              (if phr_healthy req then map (\<lambda>a. backend_report BS_HEALTHY (heap s a)) (healthy s) else [])
              @ (if phr_sick req then map (\<lambda>a. backend_report BS_SICK (heap s a)) (sick s) else [])\<rparr>)"

section \<open>Serving requests\<close>

definition add_weight :: "32 word \<Rightarrow> nat \<Rightarrow> p2c \<Rightarrow> p2c" where
  "add_weight d a s = s\<lparr>heap := (heap s)(a := (heap s a)\<lparr>weight := weight (heap s a) + d\<rparr>)\<rparr>"

text \<open>
  \<open>ServeHTTP\<close> up to the call of the chosen backend: \<open>x\<close> and \<open>y\<close> are the two random
  draws. \<open>None\<close> is the answer 500.
\<close>

definition serve_choose :: "nat \<Rightarrow> nat \<Rightarrow> p2c \<Rightarrow> (lb_err, nat option) outcome" where
  "serve_choose x y s =
     (let backs = healthy s
      in if backs = [] then Ok None
         else if x < length backs \<and> y < length backs then
           Ok (Some (if sint (weight (heap s (backs ! x))) < sint (weight (heap s (backs ! y)))
                     then backs ! x else backs ! y))
         else Panics IndexOutOfRange)"

definition wb_call :: "nat \<Rightarrow> p2c \<Rightarrow> p2c" where
  "wb_call a s = add_weight 1 a s"

definition wb_done :: "nat \<Rightarrow> p2c \<Rightarrow> p2c \<times> (lb_err, unit) outcome" where
  "wb_done a s =
     (let s' = add_weight (- 1) a s
      in (s', if sint (weight (heap s' a)) < 0
              then Panics (PanicMsg ''weightedBackend cannot be < 0'') else Ok ()))"

section \<open>Health rounds\<close>

text \<open>
  One goroutine of \<open>healthChecks\<close>: \<open>flips\<close> says that its check asks for the move
  (an error for a healthy backend, no error for a sick one). \<open>pc\<close> is its next action;
  the loads and stores of the two lists are separate actions.
\<close>

datatype direction = ToSick | ToHealthy

datatype pc = Check | Mark | LoadFrom | StoreFrom "nat list" | LoadTo | StoreTo "nat list"
  | Finished | Crashed panic

record task =
  dir :: direction
  addr :: nat
  flips :: bool
  pc :: pc

fun from_list :: "direction \<Rightarrow> p2c \<Rightarrow> nat list" where
  "from_list ToSick s = healthy s"
| "from_list ToHealthy s = sick s"

fun to_list :: "direction \<Rightarrow> p2c \<Rightarrow> nat list" where
  "to_list ToSick s = sick s"
| "to_list ToHealthy s = healthy s"

fun set_from :: "direction \<Rightarrow> nat list \<Rightarrow> p2c \<Rightarrow> p2c" where
  "set_from ToSick l s = s\<lparr>healthy := l\<rparr>"
| "set_from ToHealthy l s = s\<lparr>sick := l\<rparr>"

fun set_to :: "direction \<Rightarrow> nat list \<Rightarrow> p2c \<Rightarrow> p2c" where
  "set_to ToSick l s = s\<lparr>sick := l\<rparr>"
| "set_to ToHealthy l s = s\<lparr>healthy := l\<rparr>"

fun mark_of :: "direction \<Rightarrow> health_state" where
  "mark_of ToSick = Sick"
| "mark_of ToHealthy = Healthy"

definition mark :: "direction \<Rightarrow> nat \<Rightarrow> p2c \<Rightarrow> p2c" where
  "mark d a s = s\<lparr>heap := (heap s)(a := (heap s a)\<lparr>backend := set_health (mark_of d) (backend (heap s a))\<rparr>)\<rparr>"

definition task_step :: "task \<Rightarrow> p2c \<Rightarrow> task \<times> p2c" where
  "task_step t s =
     (case pc t of
        Check \<Rightarrow> (t\<lparr>pc := if flips t then Mark else Finished\<rparr>, s)
      | Mark \<Rightarrow> (t\<lparr>pc := LoadFrom\<rparr>, mark (dir t) (addr t) s)
      | LoadFrom \<Rightarrow> (t\<lparr>pc := StoreFrom (from_list (dir t) s)\<rparr>, s)
      | StoreFrom l \<Rightarrow>
          (case remove_from_list (url_of s) (url_of s (addr t)) l of
             Ok None \<Rightarrow> (t\<lparr>pc := LoadTo\<rparr>, s)
           | Ok (Some n) \<Rightarrow> (t\<lparr>pc := LoadTo\<rparr>, set_from (dir t) n s)
           | Err e \<Rightarrow> (t\<lparr>pc := Finished\<rparr>, s)
           | Panics p \<Rightarrow> (t\<lparr>pc := Crashed p\<rparr>, s)
           | Blocked \<Rightarrow> (t, s))
      | LoadTo \<Rightarrow> (t\<lparr>pc := StoreTo (to_list (dir t) s)\<rparr>, s)
      | StoreTo l \<Rightarrow>
          (case add_to_list (url_of s) (addr t) l of
             Ok n \<Rightarrow> (t\<lparr>pc := Finished\<rparr>, set_to (dir t) n s)
           | Err e \<Rightarrow> (t\<lparr>pc := Crashed (PanicMsg ''backend already exists'')\<rparr>, s)
           | Panics p \<Rightarrow> (t\<lparr>pc := Crashed p\<rparr>, s)
           | Blocked \<Rightarrow> (t, s))
      | Finished \<Rightarrow> (t, s)
      | Crashed p \<Rightarrow> (t, s))"

text \<open>The goroutines of a round: \<open>hc\<close> is the health check of the pool.\<close>

definition health_tasks :: "health_check \<Rightarrow> p2c \<Rightarrow> task list" where
  "health_tasks hc s =
     map (\<lambda>a. \<lparr>dir = ToSick, addr = a, flips = (hc (url_of s a) \<noteq> None), pc = Check\<rparr>) (healthy s)
     @ map (\<lambda>a. \<lparr>dir = ToHealthy, addr = a, flips = (hc (url_of s a) = None), pc = Check\<rparr>) (sick s)"

text \<open>Any goroutine that has not finished can take the next action.\<close>

inductive round_step :: "task list \<times> p2c \<Rightarrow> task list \<times> p2c \<Rightarrow> bool" where
  act: "i < length ts \<Longrightarrow> pc (ts ! i) \<noteq> Finished \<Longrightarrow> (\<And>p. pc (ts ! i) \<noteq> Crashed p) \<Longrightarrow>
     task_step (ts ! i) s = (t', s') \<Longrightarrow> round_step (ts, s) (ts[i := t'], s')"

text \<open>A schedule names the goroutine that acts at each moment.\<close>

fun run_schedule :: "nat list \<Rightarrow> task list \<times> p2c \<Rightarrow> task list \<times> p2c" where
  "run_schedule [] c = c"
| "run_schedule (i # is) (ts, s) =
     (if i < length ts
      then (let (t', s') = task_step (ts ! i) s in run_schedule is (ts[i := t'], s'))
      else run_schedule is (ts, s))"

text \<open>Each goroutine from start to end before the next one: at most six actions each.\<close>

fun run_task :: "task \<Rightarrow> p2c \<Rightarrow> task \<times> p2c" where
  "run_task t s = ((\<lambda>(t, s). task_step t s) ^^ 6) (t, s)"

fun run_tasks :: "task list \<Rightarrow> p2c \<Rightarrow> task list \<times> p2c" where
  "run_tasks [] s = ([], s)"
| "run_tasks (t # ts) s =
     (let (t', s') = run_task t s; (ts', s'') = run_tasks ts s' in (t' # ts', s''))"

definition health_round :: "health_check \<Rightarrow> p2c \<Rightarrow> task list \<times> p2c" where
  "health_round hc s = run_tasks (health_tasks hc s) s"

definition crashed :: "task \<Rightarrow> bool" where
  "crashed t = (case pc t of Crashed _ \<Rightarrow> True | _ \<Rightarrow> False)"

section \<open>The invariant of the pool\<close>

definition p2c_inv :: "p2c \<Rightarrow> bool" where
  "p2c_inv s \<longleftrightarrow>
     (\<forall>a \<in> set (healthy s) \<union> set (sick s). a < next_wb s)
     \<and> distinct (map (url_of s) (healthy s)) \<and> distinct (map (url_of s) (sick s))"

text \<open>No backend is listed as healthy and as sick. \<open>Add\<close> does not maintain this.\<close>

definition separate :: "p2c \<Rightarrow> bool" where
  "separate s \<longleftrightarrow> url_of s ` set (healthy s) \<inter> url_of s ` set (sick s) = {}"

lemma url_of_frame [simp]:
  "url_of (s\<lparr>healthy := l\<rparr>) = url_of s" "url_of (s\<lparr>sick := l\<rparr>) = url_of s"
  "url_of (s\<lparr>next_wb := n\<rparr>) = url_of s" "url_of (s\<lparr>done_closed := b\<rparr>) = url_of s"
  "url_of (set_from d l s) = url_of s" "url_of (set_to d l s) = url_of s"
  "url_of (mark d a s) = url_of s" "url_of (add_weight w a s) = url_of s"
  by (auto simp: url_of_def fun_eq_iff mark_def add_weight_def, (cases d; simp)+)

lemma mark_frame [simp]:
  "healthy (mark d a s) = healthy s" "sick (mark d a s) = sick s" "next_wb (mark d a s) = next_wb s"
  "from_list d' (mark d a s) = from_list d' s" "to_list d' (mark d a s) = to_list d' s"
  "weight (heap (mark d a s) c) = weight (heap s c)"
  by (simp_all add: mark_def, (cases d'; simp)+)

lemma add_weight_frame [simp]:
  "healthy (add_weight w a s) = healthy s" "sick (add_weight w a s) = sick s"
  "next_wb (add_weight w a s) = next_wb s"
  by (simp_all add: add_weight_def)

lemma set_from_to_frame [simp]:
  "next_wb (set_from d l s) = next_wb s" "next_wb (set_to d l s) = next_wb s"
  "heap (set_from d l s) = heap s" "heap (set_to d l s) = heap s"
  "from_list d (set_from d l s) = l" "to_list d (set_from d l s) = to_list d s"
  "from_list d (set_to d l s) = from_list d s" "to_list d (set_to d l s) = l"
  by (cases d; simp)+

lemma stored_remove [simp]:
  "stored l (remove_from_list u url l) = filter (\<lambda>a. url \<noteq> u a) l"
proof -
  have same: "filter P l = l" if "length (filter P l) = length l" for P
    using that by (metis filter_id_conv length_filter_less linorder_not_less order_refl)
  show ?thesis
    using same [of "\<lambda>a. url \<noteq> u a"]
    by (cases "l = []") (auto simp: stored_def remove_from_list_def Let_def)
qed

lemma add_to_list_cases:
  "add_to_list u b l = (if u b \<in> u ` set l then Err BackendExists else Ok (l @ [b]))"
  by (auto simp: add_to_list_def list_ex_iff image_iff)

lemma url_of_alloc [simp]:
  "url_of (s\<lparr>heap := (heap s)(a := w), next_wb := n\<rparr>) = (url_of s)(a := be_url (backend w))"
  "url_of (s\<lparr>heap := (heap s)(a := w)\<rparr>) = (url_of s)(a := be_url (backend w))"
  by (auto simp: url_of_def fun_eq_iff)

lemma map_url_alloc [simp]: "a \<notin> set l \<Longrightarrow> map (f(a := x)) l = map f l"
  by auto

lemma p2c_add_spec:
  assumes "p2c_inv s"
  shows "p2c_inv (fst (p2c_add c hc b s))" (is ?inv)
    and "sick (fst (p2c_add c hc b s)) = sick s" (is ?sick)
    and "a < next_wb s \<Longrightarrow> heap (fst (p2c_add c hc b s)) a = heap s a"
    and "is_ok (snd (p2c_add c hc b s)) \<longleftrightarrow>
           \<not> c \<and> hc (be_url b) = None \<and> be_url b \<notin> url_of s ` set (healthy s)" (is ?ok)
    and "is_ok (snd (p2c_add c hc b s)) \<Longrightarrow>
           healthy (fst (p2c_add c hc b s)) = healthy s @ [next_wb s]
           \<and> backend (heap (fst (p2c_add c hc b s)) (next_wb s)) = set_health Healthy b"
    and "\<not> is_ok (snd (p2c_add c hc b s)) \<Longrightarrow> healthy (fst (p2c_add c hc b s)) = healthy s"
proof -
  have fresh: "next_wb s \<notin> set (healthy s)" "next_wb s \<notin> set (sick s)"
    using assms by (auto simp: p2c_inv_def)
  have img: "((url_of s)(next_wb s := x)) ` set (healthy s) = url_of s ` set (healthy s)" for x
    using fresh by auto
  show ?inv
    using assms fresh by (auto simp: p2c_add_def Let_def add_to_list_cases p2c_inv_def img less_SucI)
  show ?sick by (auto simp: p2c_add_def Let_def add_to_list_cases)
  show "a < next_wb s \<Longrightarrow> heap (fst (p2c_add c hc b s)) a = heap s a"
    by (auto simp: p2c_add_def Let_def add_to_list_cases)
  show ?ok using fresh by (auto simp: p2c_add_def Let_def add_to_list_cases img)
  show "is_ok (snd (p2c_add c hc b s)) \<Longrightarrow>
           healthy (fst (p2c_add c hc b s)) = healthy s @ [next_wb s]
           \<and> backend (heap (fst (p2c_add c hc b s)) (next_wb s)) = set_health Healthy b"
    by (auto simp: p2c_add_def Let_def add_to_list_cases split: if_splits)
  show "\<not> is_ok (snd (p2c_add c hc b s)) \<Longrightarrow> healthy (fst (p2c_add c hc b s)) = healthy s"
    by (auto simp: p2c_add_def Let_def add_to_list_cases split: if_splits)
qed

lemma p2c_remove_eq:
  "p2c_remove b s =
     (s\<lparr>healthy := filter (\<lambda>a. be_url b \<noteq> url_of s a) (healthy s),
        sick := filter (\<lambda>a. be_url b \<noteq> url_of s a) (sick s)\<rparr>, Ok ())"
  by (simp add: p2c_remove_def Let_def)

lemma p2c_inv_remove [inv_intros]: "p2c_inv s \<Longrightarrow> p2c_inv (fst (p2c_remove b s))"
  by (auto simp: p2c_remove_eq p2c_inv_def distinct_map inj_on_def)

lemma separate_remove: "separate s \<Longrightarrow> separate (fst (p2c_remove b s))"
  by (auto simp: p2c_remove_eq separate_def)

section \<open>One goroutine on its own\<close>

lemma funpow_6: "(f ^^ 6) x = f (f (f (f (f (f x)))))"
  by (simp add: numeral_eq_Suc)

lemma run_task_no_flip:
  "pc t = Check \<Longrightarrow> \<not> flips t \<Longrightarrow> run_task t s = (t\<lparr>pc := Finished\<rparr>, s)"
  by (simp add: funpow_6 task_step_def)

lemma run_task_flip:
  assumes "pc t = Check" "flips t" "addr t \<in> set (from_list (dir t) s)"
  defines "a \<equiv> addr t" and "d \<equiv> dir t"
  shows "run_task t s =
    (let s1 = set_from d (filter (\<lambda>x. url_of s a \<noteq> url_of s x) (from_list d s)) (mark d a s)
     in if url_of s a \<in> url_of s ` set (to_list d s)
        then (t\<lparr>pc := Crashed (PanicMsg ''backend already exists'')\<rparr>, s1)
        else (t\<lparr>pc := Finished\<rparr>, set_to d (to_list d s @ [a]) s1))"
proof -
  let ?l = "from_list d s"
  have "filter (\<lambda>x. url_of s a \<noteq> url_of s x) ?l \<noteq> ?l"
    using assms(3) unfolding a_def d_def by (auto simp: filter_id_conv)
  then have "length (filter (\<lambda>x. url_of s a \<noteq> url_of s x) ?l) \<noteq> length ?l"
    by (metis filter_id_conv length_filter_less linorder_not_less order_refl)
  moreover have "?l \<noteq> []" using assms(3) by (auto simp: d_def)
  ultimately have rem: "remove_from_list (url_of s) (url_of s a) ?l
      = Ok (Some (filter (\<lambda>x. url_of s a \<noteq> url_of s x) ?l))"
    by (auto simp: remove_from_list_def Let_def neq_Nil_conv)
  show ?thesis
    using assms(1,2) rem
    by (simp add: funpow_6 task_step_def a_def d_def add_to_list_cases Let_def)
qed

definition flipping :: "direction \<Rightarrow> task list \<Rightarrow> nat set" where
  "flipping d ts = addr ` {t \<in> set ts. dir t = d \<and> flips t}"

lemma flipping_Nil [simp]: "flipping d [] = {}"
  by (simp add: flipping_def)

lemma flipping_Cons [simp]:
  "flipping d (t # ts) = (if dir t = d \<and> flips t then insert (addr t) (flipping d ts) else flipping d ts)"
  by (auto simp: flipping_def)

text \<open>
  A goroutine that runs alone on a pool whose two lists are disjoint moves its backend from
  one list to the other when its check asks for it, and does nothing else.
\<close>

definition moved :: "nat set \<Rightarrow> nat set \<Rightarrow> p2c \<Rightarrow> p2c \<Rightarrow> bool" where
  "moved to_sick to_healthy s s' \<longleftrightarrow>
     p2c_inv s' \<and> separate s' \<and> url_of s' = url_of s \<and> next_wb s' = next_wb s
     \<and> (\<forall>a. weight (heap s' a) = weight (heap s a))
     \<and> set (healthy s') = set (healthy s) - to_sick \<union> to_healthy
     \<and> set (sick s') = set (sick s) - to_healthy \<union> to_sick"

lemma filter_url:
  "distinct (map u l) \<Longrightarrow> a \<in> set l \<Longrightarrow> set (filter (\<lambda>x. u a \<noteq> u x) l) = set l - {a}"
  by (auto simp: distinct_map inj_on_def)

lemma run_task_moved:
  assumes "p2c_inv s" "separate s" "pc t = Check" "addr t \<in> set (from_list (dir t) s)"
  shows "\<exists>t' s'. run_task t s = (t', s') \<and> pc t' = Finished
     \<and> moved (flipping ToSick [t]) (flipping ToHealthy [t]) s s'"
proof (cases "flips t")
  case False
  with assms show ?thesis
    by (auto simp: run_task_no_flip moved_def simp del: run_task.simps)
next
  case True
  let ?d = "dir t" and ?a = "addr t" and ?u = "url_of s"
  let ?s' = "set_to ?d (to_list ?d s @ [?a])
     (set_from ?d (filter (\<lambda>x. ?u ?a \<noteq> ?u x) (from_list ?d s)) (mark ?d ?a s))"
  have new: "?u ?a \<notin> ?u ` set (to_list ?d s)"
    using assms(2,4) by (cases ?d) (auto simp: separate_def)
  then have "run_task t s = (t\<lparr>pc := Finished\<rparr>, ?s')"
    using run_task_flip [OF assms(3) True assms(4)] by (simp add: Let_def del: run_task.simps)
  moreover have "moved (flipping ToSick [t]) (flipping ToHealthy [t]) s ?s'"
    using assms(1,2,4) new True
    by (cases ?d) (auto simp: moved_def p2c_inv_def separate_def filter_url distinct_map inj_on_def)
  ultimately show ?thesis by (auto simp del: run_task.simps)
qed

lemma moved_trans:
  assumes "moved A B s s1" "moved C D s1 s2" "A \<inter> D = {}" "B \<inter> C = {}"
  shows "moved (A \<union> C) (B \<union> D) s s2"
  using assms by (auto simp: moved_def)

lemma run_tasks_moved:
  assumes "p2c_inv s" "separate s" "distinct (map addr ts)"
    and "\<And>t. t \<in> set ts \<Longrightarrow> pc t = Check \<and> addr t \<in> set (from_list (dir t) s)"
  shows "\<exists>ts' s'. run_tasks ts s = (ts', s') \<and> (\<forall>t \<in> set ts'. pc t = Finished)
     \<and> moved (flipping ToSick ts) (flipping ToHealthy ts) s s'"
  using assms
proof (induction ts arbitrary: s)
  case Nil
  then show ?case by (simp add: moved_def)
next
  case (Cons t ts)
  obtain t' s1 where t: "run_task t s = (t', s1)" "pc t' = Finished"
    and m1: "moved (flipping ToSick [t]) (flipping ToHealthy [t]) s s1"
    using run_task_moved [OF Cons.prems(1,2), of t] Cons.prems(4) by auto
  have "\<And>x. x \<in> set ts \<Longrightarrow> pc x = Check \<and> addr x \<in> set (from_list (dir x) s1)"
  proof -
    fix x assume x: "x \<in> set ts"
    then have "addr x \<noteq> addr t" using Cons.prems(3) by (auto simp: image_iff)
    then show "pc x = Check \<and> addr x \<in> set (from_list (dir x) s1)"
      using Cons.prems(4) [of x] x m1 by (cases "dir x") (auto simp: moved_def)
  qed
  then obtain ts' s2 where ts: "run_tasks ts s1 = (ts', s2)" "\<forall>t \<in> set ts'. pc t = Finished"
    and m2: "moved (flipping ToSick ts) (flipping ToHealthy ts) s1 s2"
    using Cons.IH [of s1] m1 Cons.prems(3) by (auto simp: moved_def)
  have "flipping ToSick [t] \<inter> flipping ToHealthy ts = {}"
    "flipping ToHealthy [t] \<inter> flipping ToSick ts = {}"
    using Cons.prems(3) by (auto simp: flipping_def)
  from moved_trans [OF m1 m2 this]
  have "moved (flipping ToSick (t # ts)) (flipping ToHealthy (t # ts)) s s2"
    by (cases "flips t"; cases "dir t") auto
  with t ts show ?case by (simp del: run_task.simps)
qed

lemma flipping_append: "flipping d (xs @ ys) = flipping d xs \<union> flipping d ys"
  by (auto simp: flipping_def)

lemma flipping_map:
  "flipping d (map (\<lambda>a. \<lparr>dir = e, addr = a, flips = P a, pc = c\<rparr>) l)
     = (if e = d then {a \<in> set l. P a} else {})"
proof (induction l)
  case Nil
  then show ?case by simp
next
  case (Cons a l)
  have "{x \<in> set (a # l). P x} = (if P a then insert a {x \<in> set l. P x} else {x \<in> set l. P x})"
    by auto
  with Cons show ?case by (cases "e = d") simp_all
qed

lemma flipping_health_tasks:
  "flipping ToSick (health_tasks hc s) = {a \<in> set (healthy s). hc (url_of s a) \<noteq> None}"
  "flipping ToHealthy (health_tasks hc s) = {a \<in> set (sick s). hc (url_of s a) = None}"
  by (auto simp: health_tasks_def flipping_append flipping_map)

lemma health_tasks_ok:
  assumes "p2c_inv s" "separate s"
  shows "distinct (map addr (health_tasks hc s))"
    and "t \<in> set (health_tasks hc s) \<Longrightarrow> pc t = Check \<and> addr t \<in> set (from_list (dir t) s)"
  using assms by (auto simp: health_tasks_def p2c_inv_def separate_def distinct_map comp_def)

section \<open>Properties\<close>

text \<open>Concrete pools for the witnesses.\<close>

definition demo_be :: "int \<Rightarrow> ip_backend" where
  "demo_be p = \<lparr>be_ip = [10, 0, 0, 1], be_port = p, be_url_path = [], be_health = Healthy,
     be_endpoint = ''10.0.0.1:'' @ itoa p, be_url = ''http://10.0.0.1:'' @ itoa p\<rparr>"

definition demo_pool :: "nat list \<Rightarrow> nat list \<Rightarrow> p2c" where
  "demo_pool h k = \<lparr>heap = (\<lambda>a. \<lparr>backend = demo_be (int a), weight = 0\<rparr>), next_wb = 10,
     healthy = h, sick = k, done_closed = False\<rparr>"

lemma demo_pool_sel [simp]:
  "healthy (demo_pool h k) = h" "sick (demo_pool h k) = k" "next_wb (demo_pool h k) = 10"
  "url_of (demo_pool h k) a = ''http://10.0.0.1:'' @ itoa (int a)"
  by (simp_all add: demo_pool_def url_of_def demo_be_def)

lemma demo_url_inj: "inj (\<lambda>a. ''http://10.0.0.1:'' @ itoa (int a))"
  by (auto intro!: injI dest: itoa_inj)

lemma demo_url_ne: "m \<noteq> n \<Longrightarrow> url_of (demo_pool h k) m \<noteq> url_of (demo_pool h k) n"
  using demo_url_inj by (auto simp: inj_def)

lemma demo_pool_ok:
  "distinct h \<Longrightarrow> distinct k \<Longrightarrow> \<forall>a \<in> set h \<union> set k. a < 10 \<Longrightarrow> p2c_inv (demo_pool h k)"
  "set h \<inter> set k = {} \<Longrightarrow> separate (demo_pool h k)"
  using demo_url_inj by (auto simp: p2c_inv_def separate_def distinct_map inj_on_def inj_def)

text \<open>
  C21: A health round whose goroutines run one after the other, on a pool that lists no
  endpoint as healthy and as sick, never panics and sorts the backends by their checks:
  afterwards exactly the backends whose check succeeds are healthy and exactly the others
  are sick, no backend is lost or listed twice, and the request counts are unchanged.
\<close>

theorem health_round_sorts:
  assumes "p2c_inv s" "separate s"
  shows "\<exists>ts s'. health_round hc s = (ts, s') \<and> (\<forall>t \<in> set ts. pc t = Finished)
     \<and> p2c_inv s' \<and> separate s' \<and> (\<forall>a. weight (heap s' a) = weight (heap s a))
     \<and> set (healthy s') = {a \<in> set (healthy s) \<union> set (sick s). hc (url_of s a) = None}
     \<and> set (sick s') = {a \<in> set (healthy s) \<union> set (sick s). hc (url_of s a) \<noteq> None}"
proof -
  obtain ts s' where "health_round hc s = (ts, s')" "\<forall>t \<in> set ts. pc t = Finished"
    "moved (flipping ToSick (health_tasks hc s)) (flipping ToHealthy (health_tasks hc s)) s s'"
    using run_tasks_moved [OF assms health_tasks_ok(1) [OF assms], of hc] health_tasks_ok(2) [OF assms]
    unfolding health_round_def by blast
  then show ?thesis
    using assms(2) unfolding flipping_health_tasks moved_def separate_def by auto
qed

theorem health_round_sorts_witness:
  "\<exists>ts s'. health_round (\<lambda>u. if u = ''http://10.0.0.1:2'' then Some CtxDone else None)
       (demo_pool [1, 2] [3]) = (ts, s') \<and> 3 \<in> set (healthy s') \<and> 2 \<in> set (sick s')"
proof -
  have i: "p2c_inv (demo_pool [1, 2] [3])" "separate (demo_pool [1, 2] [3])"
    by (intro demo_pool_ok; simp)+
  have u: "itoa 3 = ''3''" "itoa 2 = ''2''" by code_simp+
  show ?thesis
    using health_round_sorts [OF i, of "\<lambda>u. if u = ''http://10.0.0.1:2'' then Some CtxDone else None"]
    by (auto simp: u)
qed

text \<open>
  The goroutines of a round replace the lists without excluding each other. When two
  backends fail their checks in the same round there is a schedule in which all goroutines
  finish and one of the two has vanished from the pool: it is neither healthy nor sick, so
  no later round looks at it again.
\<close>

theorem concurrent_round_loses_backend:
  assumes "healthy s = [a, b]" "sick s = []" "url_of s a \<noteq> url_of s b"
    and "hc (url_of s a) \<noteq> None" "hc (url_of s b) \<noteq> None"
  shows "\<exists>sched ts s'. run_schedule sched (health_tasks hc s, s) = (ts, s')
     \<and> (\<forall>t \<in> set ts. pc t = Finished) \<and> healthy s' = [] \<and> sick s' = [b]"
  using assms
  by (intro exI [of _ "[0,0,0,0, 1,1,1,1, 0,1, 0,1]"])
     (simp add: health_tasks_def task_step_def remove_from_list_def add_to_list_def Let_def)

theorem concurrent_round_loses_backend_witness:
  "\<exists>sched ts s'. run_schedule sched (health_tasks (\<lambda>_. Some CtxDone) (demo_pool [3, 2] []),
       demo_pool [3, 2] []) = (ts, s') \<and> (\<forall>t \<in> set ts. pc t = Finished)
     \<and> healthy s' = [] \<and> sick s' = [2]"
proof -
  have "url_of (demo_pool [3, 2] []) 3 \<noteq> url_of (demo_pool [3, 2] []) 2"
    by (intro demo_url_ne) simp
  from concurrent_round_loses_backend [OF _ _ this, of "\<lambda>_. Some CtxDone"] show ?thesis
    by simp
qed

text \<open>
  Another schedule of the same round leaves one backend listed as healthy and as sick,
  and then the next round, even without any overlap, panics in a goroutine, which takes
  the whole load balancer down.
\<close>

theorem concurrent_round_then_crash:
  assumes "healthy s = [a, b]" "sick s = []" "url_of s a \<noteq> url_of s b"
    and "hc (url_of s a) \<noteq> None" "hc (url_of s b) \<noteq> None"
  shows "\<exists>sched ts s'. run_schedule sched (health_tasks hc s, s) = (ts, s')
     \<and> (\<forall>t \<in> set ts. pc t = Finished) \<and> a \<in> set (healthy s') \<and> a \<in> set (sick s')
     \<and> (\<exists>t \<in> set (fst (health_round hc s')). crashed t)"
proof -
  let ?s1 = "(mark ToSick b (mark ToSick a s))\<lparr>healthy := [a], sick := [a, b]\<rparr>"
  let ?fin = "map (\<lambda>x. \<lparr>dir = ToSick, addr = x, flips = True, pc = Finished\<rparr>) [a, b]"
  have ne: "a \<noteq> b" using assms(3) by auto
  have hab: "hc (url_of s a) \<noteq> None" "hc (url_of s b) \<noteq> None" by fact+
  have "run_schedule [0,0,0, 1,1,1, 0,1, 0,0, 1,1] (health_tasks hc s, s) = (?fin, ?s1)"
    using assms
    by (simp add: health_tasks_def task_step_def remove_from_list_def add_to_list_def Let_def)
  moreover have "crashed (fst (run_task \<lparr>dir = ToSick, addr = a, flips = True, pc = Check\<rparr> ?s1))"
    by (subst run_task_flip) (simp_all add: crashed_def Let_def)
  then have "\<exists>t \<in> set (fst (health_round hc ?s1)). crashed t"
    using hab by (simp add: health_round_def health_tasks_def Let_def split: prod.split del: run_task.simps)
      force
  ultimately show ?thesis by (intro exI conjI) (assumption, auto)
qed

theorem concurrent_round_then_crash_witness:
  "\<exists>sched ts s'. run_schedule sched (health_tasks (\<lambda>_. Some CtxDone) (demo_pool [3, 2] []),
       demo_pool [3, 2] []) = (ts, s') \<and> (\<forall>t \<in> set ts. pc t = Finished)
     \<and> 3 \<in> set (healthy s') \<and> 3 \<in> set (sick s')
     \<and> (\<exists>t \<in> set (fst (health_round (\<lambda>_. Some CtxDone) s')). crashed t)"
proof -
  have "url_of (demo_pool [3, 2] []) 3 \<noteq> url_of (demo_pool [3, 2] []) 2"
    by (intro demo_url_ne) simp
  from concurrent_round_then_crash [OF _ _ this, of "\<lambda>_. Some CtxDone"] show ?thesis
    by simp
qed

lemma run_schedule_alone:
  "i < length ts \<Longrightarrow>
     run_schedule (replicate n i) (ts, s) =
       (let (t', s') = ((\<lambda>(t, s). task_step t s) ^^ n) (ts ! i, s) in (ts[i := t'], s'))"
proof (induction n arbitrary: ts s)
  case 0
  then show ?case by simp
next
  case (Suc n)
  obtain t1 s1 where t1: "task_step (ts ! i) s = (t1, s1)" by fastforce
  have "run_schedule (replicate (Suc n) i) (ts, s) = run_schedule (replicate n i) (ts[i := t1], s1)"
    using Suc.prems t1 by simp
  also have "\<dots> = (let (t', s') = ((\<lambda>(t, s). task_step t s) ^^ n) (t1, s1) in (ts[i := t'], s'))"
    using Suc.IH [of "ts[i := t1]" s1] Suc.prems by (simp add: Let_def split: prod.splits)
  finally show ?case using t1 by (simp add: funpow_Suc_right del: funpow.simps)
qed

text \<open>
  C0: \<open>Add\<close> looks for the endpoint among the healthy backends only. Adding a backend that
  is listed as sick and has recovered succeeds, and then the goroutine that checks the old
  entry in the next health round panics.
\<close>

theorem readding_sick_backend_crashes:
  assumes "p2c_inv s" "separate s" "a \<in> set (sick s)" "be_url b = url_of s a"
    and "hc (be_url b) = None"
  shows "\<exists>s'. p2c_add False hc b s = (s', Ok ())
     \<and> (\<exists>sched. \<exists>t \<in> set (fst (run_schedule sched (health_tasks hc s', s'))). crashed t)"
proof -
  let ?s = "fst (p2c_add False hc b s)" and ?c = "next_wb s"
  have new: "be_url b \<notin> url_of s ` set (healthy s)"
    using assms(2,3,4) by (auto simp: separate_def)
  note add = p2c_add_spec [OF assms(1), where c = False and hc = hc and b = b]
  have "is_ok (snd (p2c_add False hc b s))" using add(4) new assms(5) by simp
  then have added: "p2c_add False hc b s = (?s, Ok ())" "healthy ?s = healthy s @ [?c]"
      "be_url (backend (heap ?s ?c)) = be_url b"
    using add(5) by (auto simp: is_ok_iff prod_eq_iff)
  have url: "url_of ?s a = url_of s a"
    using assms(1,3) add(3) [of a] by (auto simp: url_of_def p2c_inv_def)
  let ?t = "\<lparr>dir = ToHealthy, addr = a, flips = True, pc = Check\<rparr>"
  have flip: "hc (url_of ?s a) = None" using url assms(4,5) by simp
  have "?t \<in> set (health_tasks hc ?s)"
    using assms(3) add(2) flip unfolding health_tasks_def by (auto simp: image_iff)
  then obtain i where i: "i < length (health_tasks hc ?s)" "health_tasks hc ?s ! i = ?t"
    by (auto simp: in_set_conv_nth)
  have "url_of ?s a \<in> url_of ?s ` set (healthy ?s)"
    using added(2,3) url assms(4) by (auto simp: url_of_def)
  then have "crashed (fst (run_task ?t ?s))"
    using assms(3) add(2) by (subst run_task_flip) (simp_all add: crashed_def Let_def)
  then have "\<exists>t \<in> set (fst (run_schedule (replicate 6 i) (health_tasks hc ?s, ?s))). crashed t"
    using i by (subst run_schedule_alone) (auto simp: Let_def split: prod.splits intro: set_update_memI)
  with added(1) show ?thesis by (metis)
qed

theorem readding_sick_backend_crashes_witness:
  "\<exists>s'. p2c_add False (\<lambda>_. None) (demo_be 3) (demo_pool [2] [3]) = (s', Ok ())
     \<and> (\<exists>sched. \<exists>t \<in> set (fst (run_schedule sched (health_tasks (\<lambda>_. None) s', s'))). crashed t)"
  by (rule readding_sick_backend_crashes [of _ 3])
     (simp_all add: demo_pool_ok, simp add: demo_be_def)

section \<open>Rounds in which at most one backend changes\<close>

lemma shrink_from:
  "p2c_inv s \<Longrightarrow> p2c_inv (set_from d (filter P (from_list d s)) s)"
  "separate s \<Longrightarrow> separate (set_from d (filter P (from_list d s)) s)"
  by (cases d; auto simp: p2c_inv_def separate_def distinct_map inj_on_def)+

lemma p2c_inv_mark [simp]: "p2c_inv (mark d a s) = p2c_inv s" "separate (mark d a s) = separate s"
  by (simp_all add: p2c_inv_def separate_def)

definition quiet :: "task \<Rightarrow> bool" where
  "quiet t \<longleftrightarrow> \<not> flips t \<and> pc t \<in> {Check, Finished}"

lemma quiet_step: "quiet t \<Longrightarrow> task_step t s = (t', s') \<Longrightarrow> quiet t' \<and> s' = s"
  by (auto simp: quiet_def task_step_def)

text \<open>The states the goroutine \<open>t\<close> goes through when nobody else touches the lists.\<close>

definition alone_states :: "task \<Rightarrow> p2c \<Rightarrow> (pc \<times> p2c) list" where
  "alone_states t s =
     (let a = addr t; d = dir t; s1 = mark d a s;
          s2 = set_from d (filter (\<lambda>x. url_of s a \<noteq> url_of s x) (from_list d s)) s1
      in [(Check, s), (Mark, s), (LoadFrom, s1), (StoreFrom (from_list d s), s1), (LoadTo, s2),
          (StoreTo (to_list d s), s2), (Finished, set_to d (to_list d s @ [a]) s2)])"

lemma alone_states_ok:
  assumes "p2c_inv s" "separate s" "pc t = Check" "flips t" "addr t \<in> set (from_list (dir t) s)"
    and "(p, s') \<in> set (alone_states t s)"
  shows "p2c_inv s' \<and> separate s' \<and> url_of s' = url_of s"
    and "p = Finished \<Longrightarrow> moved (flipping ToSick [t]) (flipping ToHealthy [t]) s s'"
proof -
  let ?d = "dir t" and ?a = "addr t"
  let ?s2 = "set_from ?d (filter (\<lambda>x. url_of s ?a \<noteq> url_of s x) (from_list ?d s)) (mark ?d ?a s)"
  let ?s3 = "set_to ?d (to_list ?d s @ [?a]) ?s2"
  have new: "url_of s ?a \<notin> url_of s ` set (to_list ?d s)"
    using assms(2,5) by (cases ?d) (auto simp: separate_def)
  have s3: "moved (flipping ToSick [t]) (flipping ToHealthy [t]) s ?s3"
    using run_task_moved [OF assms(1,2,3,5)] run_task_flip [OF assms(3,4,5)] new
    by (auto simp: Let_def simp del: run_task.simps)
  have s2: "p2c_inv ?s2" "separate ?s2"
    using shrink_from [of "mark ?d ?a s" ?d] assms(1,2) by simp_all
  show "p2c_inv s' \<and> separate s' \<and> url_of s' = url_of s"
    using assms(6) s2 s3 assms(1,2) by (auto simp: alone_states_def Let_def moved_def)
  show "p = Finished \<Longrightarrow> moved (flipping ToSick [t]) (flipping ToHealthy [t]) s s'"
    using assms(6) s3 by (auto simp: alone_states_def Let_def)
qed

lemma alone_step:
  assumes "separate s" "flips t" "addr t \<in> set (from_list (dir t) s)"
    and "(p, s1) \<in> set (alone_states t s)" "task_step (t\<lparr>pc := p\<rparr>) s1 = (t', s')" "p \<noteq> Finished"
  shows "\<exists>q. t' = t\<lparr>pc := q\<rparr> \<and> (q, s') \<in> set (alone_states t s)"
proof -
  let ?d = "dir t" and ?a = "addr t"
  let ?n = "filter (\<lambda>x. url_of s ?a \<noteq> url_of s x) (from_list ?d s)"
  have new: "url_of s ?a \<notin> url_of s ` set (to_list ?d s)"
    using assms(1,3) by (cases ?d) (auto simp: separate_def)
  have "length ?n \<noteq> length (from_list ?d s)" "from_list ?d s \<noteq> []"
    using assms(3) length_filter_less [of ?a "from_list ?d s" "\<lambda>x. url_of s ?a \<noteq> url_of s x"]
    by (auto simp del: length_filter_less)
  then have rem: "remove_from_list (url_of s) (url_of s ?a) (from_list ?d s) = Ok (Some ?n)"
    by (auto simp: remove_from_list_def Let_def neq_Nil_conv)
  show ?thesis
    using assms(2,4,5,6) rem new
    by (auto simp: alone_states_def task_step_def Let_def add_to_list_cases)
qed

definition one_change :: "task list \<Rightarrow> bool" where
  "one_change ts \<longleftrightarrow> (\<forall>i < length ts. \<forall>j < length ts. flips (ts ! i) \<and> flips (ts ! j) \<longrightarrow> i = j)"

text \<open>What holds at every moment of a round in which only goroutine \<open>k\<close> asks for a move.\<close>

definition round_inv :: "task list \<Rightarrow> p2c \<Rightarrow> nat \<Rightarrow> task list \<times> p2c \<Rightarrow> bool" where
  "round_inv ts0 s0 k c \<longleftrightarrow>
     (case c of (ts, s) \<Rightarrow>
        length ts = length ts0 \<and> (\<forall>i < length ts. i \<noteq> k \<longrightarrow> quiet (ts ! i))
        \<and> ts ! k = (ts0 ! k)\<lparr>pc := pc (ts ! k)\<rparr> \<and> (pc (ts ! k), s) \<in> set (alone_states (ts0 ! k) s0))"

lemma round_inv_step:
  assumes "round_step c c'" "round_inv ts0 s0 k c" "k < length ts0" "separate s0" "flips (ts0 ! k)"
    and "addr (ts0 ! k) \<in> set (from_list (dir (ts0 ! k)) s0)"
  shows "round_inv ts0 s0 k c'"
  using assms(1,2)
proof (cases rule: round_step.cases)
  case (act i ts s t' s')
  show ?thesis
  proof (cases "i = k")
    case True
    have k: "ts ! k = (ts0 ! k)\<lparr>pc := pc (ts ! k)\<rparr>" "(pc (ts ! k), s) \<in> set (alone_states (ts0 ! k) s0)"
      using assms(2) act(1) by (simp_all add: round_inv_def)
    have "task_step ((ts0 ! k)\<lparr>pc := pc (ts ! k)\<rparr>) s = (t', s')"
      using act(6) True k(1) by simp
    from alone_step [OF assms(4,5,6) k(2) this] act(4) True obtain q
      where "t' = (ts0 ! k)\<lparr>pc := q\<rparr>" "(q, s') \<in> set (alone_states (ts0 ! k) s0)" by blast
    then show ?thesis using assms(2) act True by (simp add: round_inv_def)
  next
    case False
    then have "quiet (ts ! i)" using assms(2) act by (simp add: round_inv_def)
    from quiet_step [OF this act(6)] show ?thesis
      using assms(2) act False by (auto simp: round_inv_def nth_list_update)
  qed
qed

lemma quiet_round:
  assumes "round_step\<^sup>*\<^sup>* (ts0, s0) c" "\<forall>t \<in> set ts0. quiet t"
  shows "snd c = s0 \<and> (\<forall>t \<in> set (fst c). quiet t)"
  using assms(1)
proof (induction rule: rtranclp_induct)
  case base
  then show ?case using assms(2) by simp
next
  case (step c c')
  from step(2) show ?case
  proof (cases rule: round_step.cases)
    case (act i ts s t' s')
    have "quiet (ts ! i)" using step.IH act by auto
    from quiet_step [OF this act(6)] show ?thesis
      using step.IH act by (auto dest!: set_update_subset_insert [THEN subsetD])
  qed
qed

lemma round_without_change_safe:
  assumes "p2c_inv s" "separate s" "\<forall>t \<in> set (health_tasks hc s). \<not> flips t"
    and "round_step\<^sup>*\<^sup>* (health_tasks hc s, s) (ts, s')"
  shows "(\<forall>t \<in> set ts. \<not> crashed t) \<and> p2c_inv s' \<and> separate s'
     \<and> ((\<forall>t \<in> set ts. pc t = Finished) \<longrightarrow>
          set (healthy s') = {a \<in> set (healthy s) \<union> set (sick s). hc (url_of s a) = None}
        \<and> set (sick s') = {a \<in> set (healthy s) \<union> set (sick s). hc (url_of s a) \<noteq> None})"
proof -
  let ?T = "health_tasks hc s"
  note noflip = assms(3)
  then have "\<forall>t \<in> set ?T. quiet t" using health_tasks_ok(2) [OF assms(1,2)] by (auto simp: quiet_def)
  from quiet_round [OF assms(4) this] have q: "s' = s" "\<forall>t \<in> set ts. quiet t" by auto
  have "flipping ToSick ?T = {}" "flipping ToHealthy ?T = {}" using noflip by (auto simp: flipping_def)
  then show ?thesis
    using q assms(1,2) unfolding flipping_health_tasks by (auto simp: quiet_def crashed_def)
qed

lemma round_with_change_safe:
  assumes "p2c_inv s" "separate s" "one_change (health_tasks hc s)"
    and "round_step\<^sup>*\<^sup>* (health_tasks hc s, s) (ts, s')"
    and k: "k < length (health_tasks hc s)" "flips (health_tasks hc s ! k)"
  shows "(\<forall>t \<in> set ts. \<not> crashed t) \<and> p2c_inv s' \<and> separate s'
     \<and> ((\<forall>t \<in> set ts. pc t = Finished) \<longrightarrow>
          set (healthy s') = {a \<in> set (healthy s) \<union> set (sick s). hc (url_of s a) = None}
        \<and> set (sick s') = {a \<in> set (healthy s) \<union> set (sick s). hc (url_of s a) \<noteq> None})"
proof -
  let ?T = "health_tasks hc s"
  note t = health_tasks_ok(2) [OF assms(1,2) nth_mem [OF k(1)]]
  have others: "quiet (?T ! i)" if "i < length ?T" "i \<noteq> k" for i
    using that k assms(3) health_tasks_ok(2) [OF assms(1,2) nth_mem [OF that(1)]]
    by (auto simp: one_change_def quiet_def)
  have "(Check, s) \<in> set (alone_states (?T ! k) s)" by (simp add: alone_states_def Let_def)
  then have "round_inv ?T s k (?T, s)" using t others by (simp add: round_inv_def)
  with assms(4) have inv: "round_inv ?T s k (ts, s')"
    by (induction rule: rtranclp_induct) (use round_inv_step k t assms(2) in blast)+
  then have at: "(pc (ts ! k), s') \<in> set (alone_states (?T ! k) s)" and len: "length ts = length ?T"
    and rest: "\<forall>i < length ts. i \<noteq> k \<longrightarrow> quiet (ts ! i)"
    by (auto simp: round_inv_def)
  have ok: "p2c_inv s' \<and> separate s'"
    using alone_states_ok(1) [OF assms(1,2) _ k(2) _ at] t by simp
  have nc: "\<not> crashed (ts ! k)" using at by (auto simp: alone_states_def Let_def crashed_def)
  have quiet_nc: "\<not> crashed t" if "quiet t" for t using that by (auto simp: crashed_def quiet_def)
  have "\<forall>i < length ts. \<not> crashed (ts ! i)"
    using rest nc quiet_nc by metis
  then have "\<forall>t \<in> set ts. \<not> crashed t" by (auto simp: in_set_conv_nth)
  moreover have only: "x = ?T ! k" if x: "x \<in> set ?T" "flips x" for x
  proof -
    obtain i where "i < length ?T" "?T ! i = x" using x(1) by (auto simp: in_set_conv_nth)
    with x(2) k assms(3) show ?thesis unfolding one_change_def by blast
  qed
  have "{t \<in> set ?T. dir t = d \<and> flips t} = {t \<in> set [?T ! k]. dir t = d \<and> flips t}" for d
    using only nth_mem [OF k(1)] by auto
  then have "flipping d ?T = flipping d [?T ! k]" for d by (simp only: flipping_def)
  then have "moved (flipping ToSick ?T) (flipping ToHealthy ?T) s s'" if "pc (ts ! k) = Finished"
    using alone_states_ok(2) [OF assms(1,2) _ k(2) _ at that] t by simp
  then have "set (healthy s') = {a \<in> set (healthy s) \<union> set (sick s). hc (url_of s a) = None}
        \<and> set (sick s') = {a \<in> set (healthy s) \<union> set (sick s). hc (url_of s a) \<noteq> None}"
    if "pc (ts ! k) = Finished"
    using that assms(2) unfolding flipping_health_tasks moved_def separate_def by auto
  moreover have "ts ! k \<in> set ts" using k(1) len by simp
  ultimately show ?thesis using ok by blast
qed

text \<open>
  In a round in which at most one backend has to change sides, every interleaving of
  the goroutines is harmless: at every moment no goroutine has panicked and no endpoint is
  listed twice, and once all goroutines have finished the backends are sorted exactly by
  their checks.
\<close>

theorem single_change_round_safe:
  assumes "p2c_inv s" "separate s" "one_change (health_tasks hc s)"
    and "round_step\<^sup>*\<^sup>* (health_tasks hc s, s) (ts, s')"
  shows "(\<forall>t \<in> set ts. \<not> crashed t) \<and> p2c_inv s' \<and> separate s'
     \<and> ((\<forall>t \<in> set ts. pc t = Finished) \<longrightarrow>
          set (healthy s') = {a \<in> set (healthy s) \<union> set (sick s). hc (url_of s a) = None}
        \<and> set (sick s') = {a \<in> set (healthy s) \<union> set (sick s). hc (url_of s a) \<noteq> None})"
proof (cases "\<exists>t \<in> set (health_tasks hc s). flips t")
  case False
  then show ?thesis by (intro round_without_change_safe [OF assms(1,2) _ assms(4)]) blast
next
  case True
  then obtain k where "k < length (health_tasks hc s)" "flips (health_tasks hc s ! k)"
    by (auto simp: in_set_conv_nth)
  then show ?thesis by (rule round_with_change_safe [OF assms])
qed

lemma run_schedule_steps: "round_step\<^sup>*\<^sup>* c (run_schedule sched c)"
proof (induction sched c rule: run_schedule.induct)
  case (1 c)
  then show ?case by simp
next
  case (2 i "is" ts s)
  obtain t' s' where t': "task_step (ts ! i) s = (t', s')" by fastforce
  show ?case
  proof (cases "i < length ts")
    case False
    then show ?thesis using "2.IH"(2) by simp
  next
    case True
    have "round_step\<^sup>*\<^sup>* (ts, s) (ts[i := t'], s')"
    proof (cases "pc (ts ! i) = Finished \<or> (\<exists>p. pc (ts ! i) = Crashed p)")
      case True
      then have "t' = ts ! i" "s' = s" using t' by (auto simp: task_step_def)
      then show ?thesis by simp
    next
      case False
      then show ?thesis using True t' by (intro r_into_rtranclp round_step.intros) auto
    qed
    also have "round_step\<^sup>*\<^sup>* (ts[i := t'], s') (run_schedule is (ts[i := t'], s'))"
      using "2.IH"(1) [OF True t' [symmetric] refl] by simp
    finally show ?thesis using True t' by simp
  qed
qed

theorem single_change_round_safe_witness:
  "\<exists>ts s'. round_step\<^sup>*\<^sup>* (health_tasks (\<lambda>_. Some CtxDone) (demo_pool [2] []), demo_pool [2] []) (ts, s')
     \<and> (\<forall>t \<in> set ts. \<not> crashed t) \<and> set (sick s') = {2}"
proof -
  let ?c = "(health_tasks (\<lambda>_. Some CtxDone) (demo_pool [2] []), demo_pool [2] [])"
  obtain ts s' where run: "run_schedule (replicate 6 0) ?c = (ts, s')" by fastforce
  have i: "p2c_inv (demo_pool [2] [])" "separate (demo_pool [2] [])"
    by (intro demo_pool_ok; simp)+
  have one: "one_change (health_tasks (\<lambda>_. Some CtxDone) (demo_pool [2] []))"
    by (simp add: one_change_def health_tasks_def)
  have fin: "\<forall>t \<in> set ts. pc t = Finished"
    using run
    by (auto simp: numeral_eq_Suc health_tasks_def task_step_def remove_from_list_def add_to_list_def)
  have "round_step\<^sup>*\<^sup>* ?c (ts, s')" using run_schedule_steps [of ?c "replicate 6 0"] run by simp
  from single_change_round_safe [OF i one this] this fin show ?thesis by auto
qed

section \<open>Requests in flight\<close>

text \<open>
  A pool with the requests it is serving: the list of the backends their handlers have
  called and not yet finished. \<open>ServeEnd i\<close> is the deferred \<open>done\<close> of one of them.
\<close>

datatype serve_op =
    ServeBegin nat nat
  | ServeEnd nat
  | PoolAdd bool health_check ip_backend
  | PoolRemove ip_backend
  | PoolRound health_check "nat list"

fun serve_step :: "serve_op \<Rightarrow> p2c \<times> nat list \<Rightarrow> (p2c \<times> nat list) \<times> (lb_err, unit) outcome" where
  "serve_step (ServeBegin x y) (s, fl) =
     (case serve_choose x y s of
        Ok None \<Rightarrow> ((s, fl), Ok ())
      | Ok (Some a) \<Rightarrow> ((wb_call a s, a # fl), Ok ())
      | Err e \<Rightarrow> ((s, fl), Err e)
      | Panics p \<Rightarrow> ((s, fl), Panics p)
      | Blocked \<Rightarrow> ((s, fl), Blocked))"
| "serve_step (ServeEnd i) (s, fl) =
     (if i < length fl
      then (case wb_done (fl ! i) s of (s', oc) \<Rightarrow> ((s', take i fl @ drop (Suc i) fl), oc))
      else ((s, fl), Ok ()))"
| "serve_step (PoolAdd c hc b) (s, fl) = (case p2c_add c hc b s of (s', oc) \<Rightarrow> ((s', fl), oc))"
| "serve_step (PoolRemove b) (s, fl) = (case p2c_remove b s of (s', oc) \<Rightarrow> ((s', fl), oc))"
| "serve_step (PoolRound hc sched) (s, fl) =
     ((snd (run_schedule sched (health_tasks hc s, s)), fl), Ok ())"

definition counts_ok :: "p2c \<times> nat list \<Rightarrow> bool" where
  "counts_ok c \<longleftrightarrow>
     (case c of (s, fl) \<Rightarrow>
        (\<forall>a. weight (heap s a) = of_nat (count_list fl a))
        \<and> (\<forall>a \<in> set fl \<union> set (healthy s) \<union> set (sick s). a < next_wb s))"

fun pc_lists :: "pc \<Rightarrow> nat set" where
  "pc_lists (StoreFrom l) = set l"
| "pc_lists (StoreTo l) = set l"
| "pc_lists _ = {}"

definition lists_in :: "nat set \<Rightarrow> p2c \<Rightarrow> task list \<times> p2c \<Rightarrow> bool" where
  "lists_in A s0 c \<longleftrightarrow>
     (case c of (ts, s) \<Rightarrow>
        set (healthy s) \<union> set (sick s) \<subseteq> A \<and> next_wb s = next_wb s0
        \<and> (\<forall>a. weight (heap s a) = weight (heap s0 a))
        \<and> (\<forall>t \<in> set ts. addr t \<in> A \<and> pc_lists (pc t) \<subseteq> A))"

lemma remove_from_list_subset: "remove_from_list u x l = Ok (Some n) \<Longrightarrow> set n \<subseteq> set l"
  by (auto simp: remove_from_list_def Let_def split: if_splits)

lemma task_step_in:
  assumes "task_step t s = (t', s')" "lists_in A s0 ([t], s)"
  shows "lists_in A s0 ([t'], s')"
  using assms
  by (cases "dir t")
     (auto simp: task_step_def lists_in_def add_to_list_cases
      split: pc.splits outcome.splits option.splits if_splits dest!: remove_from_list_subset)

lemma run_schedule_in: "lists_in A s0 c \<Longrightarrow> lists_in A s0 (run_schedule sched c)"
proof (induction sched c rule: run_schedule.induct)
  case (1 c)
  then show ?case by simp
next
  case (2 i "is" ts s)
  obtain t' s' where t': "task_step (ts ! i) s = (t', s')" by fastforce
  show ?case
  proof (cases "i < length ts")
    case False
    then show ?thesis using "2.IH"(2) "2.prems" by simp
  next
    case True
    have "lists_in A s0 ([ts ! i], s)" using "2.prems" True by (auto simp: lists_in_def)
    from task_step_in [OF t' this] have "lists_in A s0 (ts[i := t'], s')"
      using "2.prems" by (auto simp: lists_in_def dest!: set_update_subset_insert [THEN subsetD])
    then show ?thesis using "2.IH"(1) [OF True t' [symmetric] refl] True t' by simp
  qed
qed

lemma counts_round:
  assumes "counts_ok (s, fl)"
  shows "counts_ok (snd (run_schedule sched (health_tasks hc s, s)), fl)"
proof -
  let ?A = "set (healthy s) \<union> set (sick s)"
  have "lists_in ?A s (health_tasks hc s, s)"
    by (auto simp: lists_in_def health_tasks_def)
  from run_schedule_in [OF this, of sched] assms show ?thesis
    by (auto simp: lists_in_def counts_ok_def split: prod.splits)
qed

lemma counts_begin: "counts_ok (s, fl) \<Longrightarrow> a < next_wb s \<Longrightarrow> counts_ok (wb_call a s, a # fl)"
  by (auto simp: counts_ok_def wb_call_def add_weight_def)

lemma wb_done_counts:
  assumes "counts_ok (s, fl)" "i < length fl"
  shows "counts_ok (fst (wb_done (fl ! i) s), take i fl @ drop (Suc i) fl)"
    and "weight (heap (fst (wb_done (fl ! i) s)) (fl ! i)) = of_nat (count_list fl (fl ! i) - 1)"
proof -
  let ?fl = "take i fl @ drop (Suc i) fl"
  have fl: "fl = take i fl @ fl ! i # drop (Suc i) fl" using assms(2) by (rule id_take_nth_drop)
  have cnt: "count_list fl a = count_list ?fl a + (if a = fl ! i then 1 else 0)" for a
    by (subst fl) simp
  have sub: "set ?fl \<subseteq> set fl" by (auto dest: in_set_takeD in_set_dropD)
  show "counts_ok (fst (wb_done (fl ! i) s), ?fl)"
    using assms(1) cnt sub by (auto simp: counts_ok_def wb_done_def add_weight_def Let_def)
  show "weight (heap (fst (wb_done (fl ! i) s)) (fl ! i)) = of_nat (count_list fl (fl ! i) - 1)"
    using assms(1) cnt [of "fl ! i"] by (auto simp: counts_ok_def wb_done_def add_weight_def Let_def)
qed

lemma serve_choose_mem: "serve_choose x y s = Ok (Some a) \<Longrightarrow> a \<in> set (healthy s)"
  by (auto simp: serve_choose_def Let_def split: if_splits)

lemma counts_step: "counts_ok c \<Longrightarrow> counts_ok (fst (serve_step x c))"
proof (cases c)
  case (Pair s fl)
  assume c: "counts_ok c"
  show ?thesis
  proof (cases x)
    case (ServeBegin i j)
    then show ?thesis using c Pair
      by (auto split: outcome.splits option.splits intro!: counts_begin dest!: serve_choose_mem)
         (auto simp: counts_ok_def)
  next
    case (ServeEnd i)
    then show ?thesis using c Pair wb_done_counts(1) [of s fl i] by (auto split: prod.splits)
  next
    case (PoolAdd cx hc b)
    have "count_list fl (next_wb s) = 0" using c Pair by (auto simp: counts_ok_def count_list_0_iff)
    then show ?thesis using c Pair PoolAdd
      by (auto simp: p2c_add_def Let_def add_to_list_cases counts_ok_def less_SucI)
  next
    case (PoolRemove b)
    then show ?thesis using c Pair by (auto simp: p2c_remove_eq counts_ok_def)
  next
    case (PoolRound hc sched)
    then show ?thesis using c Pair counts_round by simp
  qed
qed

interpretation serving: invariant_object serve_step counts_ok
  by unfold_locales (rule counts_step)

lemma sint_count: "n < 2 ^ 31 \<Longrightarrow> sint (of_nat n :: 32 word) = int n"
  by (simp add: signed_of_nat signed_take_bit_int_eq_self)

lemma counts_new: "counts_ok (new_p2c, [])"
  by (simp add: counts_ok_def new_p2c_def no_backend_def)

text \<open>
  C0: From an empty pool, through any sequence of requests beginning and ending, backends
  being added and removed and health rounds with any interleaving, the weight of every
  backend is the number of its requests in flight (modulo 2^32). So as long as fewer than
  2^31 requests are in flight, finishing one never reaches the panic in \<open>done\<close>.
\<close>

theorem weights_count_requests:
  assumes "run_ops serve_step ops (new_p2c, []) = ((s, fl), rs)"
  shows "(\<forall>a. weight (heap s a) = of_nat (count_list fl a))
    \<and> (length fl < 2 ^ 31 \<longrightarrow> (\<forall>i < length fl. snd (serve_step (ServeEnd i) (s, fl)) = Ok ()))"
proof -
  have c: "counts_ok (s, fl)"
    using serving.inv_run [OF counts_new, of ops] assms by simp
  have "snd (serve_step (ServeEnd i) (s, fl)) = Ok ()" if "i < length fl" "length fl < 2 ^ 31" for i
  proof -
    have "count_list fl (fl ! i) - 1 < 2 ^ 31"
      using that(2) count_le_length [of fl "fl ! i"] by linarith
    from sint_count [OF this] have "\<not> sint (weight (heap (fst (wb_done (fl ! i) s)) (fl ! i))) < 0"
      unfolding wb_done_counts(2) [OF c that(1)] by simp
    then have "snd (wb_done (fl ! i) s) = Ok ()"
      by (auto simp: wb_done_def Let_def)
    then show ?thesis using that(1) by (auto split: prod.splits)
  qed
  with c show ?thesis by (simp add: counts_ok_def)
qed

theorem weights_count_requests_witness:
  "\<exists>s rs. run_ops serve_step
       [PoolAdd False (\<lambda>_. None) (demo_be 3), ServeBegin 0 0, ServeBegin 0 0, ServeEnd 1] (new_p2c, [])
       = ((s, [0]), rs) \<and> weight (heap s 0) = 1"
proof -
  obtain s rs where run: "run_ops serve_step
       [PoolAdd False (\<lambda>_. None) (demo_be 3), ServeBegin 0 0, ServeBegin 0 0, ServeEnd 1] (new_p2c, [])
       = ((s, [0]), rs)"
    by (simp add: p2c_add_def new_p2c_def add_to_list_def serve_choose_def wb_call_def
        add_weight_def wb_done_def Let_def)
  from weights_count_requests [OF this] run show ?thesis by auto
qed

text \<open>
  A request is served by a healthy backend of the pool, one of the two drawn, whose
  weight is at most that of the other; only an empty pool answers 500, and with draws
  below the number of healthy backends no index is out of range.
\<close>

lemma serve_choose_lighter:
  assumes "x < length (healthy s)" "y < length (healthy s)"
  shows "\<exists>a. serve_choose x y s = Ok (Some a) \<and> a \<in> set (healthy s)
    \<and> a \<in> {healthy s ! x, healthy s ! y}
    \<and> sint (weight (heap s a)) \<le> sint (weight (heap s (healthy s ! x)))
    \<and> sint (weight (heap s a)) \<le> sint (weight (heap s (healthy s ! y)))"
  using assms by (auto simp: serve_choose_def Let_def)

lemma serve_choose_lighter_witness:
  "\<exists>a. serve_choose 0 1 (demo_pool [4, 7] []) = Ok (Some a) \<and> a \<in> {4, 7}"
  using serve_choose_lighter [of 0 "demo_pool [4, 7] []" 1] by auto



text \<open>
  The health report says empty exactly for a pool without backends, full exactly for a
  nonempty pool without sick backends, and degraded exactly when some backend is sick; its
  list has the healthy backends, then the sick ones, each part only if it was asked for,
  with the address and port of every backend.
\<close>

theorem p2c_health_report:
  "(ph_status (p2c_health req s) = PS_EMPTY \<longleftrightarrow> healthy s = [] \<and> sick s = [])
   \<and> (ph_status (p2c_health req s) = PS_FULL \<longleftrightarrow> healthy s \<noteq> [] \<and> sick s = [])
   \<and> (ph_status (p2c_health req s) = PS_DEGRADED \<longleftrightarrow> sick s \<noteq> [])
   \<and> map (\<lambda>h. (bh_ip h, bh_port h, bh_status h)) (ph_backends (p2c_health req s)) =
       map (\<lambda>a. (ip_text (be_ip (backend (heap s a))), be_port (backend (heap s a)), BS_HEALTHY))
         (if phr_healthy req then healthy s else [])
       @ map (\<lambda>a. (ip_text (be_ip (backend (heap s a))), be_port (backend (heap s a)), BS_SICK))
         (if phr_sick req then sick s else [])"
  by (auto simp: p2c_health_def backend_report_def)

end
