(* ===== verification/LB_Server.thy ===== *)
theory LB_Server
  imports Pool_P2C
begin

text \<open>
  The load balancer of \<open>lb/server/http/server.go\<close>: pools of backends registered under
  URL patterns, and the request router whose table is replaced when a pool goes away. Pools
  are shared between the table of pools, the router and their own health loops, so they
  live in a heap. The health loop of a pool runs until the pool is closed.
\<close>

section \<open>The pool interface\<close>

text \<open>
  What the load balancer and its clients rely on in a \<open>Pool\<close>: \<open>serving\<close> is the set of
  endpoints requests can go to. Adding a backend makes its endpoint serve if it succeeds
  and changes nothing otherwise; removing succeeds and stops exactly that endpoint.
\<close>

locale backend_pool =
  fixes add :: "'b \<Rightarrow> 'p \<Rightarrow> 'p \<times> ('e, unit) outcome"
    and remove :: "'b \<Rightarrow> 'p \<Rightarrow> 'p \<times> ('e, unit) outcome"
    and key :: "'b \<Rightarrow> 'k" and serving :: "'p \<Rightarrow> 'k set" and inv :: "'p \<Rightarrow> bool"
  assumes inv_add: "inv p \<Longrightarrow> inv (fst (add b p))"
    and inv_remove: "inv p \<Longrightarrow> inv (fst (remove b p))"
    and serving_add: "inv p \<Longrightarrow>
      serving (fst (add b p)) = (if is_ok (snd (add b p)) then insert (key b) (serving p) else serving p)"
    and serving_remove: "inv p \<Longrightarrow> serving (fst (remove b p)) = serving p - {key b}"
    and remove_ok: "inv p \<Longrightarrow> snd (remove b p) = Ok ()"
begin

text \<open>One step of a rolling update: out of service, then back.\<close>

definition cycle :: "'b \<Rightarrow> 'p \<Rightarrow> 'p \<times> ('e, unit) outcome" where
  "cycle b p = add b (fst (remove b p))"

lemma inv_cycle: "inv p \<Longrightarrow> inv (fst (cycle b p))"
  by (simp add: cycle_def inv_add inv_remove)

lemma serving_cycle:
  "inv p \<Longrightarrow> serving (fst (cycle b p)) =
     (if is_ok (snd (cycle b p)) then insert (key b) (serving p) else serving p - {key b})"
  by (simp add: cycle_def serving_add serving_remove inv_remove)

lemma removed_not_serving: "inv p \<Longrightarrow> key b \<notin> serving (fst (remove b p))"
  by (simp add: serving_remove)

lemma remove_twice:
  "inv p \<Longrightarrow> serving (fst (remove b (fst (remove b p)))) = serving (fst (remove b p))"
  by (simp add: serving_remove inv_remove)

text \<open>
  A rolling update over a list of registered backends keeps the set of serving endpoints up
  to the backends whose return failed, and never takes out anything else.
\<close>

lemma serving_run_cycle:
  assumes "inv p" "\<And>b. b \<in> set bs \<Longrightarrow> key b \<in> serving p"
  shows "serving p - key ` set bs \<subseteq> serving (fst (run_ops cycle bs p))
       \<and> serving (fst (run_ops cycle bs p)) \<subseteq> serving p
       \<and> (list_all is_ok (snd (run_ops cycle bs p)) \<longrightarrow> serving (fst (run_ops cycle bs p)) = serving p)"
  using assms
proof (induction bs rule: rev_induct)
  case Nil
  then show ?case by simp
next
  case (snoc b bs)
  let ?p = "fst (run_ops cycle bs p)"
  have inv: "inv ?p"
    using snoc.prems(1) by (induction bs arbitrary: p) (auto simp: fst_run_ops_Cons inv_cycle simp del: run_ops.simps(2))
  have run: "run_ops cycle (bs @ [b]) p = (fst (cycle b ?p), snd (run_ops cycle bs p) @ [snd (cycle b ?p)])"
    by (simp add: run_ops_append Let_def split: prod.splits)
  show ?case
    using snoc.IH snoc.prems serving_cycle [OF inv, of b] unfolding run by auto
qed

end

interpretation p2c_pool: backend_pool "p2c_add c hc" p2c_remove be_url
    "\<lambda>s. url_of s ` set (healthy s)" p2c_inv for c hc
proof
  fix p b assume p: "p2c_inv p"
  note add = p2c_add_spec [OF p, where c = c and hc = hc and b = b]
  show "p2c_inv (fst (p2c_add c hc b p))" by (rule add(1))
  show "p2c_inv (fst (p2c_remove b p))" using p by (rule p2c_inv_remove)
  show "url_of (fst (p2c_remove b p)) ` set (healthy (fst (p2c_remove b p)))
      = url_of p ` set (healthy p) - {be_url b}"
    by (auto simp: p2c_remove_eq)
  show "snd (p2c_remove b p) = Ok ()" by (simp add: p2c_remove_eq)
  have old: "url_of (fst (p2c_add c hc b p)) ` set (healthy p) = url_of p ` set (healthy p)"
    using p add(3) by (intro image_cong) (auto simp: url_of_def p2c_inv_def)
  show "url_of (fst (p2c_add c hc b p)) ` set (healthy (fst (p2c_add c hc b p)))
      = (if is_ok (snd (p2c_add c hc b p)) then insert (be_url b) (url_of p ` set (healthy p))
         else url_of p ` set (healthy p))"
    using add(5,6) old by (auto simp: url_of_def)
qed

section \<open>The load balancer\<close>

record pool_obj =
  po_state :: p2c
  po_hc :: health_check
  po_interval :: int

record load_balancer =
  pool_heap :: "nat \<Rightarrow> pool_obj"
  next_pool :: nat
  pools :: "(string, nat) gomap"
  mux :: "(string, nat) gomap"

text \<open>\<open>ServeMux.Handle\<close> panics on an empty pattern and on a pattern it already has.\<close>

definition mux_handle :: "string \<Rightarrow> nat \<Rightarrow> (string, nat) gomap \<Rightarrow> (lb_err, (string, nat) gomap) outcome" where
  "mux_handle pattern p m =
     (if pattern = [] then Panics (PanicMsg ''http: invalid pattern'')
      else if map_of m pattern \<noteq> None then Panics (PanicMsg ''http: multiple registrations'')
      else Ok (gput pattern p m))"

definition no_pool :: pool_obj where
  "no_pool = \<lparr>po_state = new_p2c, po_hc = (\<lambda>_. None), po_interval = 0\<rparr>"

definition new_lb :: load_balancer where
  "new_lb = \<lparr>pool_heap = (\<lambda>_. no_pool), next_pool = 0, pools = [], mux = []\<rparr>"

definition lb_add_pool :: "string \<Rightarrow> nat \<Rightarrow> load_balancer \<Rightarrow> load_balancer \<times> (lb_err, unit) outcome" where
  "lb_add_pool pattern p l =
     (if map_of (pools l) pattern \<noteq> None then (l, Err (PatternRegistered pattern))
      else let l1 = l\<lparr>pools := gput pattern p (pools l)\<rparr>
           in case mux_handle pattern p (mux l1) of
                Ok m \<Rightarrow> (l1\<lparr>mux := m\<rparr>, Ok ())
              | Err e \<Rightarrow> (l1, Err e)
              | Panics q \<Rightarrow> (l1, Panics q)
              | Blocked \<Rightarrow> (l1, Blocked))"

definition lb_get_pool :: "string \<Rightarrow> load_balancer \<Rightarrow> (lb_err, nat) outcome" where
  "lb_get_pool pattern l =
     (case map_of (pools l) pattern of Some p \<Rightarrow> Ok p | None \<Rightarrow> Err (PoolNotFound pattern))"

fun mux_handle_all :: "(string, nat) gomap \<Rightarrow> (string, nat) gomap
    \<Rightarrow> (lb_err, (string, nat) gomap) outcome" where
  "mux_handle_all [] m = Ok m"
| "mux_handle_all ((k, v) # ps) m = then_ok (mux_handle k v m) (mux_handle_all ps)"

definition lb_remove_pool :: "string \<Rightarrow> load_balancer \<Rightarrow> load_balancer \<times> (lb_err, unit) outcome" where
  "lb_remove_pool pattern l =
     (case map_of (pools l) pattern of
        None \<Rightarrow> (l, Ok ())
      | Some p \<Rightarrow>
          (case close_p2c (po_state (pool_heap l p)) of
             (s, Ok _) \<Rightarrow>
               let l1 = l\<lparr>pool_heap := (pool_heap l)(p := (pool_heap l p)\<lparr>po_state := s\<rparr>),
                          pools := gdel pattern (pools l)\<rparr>
               in (case mux_handle_all (pools l1) [] of
                     Ok m \<Rightarrow> (l1\<lparr>mux := m\<rparr>, Ok ())
                   | Err e \<Rightarrow> (l1, Err e)
                   | Panics q \<Rightarrow> (l1, Panics q)
                   | Blocked \<Rightarrow> (l1, Blocked))
           | (s, Err e) \<Rightarrow> (l, Err e)
           | (s, Panics q) \<Rightarrow> (l, Panics q)
           | (s, Blocked) \<Rightarrow> (l, Blocked)))"

definition lb_pool_health :: "pool_health_req \<Rightarrow> load_balancer \<Rightarrow> (lb_err, pool_health) outcome" where
  "lb_pool_health req l =
     (case map_of (pools l) (phr_pattern req) of
        None \<Rightarrow> Err NoPool
      | Some p \<Rightarrow> Ok (p2c_health req (po_state (pool_heap l p))))"

text \<open>The pool a request for exactly the pattern is routed to.\<close>

definition lb_route :: "string \<Rightarrow> load_balancer \<Rightarrow> nat option" where
  "lb_route pattern l = map_of (mux l) pattern"

definition pool_open :: "load_balancer \<Rightarrow> nat \<Rightarrow> bool" where
  "pool_open l p \<longleftrightarrow> \<not> done_closed (po_state (pool_heap l p))"

definition lb_inv :: "load_balancer \<Rightarrow> bool" where
  "lb_inv l \<longleftrightarrow>
     gmap_ok (pools l) \<and> map_of (mux l) = map_of (pools l)
     \<and> (\<forall>k. map_of (pools l) k \<noteq> None \<longrightarrow> k \<noteq> [])
     \<and> (\<forall>k p. map_of (pools l) k = Some p \<longrightarrow>
           p < next_pool l \<and> pool_open l p \<and> p2c_inv (po_state (pool_heap l p)))
     \<and> (\<forall>k k' p. map_of (pools l) k = Some p \<and> map_of (pools l) k' = Some p \<longrightarrow> k = k')"

lemma lb_inv_new: "lb_inv new_lb"
  by (simp add: lb_inv_def new_lb_def)

lemma mux_handle_all_ok:
  "distinct (map fst ps) \<Longrightarrow> fst ` set ps \<inter> dom (map_of m) = {} \<Longrightarrow> [] \<notin> fst ` set ps \<Longrightarrow>
     \<exists>m'. mux_handle_all ps m = Ok m' \<and> map_of m' = map_of m ++ map_of ps"
proof (induction ps arbitrary: m)
  case Nil
  then show ?case by simp
next
  case (Cons x ps)
  obtain k v where x: "x = (k, v)" by fastforce
  have k: "map_of m k = None" "k \<noteq> []" "k \<notin> fst ` set ps"
    using Cons.prems x by (auto simp: dom_def)
  have "mux_handle k v m = Ok (gput k v m)"
    using k by (simp add: mux_handle_def)
  moreover have "\<exists>m'. mux_handle_all ps (gput k v m) = Ok m' \<and> map_of m' = map_of (gput k v m) ++ map_of ps"
  proof (rule Cons.IH)
    show "distinct (map fst ps)" "[] \<notin> fst ` set ps" using Cons.prems by simp_all
    have "fst ` set ps \<inter> dom (map_of m) = {}" using Cons.prems(2) by auto
    with k(3) show "fst ` set ps \<inter> dom (map_of (gput k v m)) = {}"
      by (simp only: map_of_gput dom_fun_upd) auto
  qed
  moreover have "(map_of m)(k \<mapsto> v) ++ map_of ps = map_of m ++ (map_of ps)(k \<mapsto> v)"
    using k(3) by (simp add: map_add_upd_left dom_map_of_conv_image_fst)
  moreover have "map_of m ++ map_of (x # ps) = map_of m ++ (map_of ps)(k \<mapsto> v)"
    by (simp add: x fun_upd_def)
  ultimately show ?case by (metis map_of_gput mux_handle_all.simps(2) then_ok.simps(1) x)
qed

lemma lb_add_pool_spec:
  assumes "lb_inv l" "pattern \<noteq> []"
  shows "lb_add_pool pattern p l =
     (if map_of (pools l) pattern \<noteq> None then (l, Err (PatternRegistered pattern))
      else (l\<lparr>pools := gput pattern p (pools l), mux := gput pattern p (mux l)\<rparr>, Ok ()))"
  using assms by (auto simp: lb_add_pool_def mux_handle_def lb_inv_def Let_def)

lemma lb_remove_pool_spec:
  assumes "lb_inv l"
  shows "\<exists>l'. lb_remove_pool pattern l = (l', Ok ()) \<and> lb_inv l'
     \<and> map_of (pools l') = (map_of (pools l))(pattern := None) \<and> next_pool l' = next_pool l
     \<and> (\<forall>p. map_of (pools l) pattern \<noteq> Some p \<longrightarrow> pool_heap l' p = pool_heap l p)
     \<and> (\<forall>p. map_of (pools l) pattern = Some p \<longrightarrow> \<not> pool_open l' p)"
proof (cases "map_of (pools l) pattern")
  case None
  then have "map_of (pools l) = (map_of (pools l))(pattern := None)" by (auto simp: fun_eq_iff)
  with None assms show ?thesis by (simp add: lb_remove_pool_def)
next
  case (Some p)
  let ?ps = "gdel pattern (pools l)"
  have ps: "gmap_ok ?ps" "[] \<notin> fst ` set ?ps"
    using assms by (auto simp: lb_inv_def map_of_eq_None_iff)
  then obtain m where m: "mux_handle_all ?ps [] = Ok m" "map_of m = map_of ?ps"
    using mux_handle_all_ok [of ?ps "[]"] by (auto simp: gmap_ok_def)
  have op: "\<not> done_closed (po_state (pool_heap l p))"
    using assms Some by (auto simp: lb_inv_def pool_open_def)
  have other: "q \<noteq> p" if "map_of (pools l) k = Some q" "k \<noteq> pattern" for k q
    using assms Some that by (auto simp: lb_inv_def)
  show ?thesis
    using assms Some op m ps(1) other
    by (auto simp: lb_remove_pool_def close_p2c_def Let_def lb_inv_def pool_open_def fun_eq_iff)
qed

text \<open>
  The router and the table of pools always agree. Registering a new pattern routes it
  to the new pool; registering a pattern a second time fails and changes nothing. Removing
  a pattern always succeeds, stops its health loop, routes the pattern nowhere, and leaves
  all other patterns routed to their pools, whose state is untouched.
\<close>

theorem lb_routes_follow_pools:
  assumes "lb_inv l" "pattern \<noteq> []"
  shows "(map_of (pools l) pattern = None \<longrightarrow>
            (\<exists>l'. lb_add_pool pattern p l = (l', Ok ()) \<and> lb_route pattern l' = Some p
               \<and> (\<forall>k. k \<noteq> pattern \<longrightarrow> lb_route k l' = lb_route k l)))
    \<and> (map_of (pools l) pattern \<noteq> None \<longrightarrow>
            lb_add_pool pattern p l = (l, Err (PatternRegistered pattern)))
    \<and> (\<exists>l'. lb_remove_pool pattern l = (l', Ok ()) \<and> lb_inv l' \<and> lb_route pattern l' = None
         \<and> (\<forall>k. k \<noteq> pattern \<longrightarrow> lb_route k l' = lb_route k l
              \<and> (\<forall>q. lb_route k l = Some q \<longrightarrow> pool_heap l' q = pool_heap l q))
         \<and> (\<forall>q. lb_route pattern l = Some q \<longrightarrow> \<not> pool_open l' q))"
proof -
  have agree: "lb_route k x = map_of (pools x) k" if "lb_inv x" for k x
    using that by (simp add: lb_route_def lb_inv_def)
  obtain l' where l': "lb_remove_pool pattern l = (l', Ok ())" "lb_inv l'"
    "map_of (pools l') = (map_of (pools l))(pattern := None)"
    "\<forall>p. map_of (pools l) pattern \<noteq> Some p \<longrightarrow> pool_heap l' p = pool_heap l p"
    "\<forall>p. map_of (pools l) pattern = Some p \<longrightarrow> \<not> pool_open l' p"
    using lb_remove_pool_spec [OF assms(1), of pattern] by blast
  have "map_of (pools l) pattern \<noteq> Some q" if "map_of (pools l) k = Some q" "k \<noteq> pattern" for k q
    using that assms(1) by (auto simp: lb_inv_def)
  with l' show ?thesis
    using lb_add_pool_spec [OF assms, of p] agree [OF assms(1)] agree [OF l'(2)]
    by (auto simp: lb_route_def)
qed

theorem lb_routes_follow_pools_witness:
  "\<exists>l'. lb_add_pool ''/'' 0 new_lb = (l', Ok ()) \<and> lb_route ''/'' l' = Some 0"
  using lb_routes_follow_pools [OF lb_inv_new, of "''/''" 0] by (auto simp: new_lb_def)

text \<open>
  A rolling update of backends that a pool serves (each is removed and added again)
  never takes another endpoint out of service, and if every backend comes back the pool
  serves exactly the endpoints it served before.
\<close>

theorem rolling_update_restores_pool:
  assumes "p2c_inv s" "\<And>b. b \<in> set bs \<Longrightarrow> be_url b \<in> url_of s ` set (healthy s)"
    and "run_ops (\<lambda>b s. p2c_add False hc b (fst (p2c_remove b s))) bs s = (s', rs)"
  shows "url_of s ` set (healthy s) - be_url ` set bs \<subseteq> url_of s' ` set (healthy s')
    \<and> (list_all is_ok rs \<longrightarrow> url_of s' ` set (healthy s') = url_of s ` set (healthy s))"
proof -
  let ?up = "run_ops (\<lambda>b s. p2c_add False hc b (fst (p2c_remove b s))) bs s"
  have "url_of s ` set (healthy s) - be_url ` set bs \<subseteq> url_of (fst ?up) ` set (healthy (fst ?up))
    \<and> url_of (fst ?up) ` set (healthy (fst ?up)) \<subseteq> url_of s ` set (healthy s)
    \<and> (list_all is_ok (snd ?up) \<longrightarrow>
         url_of (fst ?up) ` set (healthy (fst ?up)) = url_of s ` set (healthy s))"
    unfolding p2c_pool.cycle_def [symmetric]
    by (rule p2c_pool.serving_run_cycle) (use assms(1,2) in auto)
  with assms(3) show ?thesis by simp
qed

theorem rolling_update_restores_pool_witness:
  "\<exists>s' rs. run_ops (\<lambda>b s. p2c_add False (\<lambda>_. None) b (fst (p2c_remove b s))) [demo_be 3] (demo_pool [3, 2] [])
      = (s', rs) \<and> url_of s' ` set (healthy s') = url_of (demo_pool [3, 2] []) ` {3, 2}"
proof -
  have i: "p2c_inv (demo_pool [3, 2] [])" by (intro demo_pool_ok) simp_all
  have u: "be_url b \<in> url_of (demo_pool [3, 2] []) ` set (healthy (demo_pool [3, 2] []))"
    if "b \<in> set [demo_be 3]" for b using that by (simp add: demo_be_def)
  obtain s' rs where run: "run_ops (\<lambda>b s. p2c_add False (\<lambda>_. None) b (fst (p2c_remove b s)))
      [demo_be 3] (demo_pool [3, 2] []) = (s', rs)" by fastforce
  have two: "url_of (demo_pool [3, 2] []) 2 \<noteq> be_url (demo_be 3)"
    using demo_url_ne [of 2 3] by (simp add: demo_be_def)
  have "be_url (demo_be 3) \<notin> url_of (fst (p2c_remove (demo_be 3) (demo_pool [3, 2] [])))
      ` set (healthy (fst (p2c_remove (demo_be 3) (demo_pool [3, 2] []))))"
    by (auto simp: p2c_remove_eq)
  then have "is_ok (snd (p2c_add False (\<lambda>_. None) (demo_be 3)
      (fst (p2c_remove (demo_be 3) (demo_pool [3, 2] [])))))"
    using p2c_add_spec(4) [OF p2c_inv_remove [OF i, of "demo_be 3"]] by simp
  then have "list_all is_ok rs" using run by (auto split: prod.splits)
  with rolling_update_restores_pool [OF i u run] run show ?thesis by auto
qed

end
