(* ===== verification/LB_Grpc.thy ===== *)
theory LB_Grpc
  imports LB_Server "HOL-Library.Signed_Division"
begin

text \<open>
  The control service of the load balancer (\<open>lb/server/grpc/server.go\<close>) and its client
  (\<open>lb/client/client.go\<close>). The messages are the protobuf messages the two exchange; the
  transport delivers a request to its handler. The network behind the health checks and the
  order in which check results arrive are parameters.
\<close>

section \<open>Messages\<close>

datatype check_pb = StatusCheckPB string "string list" | UntypedCheckPB

text \<open>\<open>apr_checks\<close> is the pointer \<open>HealthChecks\<close> with its list and \<open>IntervalSecs\<close>.\<close>

record add_pool_req =
  apr_pattern :: string
  apr_pool_type :: int
  apr_checks :: "(check_pb list \<times> int) option"

datatype backend_pb = IPBackendPB string int string | UntypedBackendPB

record net_env =
  get_page :: "string \<Rightarrow> string \<Rightarrow> string option"
  arrive :: "lb_err option list \<Rightarrow> lb_err option list"

section \<open>The server\<close>

fun build_checks :: "net_env \<Rightarrow> check_pb list \<Rightarrow> (lb_err, health_check list) outcome" where
  "build_checks env [] = Ok []"
| "build_checks env (StatusCheckPB path vals # cs) =
     then_ok (status_check (get_page env) path vals)
       (\<lambda>sc. then_ok (build_checks env cs) (\<lambda>hcs. Ok (sc # hcs)))"
| "build_checks env (UntypedCheckPB # cs) = Err HealthCheckWithoutType"

definition grpc_add_pool :: "net_env \<Rightarrow> add_pool_req \<Rightarrow> load_balancer \<Rightarrow> load_balancer \<times> (lb_err, unit) outcome" where
  "grpc_add_pool env req l =
     (if trim_space (apr_pattern req) = [] then (l, Err EmptyPattern)
      else if apr_pool_type req = 0 then (l, Err NoPoolType)
      else (case apr_checks req of
              None \<Rightarrow> (l, Panics NilDeref)
            | Some (cs, secs) \<Rightarrow>
                if length cs = 0 then (l, Err NoHealthChecks)
                else (case build_checks env cs of
                        Ok hcs \<Rightarrow>
                          if apr_pool_type req = 1 then
                            (let p = next_pool l;
                                 o' = \<lparr>po_state = new_p2c, po_hc = health_multiplexer (arrive env) hcs,
                                       po_interval = secs * 1000000000\<rparr>
                             in lb_add_pool (apr_pattern req) p
                                  (l\<lparr>pool_heap := (pool_heap l)(p := o'), next_pool := Suc p\<rparr>))
                          else (l, Err (UnknownPoolType (apr_pool_type req)))
                      | Err e \<Rightarrow> (l, Err e)
                      | Panics q \<Rightarrow> (l, Panics q)
                      | Blocked \<Rightarrow> (l, Blocked))))"

definition grpc_remove_pool :: "string \<Rightarrow> load_balancer \<Rightarrow> load_balancer \<times> (lb_err, unit) outcome" where
  "grpc_remove_pool pattern l =
     (if trim_space pattern = [] then (l, Err EmptyPattern) else lb_remove_pool pattern l)"

text \<open>The backend a request names, as \<open>AddBackend\<close> and \<open>RemoveBackend\<close> build it.\<close>

fun backend_of :: "backend_pb \<Rightarrow> (lb_err, ip_backend) outcome" where
  "backend_of (IPBackendPB ip port path) =
     (case parse_ip ip of
        None \<Rightarrow> Err BackendIPInvalid
      | Some a \<Rightarrow>
          if port < 1 \<or> port > 65534 then Err PortInvalid
          else new_ip_backend a port path)"
| "backend_of UntypedBackendPB = Err BackendWithoutType"

definition on_pool :: "nat \<Rightarrow> (pool_obj \<Rightarrow> p2c \<times> (lb_err, unit) outcome) \<Rightarrow> load_balancer
    \<Rightarrow> load_balancer \<times> (lb_err, unit) outcome" where
  "on_pool p f l =
     (case f (pool_heap l p) of
        (s, oc) \<Rightarrow> (l\<lparr>pool_heap := (pool_heap l)(p := (pool_heap l p)\<lparr>po_state := s\<rparr>)\<rparr>, oc))"

definition grpc_add_backend :: "bool \<Rightarrow> string \<Rightarrow> backend_pb \<Rightarrow> load_balancer
    \<Rightarrow> load_balancer \<times> (lb_err, unit) outcome" where
  "grpc_add_backend ctx_err pattern b l =
     (if trim_space pattern = [] then (l, Err EmptyPattern)
      else (case lb_get_pool pattern l of
              Ok p \<Rightarrow>
                (case backend_of b of
                   Ok back \<Rightarrow> on_pool p (\<lambda>o'. p2c_add ctx_err (po_hc o') back (po_state o')) l
                 | Err e \<Rightarrow> (l, Err e)
                 | Panics q \<Rightarrow> (l, Panics q)
                 | Blocked \<Rightarrow> (l, Blocked))
            | Err e \<Rightarrow> (l, Err e)
            | Panics q \<Rightarrow> (l, Panics q)
            | Blocked \<Rightarrow> (l, Blocked)))"

definition grpc_remove_backend :: "string \<Rightarrow> backend_pb \<Rightarrow> load_balancer
    \<Rightarrow> load_balancer \<times> (lb_err, unit) outcome" where
  "grpc_remove_backend pattern b l =
     (if trim_space pattern = [] then (l, Err EmptyPattern)
      else (case backend_of b of
              Ok back \<Rightarrow>
                (case lb_get_pool pattern l of
                   Ok p \<Rightarrow> on_pool p (\<lambda>o'. p2c_remove back (po_state o')) l
                 | Err e \<Rightarrow> (l, Err e)
                 | Panics q \<Rightarrow> (l, Panics q)
                 | Blocked \<Rightarrow> (l, Blocked))
            | Err e \<Rightarrow> (l, Err e)
            | Panics q \<Rightarrow> (l, Panics q)
            | Blocked \<Rightarrow> (l, Blocked)))"

definition grpc_pool_health :: "pool_health_req \<Rightarrow> load_balancer \<Rightarrow> (lb_err, pool_health) outcome" where
  "grpc_pool_health req l = lb_pool_health req l"

section \<open>The client\<close>

datatype client_check = ClientStatusCheck string "string list"

record client_checks =
  cc_checks :: "client_check list"
  cc_interval :: int

datatype client_backend = ClientIP net_ip int string | ClientOther

definition to_int32 :: "int \<Rightarrow> int" where
  "to_int32 i = sint (word_of_int i :: 32 word)"

fun check_to_pb :: "client_check \<Rightarrow> check_pb" where
  "check_to_pb (ClientStatusCheck path vals) = StatusCheckPB path vals"

definition checks_to_pb :: "client_checks \<Rightarrow> check_pb list \<times> int" where
  "checks_to_pb h = (map check_to_pb (cc_checks h), to_int32 (cc_interval h sdiv 1000000000))"

text \<open>\<open>New\<close> dials with \<open>WithBlock\<close>: as long as the server is not there, the outcome of dialling is \<open>Blocked\<close>.\<close>

record 'conn grpc_client =
  gc_conn :: 'conn

definition client_new :: "(string \<Rightarrow> (string, 'conn) outcome) \<Rightarrow> string \<Rightarrow> (string, 'conn grpc_client) outcome" where
  "client_new dial target = then_ok (dial target) (\<lambda>c. Ok \<lparr>gc_conn = c\<rparr>)"

definition client_add_pool :: "net_env \<Rightarrow> string \<Rightarrow> int \<Rightarrow> client_checks \<Rightarrow> load_balancer
    \<Rightarrow> load_balancer \<times> (lb_err, unit) outcome" where
  "client_add_pool env pattern pt hcs =
     grpc_add_pool env \<lparr>apr_pattern = pattern, apr_pool_type = pt, apr_checks = Some (checks_to_pb hcs)\<rparr>"

definition client_remove_pool :: "string \<Rightarrow> load_balancer \<Rightarrow> load_balancer \<times> (lb_err, unit) outcome" where
  "client_remove_pool pattern = grpc_remove_pool pattern"

text \<open>\<open>None\<close>: the backend is of no known type and no call is made.\<close>

fun backend_to_pb :: "client_backend \<Rightarrow> backend_pb option" where
  "backend_to_pb (ClientIP ip port path) = Some (IPBackendPB (ip_text ip) port path)"
| "backend_to_pb ClientOther = None"

definition client_add_backend :: "bool \<Rightarrow> string \<Rightarrow> client_backend \<Rightarrow> load_balancer
    \<Rightarrow> load_balancer \<times> (lb_err, unit) outcome" where
  "client_add_backend ctx_err pattern b l =
     (case backend_to_pb b of
        None \<Rightarrow> (l, Err BackendWithoutType)
      | Some pb \<Rightarrow> grpc_add_backend ctx_err pattern pb l)"

definition client_remove_backend :: "string \<Rightarrow> client_backend \<Rightarrow> load_balancer
    \<Rightarrow> load_balancer \<times> (lb_err, unit) outcome" where
  "client_remove_backend pattern b l =
     (case backend_to_pb b of
        None \<Rightarrow> (l, Err BackendWithoutType)
      | Some pb \<Rightarrow> grpc_remove_backend pattern pb l)"

definition client_pool_health :: "string \<Rightarrow> bool \<Rightarrow> bool \<Rightarrow> load_balancer \<Rightarrow> (lb_err, pool_health) outcome" where
  "client_pool_health pattern h k =
     grpc_pool_health \<lparr>phr_pattern = pattern, phr_healthy = h, phr_sick = k\<rparr>"

section \<open>Any sequence of control calls and health rounds\<close>

datatype control_op =
    AddPool net_env add_pool_req
  | RemovePool string
  | AddBackend bool string backend_pb
  | RemoveBackend string backend_pb
  | HealthRound nat "nat list"

definition pool_round :: "nat list \<Rightarrow> pool_obj \<Rightarrow> p2c \<times> (lb_err, unit) outcome" where
  "pool_round sched q =
     (let (ts, s) = run_schedule sched (health_tasks (po_hc q) (po_state q), po_state q)
      in (s, if list_ex crashed ts then Panics (PanicMsg ''backend already exists'') else Ok ()))"

fun control_step :: "control_op \<Rightarrow> load_balancer \<Rightarrow> load_balancer \<times> (lb_err, unit) outcome" where
  "control_step (AddPool env req) l = grpc_add_pool env req l"
| "control_step (RemovePool pattern) l = grpc_remove_pool pattern l"
| "control_step (AddBackend c pattern b) l = grpc_add_backend c pattern b l"
| "control_step (RemoveBackend pattern b) l = grpc_remove_backend pattern b l"
| "control_step (HealthRound p sched) l =
     on_pool p (pool_round sched) l"

text \<open>What a goroutine of a round holds is a list without repeated endpoints.\<close>

definition task_ok :: "p2c \<Rightarrow> task \<Rightarrow> bool" where
  "task_ok s t \<longleftrightarrow>
     addr t < next_wb s
     \<and> (\<forall>l. pc t = StoreFrom l \<or> pc t = StoreTo l \<longrightarrow>
           distinct (map (url_of s) l) \<and> (\<forall>a \<in> set l. a < next_wb s))"

definition round_ok :: "task list \<times> p2c \<Rightarrow> bool" where
  "round_ok c \<longleftrightarrow> (case c of (ts, s) \<Rightarrow> p2c_inv s \<and> (\<forall>t \<in> set ts. task_ok s t))"

lemma task_ok_frame: "next_wb s' = next_wb s \<Longrightarrow> url_of s' = url_of s \<Longrightarrow> task_ok s' = task_ok s"
  by (rule ext) (simp add: task_ok_def)

lemma remove_from_list_distinct:
  "remove_from_list u x l = Ok (Some n) \<Longrightarrow> distinct (map u l) \<Longrightarrow> distinct (map u n)"
  by (auto simp: remove_from_list_def Let_def distinct_map_filter split: if_splits)

lemma p2c_inv_lists:
  "p2c_inv (set_from d l s) \<longleftrightarrow>
     (\<forall>a \<in> set l \<union> set (to_list d s). a < next_wb s) \<and> distinct (map (url_of s) l)
     \<and> distinct (map (url_of s) (to_list d s))"
  "p2c_inv (set_to d l s) \<longleftrightarrow>
     (\<forall>a \<in> set l \<union> set (from_list d s). a < next_wb s) \<and> distinct (map (url_of s) l)
     \<and> distinct (map (url_of s) (from_list d s))"
  by (cases d; auto simp: p2c_inv_def)+

lemma p2c_inv_both: "p2c_inv s \<longleftrightarrow>
     (\<forall>a \<in> set (from_list d s) \<union> set (to_list d s). a < next_wb s)
     \<and> distinct (map (url_of s) (from_list d s)) \<and> distinct (map (url_of s) (to_list d s))"
  by (cases d; auto simp: p2c_inv_def)

lemma round_ok_step:
  assumes "task_step t s = (t', s')" "p2c_inv s" "task_ok s t"
  shows "p2c_inv s' \<and> task_ok s' t' \<and> next_wb s' = next_wb s \<and> url_of s' = url_of s"
proof (cases "pc t")
  case (StoreFrom l)
  show ?thesis
  proof (cases "remove_from_list (url_of s) (url_of s (addr t)) l")
    case (Ok o')
    then show ?thesis
      using assms StoreFrom remove_from_list_subset [of "url_of s" "url_of s (addr t)" l]
        remove_from_list_distinct [of "url_of s" "url_of s (addr t)" l] p2c_inv_both [of s "dir t"]
      by (auto simp: task_step_def task_ok_def p2c_inv_lists subset_iff split: option.splits)
  qed (use assms StoreFrom in \<open>auto simp: task_step_def task_ok_def\<close>)
next
  case (StoreTo l)
  then show ?thesis
    using assms p2c_inv_both [of s "dir t"]
    by (auto simp: task_step_def task_ok_def p2c_inv_lists add_to_list_cases split: if_splits)
next
  case LoadFrom
  then show ?thesis
    using assms p2c_inv_both [of s "dir t"] by (auto simp: task_step_def task_ok_def)
next
  case LoadTo
  then show ?thesis
    using assms p2c_inv_both [of s "dir t"] by (auto simp: task_step_def task_ok_def)
qed (use assms in \<open>auto simp: task_step_def task_ok_def split: if_splits\<close>)

lemma round_ok_run: "round_ok c \<Longrightarrow> round_ok (run_schedule sched c)"
proof (induction sched c rule: run_schedule.induct)
  case (1 c)
  then show ?case by simp
next
  case (2 i "is" ts s)
  obtain t' s' where t': "task_step (ts ! i) s = (t', s')" by fastforce
  show ?case
  proof (cases "i < length ts")
    case False
    then show ?thesis using "2.IH"(2) "2.prems" by simp
  next
    case True
    have ok: "p2c_inv s" "\<forall>t \<in> set ts. task_ok s t" using "2.prems" by (simp_all add: round_ok_def)
    then have step: "p2c_inv s'" "task_ok s' t'" "next_wb s' = next_wb s" "url_of s' = url_of s"
      using round_ok_step [OF t'] True by simp_all
    have "\<forall>t \<in> set (ts[i := t']). task_ok s' t"
      using ok(2) step(2) task_ok_frame [OF step(3,4)] by (auto dest!: set_update_subset_insert [THEN subsetD])
    with step(1) have "round_ok (ts[i := t'], s')" by (simp add: round_ok_def)
    then show ?thesis using "2.IH"(1) [OF True t' [symmetric] refl] True t' by simp
  qed
qed

lemma p2c_inv_round: "p2c_inv s \<Longrightarrow> p2c_inv (snd (run_schedule sched (health_tasks hc s, s)))"
proof -
  assume s: "p2c_inv s"
  then have "round_ok (health_tasks hc s, s)"
    by (auto simp: round_ok_def task_ok_def health_tasks_def p2c_inv_def)
  from round_ok_run [OF this, of sched] show ?thesis
    by (auto simp: round_ok_def split: prod.splits)
qed


section \<open>The invariant of the control service\<close>

lemma lb_inv_alloc:
  "lb_inv l \<Longrightarrow> lb_inv (l\<lparr>pool_heap := (pool_heap l)(next_pool l := o'), next_pool := Suc (next_pool l)\<rparr>)"
  by (auto simp: lb_inv_def pool_open_def less_Suc_eq)

lemma lb_inv_insert:
  assumes "lb_inv l" "pattern \<noteq> []" "p < next_pool l" "pool_open l p" "p2c_inv (po_state (pool_heap l p))"
    and "p \<notin> ran (map_of (pools l))" "map_of (pools l) pattern = None"
  shows "lb_inv (l\<lparr>pools := gput pattern p (pools l), mux := gput pattern p (mux l)\<rparr>)"
  using assms by (auto simp: lb_inv_def pool_open_def ran_def)

lemma p2c_inv_new: "p2c_inv new_p2c"
  by (simp add: p2c_inv_def new_p2c_def)

lemma lb_inv_grpc_add_pool:
  assumes "lb_inv l"
  shows "lb_inv (fst (grpc_add_pool env req l))"
proof -
  let ?n = "\<lambda>hcs secs. l\<lparr>pool_heap := (pool_heap l)(next_pool l := \<lparr>po_state = new_p2c,
      po_hc = health_multiplexer (arrive env) hcs, po_interval = secs * 1000000000\<rparr>),
      next_pool := Suc (next_pool l)\<rparr>"
  have "lb_inv (fst (lb_add_pool pattern (next_pool l) (?n hcs secs)))" if "pattern \<noteq> []" for pattern hcs secs
  proof -
    have i: "lb_inv (?n hcs secs)" using assms by (rule lb_inv_alloc)
    have "next_pool l \<notin> ran (map_of (pools (?n hcs secs)))"
      using assms by (auto simp: lb_inv_def ran_def)
    then show ?thesis
      using lb_add_pool_spec [OF i that, of "next_pool l"] i lb_inv_insert [OF i that, of "next_pool l"]
      by (simp add: pool_open_def p2c_inv_new) (simp add: new_p2c_def)
  qed
  moreover have "apr_pattern req \<noteq> []" if "trim_space (apr_pattern req) \<noteq> []" using that by auto
  ultimately show ?thesis
    using assms by (auto simp: grpc_add_pool_def Let_def split: option.splits outcome.splits)
qed

lemma lb_inv_on_pool:
  assumes "lb_inv l" "p2c_inv (po_state (pool_heap l p)) \<Longrightarrow> p2c_inv (fst (f (pool_heap l p)))"
    and "done_closed (fst (f (pool_heap l p))) = done_closed (po_state (pool_heap l p))"
  shows "lb_inv (fst (on_pool p f l))"
  using assms by (auto simp: on_pool_def lb_inv_def pool_open_def split: prod.splits)

lemma done_closed_frame [simp]:
  "done_closed (fst (p2c_add c hc b s)) = done_closed s"
  "done_closed (fst (p2c_remove b s)) = done_closed s"
  by (auto simp: p2c_add_def Let_def add_to_list_cases p2c_remove_eq)

lemma done_closed_step: "task_step t s = (t', s') \<Longrightarrow> done_closed s' = done_closed s"
  by (cases "dir t") (auto simp: task_step_def mark_def
      split: pc.splits if_splits outcome.splits option.splits)

lemma done_closed_run: "done_closed (snd (run_schedule sched c)) = done_closed (snd c)"
  by (induction sched c rule: run_schedule.induct)
     (auto simp: Let_def split: prod.splits dest: done_closed_step)

lemma fst_pool_round:
  "fst (pool_round sched q) = snd (run_schedule sched (health_tasks (po_hc q) (po_state q), po_state q))"
  by (simp add: pool_round_def split: prod.splits)

lemma control_step_inv [inv_intros]: "lb_inv l \<Longrightarrow> lb_inv (fst (control_step x l))"
proof (cases x)
  case (RemovePool pattern)
  then show "lb_inv l \<Longrightarrow> ?thesis"
    using lb_remove_pool_spec [of l pattern] by (auto simp: grpc_remove_pool_def)
next
  case (AddBackend c pattern b)
  then show "lb_inv l \<Longrightarrow> ?thesis"
    by (auto simp: grpc_add_backend_def p2c_add_spec(1) intro!: lb_inv_on_pool split: outcome.splits)
next
  case (RemoveBackend pattern b)
  then show "lb_inv l \<Longrightarrow> ?thesis"
    by (auto simp: grpc_remove_backend_def p2c_inv_remove intro!: lb_inv_on_pool split: outcome.splits)
next
  case (HealthRound p sched)
  then show "lb_inv l \<Longrightarrow> ?thesis"
    using p2c_inv_round done_closed_run by (auto simp: fst_pool_round intro!: lb_inv_on_pool)
qed (simp add: lb_inv_grpc_add_pool)

interpretation control: invariant_object control_step lb_inv
  by unfold_locales (rule control_step_inv)

text \<open>What a call may return: only a missing check list or a health round can panic.\<close>

definition expected :: "control_op \<Rightarrow> (lb_err, unit) outcome \<Rightarrow> bool" where
  "expected x r \<longleftrightarrow>
     (case r of
        Panics q \<Rightarrow>
          (case x of
             AddPool env req \<Rightarrow> apr_checks req = None
           | HealthRound p sched \<Rightarrow> True
           | _ \<Rightarrow> False)
      | Blocked \<Rightarrow> False
      | _ \<Rightarrow> True)"

lemma expected_Ok [simp]: "expected x (Ok ())" "expected x (Err e)"
  by (simp_all add: expected_def)

lemma build_checks_total: "build_checks env cs \<noteq> Panics q" "build_checks env cs \<noteq> Blocked"
proof -
  have "(\<exists>hcs. build_checks env cs = Ok hcs) \<or> (\<exists>e. build_checks env cs = Err e)"
  proof (induction env cs rule: build_checks.induct)
    case (2 env path vals cs)
    then show ?case by (cases "vals = []") (auto simp: status_check_def)
  qed auto
  then show "build_checks env cs \<noteq> Panics q" "build_checks env cs \<noteq> Blocked" by auto
qed

lemma backend_of_cases:
  "(\<exists>e. backend_of b = Err e) \<or>
   (\<exists>ip port path a. b = IPBackendPB ip port path \<and> parse_ip ip = Some a \<and> 1 \<le> port \<and> port \<le> 65534
      \<and> backend_of b = Ok \<lparr>be_ip = a, be_port = port, be_url_path = [], be_health = UnknownHS,
            be_endpoint = ip_text a @ '':'' @ itoa port, be_url = ''http://'' @ ip_text a @ '':'' @ itoa port\<rparr>)"
  by (cases b)
     (auto simp: new_ip_backend_def be_validate_def resolve_url_def Let_def
       dest: parse_ip_length split: option.splits)

lemma p2c_add_result: "(\<exists>e. snd (p2c_add c hc b s) = Err e) \<or> snd (p2c_add c hc b s) = Ok ()"
  by (auto simp: p2c_add_def Let_def add_to_list_cases)

lemma p2c_add_expected: "expected x (snd (p2c_add c hc b s))"
  using p2c_add_result [of c hc b s] by auto

lemma expected_step: "lb_inv l \<Longrightarrow> expected x (snd (control_step x l))"
proof -
  assume l: "lb_inv l"
  show ?thesis
  proof (cases x)
    case (AddPool env req)
    have "(\<exists>e. snd (lb_add_pool pattern (next_pool l) (l\<lparr>pool_heap := h, next_pool := n\<rparr>)) = Err e)
        \<or> snd (lb_add_pool pattern (next_pool l) (l\<lparr>pool_heap := h, next_pool := n\<rparr>)) = Ok ()"
      if "pattern \<noteq> []" for pattern h n
      using that l by (auto simp: lb_add_pool_def mux_handle_def lb_inv_def Let_def)
    moreover have "apr_pattern req \<noteq> []" if "trim_space (apr_pattern req) \<noteq> []" using that by auto
    ultimately have add: "expected x (snd (lb_add_pool (apr_pattern req) (next_pool l)
        (l\<lparr>pool_heap := h, next_pool := n\<rparr>)))" if "trim_space (apr_pattern req) \<noteq> []" for h n
      using that by (metis expected_Ok)
    show ?thesis
    proof (cases "apr_checks req")
      case None
      then show ?thesis using AddPool by (simp add: grpc_add_pool_def expected_def)
    next
      case (Some c)
      obtain cs secs where c: "c = (cs, secs)" by fastforce
      show ?thesis
        using AddPool Some c add build_checks_total [of env cs]
        by (cases "build_checks env cs") (auto simp: grpc_add_pool_def Let_def)
    qed
  next
    case (RemovePool pattern)
    then show ?thesis using lb_remove_pool_spec [OF l, of pattern] by (auto simp: grpc_remove_pool_def)
  next
    case (AddBackend c pattern b)
    then show ?thesis
      using backend_of_cases [of b] p2c_add_expected
      by (auto simp: grpc_add_backend_def lb_get_pool_def on_pool_def split_beta split: option.splits)
  next
    case (RemoveBackend pattern b)
    then show ?thesis
      using backend_of_cases [of b]
      by (auto simp: grpc_remove_backend_def lb_get_pool_def on_pool_def p2c_remove_eq split: option.splits)
  next
    case (HealthRound p sched)
    then show ?thesis by (auto simp: on_pool_def pool_round_def expected_def split: prod.splits outcome.splits)
  qed
qed



section \<open>Pools nobody can reach\<close>

definition orphan :: "nat \<Rightarrow> load_balancer \<Rightarrow> bool" where
  "orphan p l \<longleftrightarrow> lb_inv l \<and> p < next_pool l \<and> p \<notin> ran (map_of (pools l)) \<and> pool_open l p"

lemma lb_add_pool_orphan:
  assumes "orphan p l" "q \<noteq> p" "pattern \<noteq> []"
  shows "p \<notin> ran (map_of (pools (fst (lb_add_pool pattern q l))))
    \<and> pool_heap (fst (lb_add_pool pattern q l)) = pool_heap l
    \<and> next_pool (fst (lb_add_pool pattern q l)) = next_pool l"
  using assms lb_add_pool_spec [of l pattern q] by (auto simp: orphan_def ran_def)

lemma on_pool_orphan:
  assumes "orphan p l" "done_closed (fst (f (pool_heap l q))) = done_closed (po_state (pool_heap l q))"
  shows "pools (fst (on_pool q f l)) = pools l \<and> next_pool (fst (on_pool q f l)) = next_pool l
    \<and> pool_open (fst (on_pool q f l)) p"
  using assms by (auto simp: on_pool_def orphan_def pool_open_def split: prod.splits)

lemma orphan_alloc:
  "orphan p l \<Longrightarrow> orphan p (l\<lparr>pool_heap := (pool_heap l)(next_pool l := o'), next_pool := Suc (next_pool l)\<rparr>)"
  by (auto simp: orphan_def pool_open_def intro: lb_inv_alloc)

lemma orphan_grpc_add_pool:
  assumes "orphan p l"
  shows "orphan p (fst (grpc_add_pool env req l))"
proof -
  have i: "lb_inv (fst (grpc_add_pool env req l))"
    using assms by (intro lb_inv_grpc_add_pool) (simp add: orphan_def)
  have q: "next_pool l \<noteq> p" using assms by (auto simp: orphan_def)
  have "apr_pattern req \<noteq> []" if "trim_space (apr_pattern req) \<noteq> []" using that by auto
  with lb_add_pool_orphan [OF orphan_alloc [OF assms] q] orphan_alloc [OF assms] assms
  have "p \<notin> ran (map_of (pools (fst (grpc_add_pool env req l)))) \<and> p < next_pool (fst (grpc_add_pool env req l))
      \<and> pool_open (fst (grpc_add_pool env req l)) p"
    by (auto simp: grpc_add_pool_def Let_def orphan_def pool_open_def split: option.splits outcome.splits)
  with i show ?thesis by (simp add: orphan_def)
qed

lemma orphan_step: "orphan p l \<Longrightarrow> orphan p (fst (control_step x l))"
proof -
  assume o: "orphan p l"
  then have l: "lb_inv l" by (simp add: orphan_def)
  show ?thesis
  proof (cases x)
    case (AddPool env req)
    then show ?thesis using o orphan_grpc_add_pool by simp
  next
    case (RemovePool pattern)
    have "map_of (pools l) pattern \<noteq> Some p" using o by (auto simp: orphan_def ran_def)
    then show ?thesis
      using RemovePool o lb_remove_pool_spec [OF l, of pattern]
      by (auto simp: grpc_remove_pool_def orphan_def pool_open_def ran_def split: if_splits)
  next
    case (AddBackend c pattern b)
    then show ?thesis
      using o control_step_inv [OF l, of x] on_pool_orphan [OF o]
      by (auto simp: grpc_add_backend_def orphan_def split: outcome.splits)
  next
    case (RemoveBackend pattern b)
    then show ?thesis
      using o control_step_inv [OF l, of x] on_pool_orphan [OF o]
      by (auto simp: grpc_remove_backend_def orphan_def split: outcome.splits)
  next
    case (HealthRound q sched)
    then show ?thesis
      using o control_step_inv [OF l, of x]
        on_pool_orphan [OF o, of "pool_round sched" q] done_closed_run
      by (auto simp: fst_pool_round orphan_def)
  qed
qed

interpretation leak: invariant_object control_step "orphan p" for p
  by unfold_locales (rule orphan_step)

text \<open>
  An AddPool for a pattern that is already registered fails, but the pool it has
  created keeps running: no pattern leads to it, and no later control call stops it.
\<close>

theorem duplicate_add_pool_leaks:
  assumes "lb_inv l" "map_of (pools l) pattern \<noteq> None" "trim_space pattern \<noteq> []"
    and "cs \<noteq> []" "build_checks env cs = Ok hcs"
  shows "\<exists>l'. grpc_add_pool env \<lparr>apr_pattern = pattern, apr_pool_type = 1, apr_checks = Some (cs, secs)\<rparr> l
        = (l', Err (PatternRegistered pattern))
    \<and> (\<forall>ops. let l'' = fst (run_ops control_step ops l')
             in pool_open l'' (next_pool l) \<and> (\<forall>k. lb_route k l'' \<noteq> Some (next_pool l)))"
proof -
  define l' where "l' = l\<lparr>pool_heap := (pool_heap l)(next_pool l := \<lparr>po_state = new_p2c,
      po_hc = health_multiplexer (arrive env) hcs, po_interval = secs * 1000000000\<rparr>),
      next_pool := Suc (next_pool l)\<rparr>"
  have "orphan (next_pool l) l'"
    using assms(1) lb_inv_alloc [OF assms(1)] by (auto simp: orphan_def l'_def pool_open_def ran_def lb_inv_def)
       (simp add: new_p2c_def)
  from leak.inv_run [OF this] have "orphan (next_pool l) (fst (run_ops control_step ops l'))" for ops .
  then have "let l'' = fst (run_ops control_step ops l')
      in pool_open l'' (next_pool l) \<and> (\<forall>k. lb_route k l'' \<noteq> Some (next_pool l))" for ops
    by (auto simp: orphan_def lb_inv_def lb_route_def ran_def Let_def)
  moreover have "grpc_add_pool env \<lparr>apr_pattern = pattern, apr_pool_type = 1, apr_checks = Some (cs, secs)\<rparr> l
        = (l', Err (PatternRegistered pattern))"
    using assms(2-5) by (auto simp: grpc_add_pool_def lb_add_pool_def l'_def Let_def)
  ultimately show ?thesis by blast
qed

definition demo_net :: net_env where
  "demo_net = \<lparr>get_page = (\<lambda>_ _. Some ''ok''), arrive = rev\<rparr>"

definition demo_lb :: load_balancer where
  "demo_lb = fst (grpc_add_pool demo_net
     \<lparr>apr_pattern = ''/'', apr_pool_type = 1, apr_checks = Some ([StatusCheckPB ''/health'' [''ok'']], 10)\<rparr> new_lb)"

lemma trim_slash: "trim_space ''/'' = ''/''"
  by code_simp

lemma demo_lb_pool: "map_of (pools demo_lb) ''/'' = Some 0" "lb_inv demo_lb"
proof -
  show "map_of (pools demo_lb) ''/'' = Some 0"
    by (simp add: demo_lb_def grpc_add_pool_def trim_slash status_check_def new_lb_def
        lb_add_pool_def mux_handle_def Let_def)
  show "lb_inv demo_lb" unfolding demo_lb_def by (rule lb_inv_grpc_add_pool [OF lb_inv_new])
qed

theorem duplicate_add_pool_leaks_witness:
  "\<exists>l'. grpc_add_pool demo_net \<lparr>apr_pattern = ''/'', apr_pool_type = 1,
         apr_checks = Some ([StatusCheckPB ''/'' [''up'']], 5)\<rparr> demo_lb = (l', Err (PatternRegistered ''/''))"
proof -
  have r: "map_of (pools demo_lb) ''/'' \<noteq> None" by (simp add: demo_lb_pool)
  have t: "trim_space ''/'' \<noteq> []" by (simp add: trim_slash)
  have n: "[StatusCheckPB ''/'' [''up'']] \<noteq> []" by simp
  obtain hcs where b: "build_checks demo_net [StatusCheckPB ''/'' [''up'']] = Ok hcs"
    by (simp add: status_check_def)
  from duplicate_add_pool_leaks [OF demo_lb_pool(2) r t n b, of 5] show ?thesis by blast
qed

section \<open>From the client to the pool and back\<close>



end
