(* ===== verification/Rollout_Config.thy ===== *)
theory Rollout_Config
  imports LB_Grpc
begin

text \<open>
  The rollout configuration (\<open>orchestration/config/config.go\<close>): its fields, its
  validation and the parsing of \<open>host:port\<close> texts. The loader of \<open>orchestration.go\<close>
  decodes the JSON file into the record and validates it.
\<close>

record config =
  cf_concurrency :: int
  cf_canary_num :: int
  cf_max_failures :: int
  cf_src :: string
  cf_lb :: string
  cf_pattern :: string
  cf_backends :: "string list"

datatype config_err =
    SplitErr addr_err
  | InvalidPort int
  | LBIncorrect string config_err
  | NoBackends
  | BackendIncorrect string config_err
  | PatternInvalid string
  | ConcurrencyInvalid int
  | NoArgument
  | FileUnreadable
  | Misconfigured
  | NotValid config_err

text \<open>
  The results of \<open>CheckIPPort\<close> are an address, which may be nil, and a port. When the
  address does not parse the function returns the error of the split, which is nil.
\<close>

definition check_ip_port :: "string \<Rightarrow> (config_err, net_ip option \<times> int) outcome" where
  "check_ip_port b =
     (case split_host_port b of
        Ok (h, ps) \<Rightarrow>
          (let p = fst (atoi ps)
           in case parse_ip h of
                None \<Rightarrow> Ok (None, 0)
              | Some ip \<Rightarrow>
                  if p < 1 \<or> p > 65534 then Err (InvalidPort p) else Ok (Some ip, p))
      | Err e \<Rightarrow> Err (SplitErr e)
      | Panics q \<Rightarrow> Panics q
      | Blocked \<Rightarrow> Blocked)"

fun check_backends :: "string list \<Rightarrow> (config_err, unit) outcome" where
  "check_backends [] = Ok ()"
| "check_backends (b # bs) =
     then_ok (map_err (BackendIncorrect b) (check_ip_port b)) (\<lambda>_. check_backends bs)"

definition validate_config :: "config \<Rightarrow> (config_err, unit) outcome" where
  "validate_config s =
     then_ok (map_err (LBIncorrect (cf_lb s)) (check_ip_port (cf_lb s)))
       (\<lambda>_. if length (cf_backends s) < 1 then Err NoBackends
            else then_ok (check_backends (cf_backends s))
              (\<lambda>_. if trim_space (cf_pattern s) = [] then Err (PatternInvalid (cf_pattern s))
                   else if cf_concurrency s < 1 then Err (ConcurrencyInvalid (cf_concurrency s))
                   else Ok ()))"

text \<open>
  The first half of \<open>setup\<close>: command line, file and JSON decoding are arguments
  (\<open>None\<close> where reading or decoding fails).
\<close>

definition load_config :: "string list \<Rightarrow> (string \<Rightarrow> string option) \<Rightarrow> (string \<Rightarrow> config option)
    \<Rightarrow> (config_err, config) outcome" where
  "load_config args read_file decode =
     (if length args \<noteq> 1 then Err NoArgument
      else (case read_file (hd args) of
              None \<Rightarrow> Err FileUnreadable
            | Some txt \<Rightarrow>
                (case decode txt of
                   None \<Rightarrow> Err Misconfigured
                 | Some c \<Rightarrow> then_ok (map_err NotValid (validate_config c)) (\<lambda>_. Ok c))))"

section \<open>What is accepted\<close>

text \<open>An address text that \<open>CheckIPPort\<close> accepts, and one that is really usable.\<close>

definition accepted_addr :: "string \<Rightarrow> bool" where
  "accepted_addr b \<longleftrightarrow>
     (\<exists>h ps. split_host_port b = Ok (h, ps)
        \<and> (parse_ip h = None \<or> (1 \<le> fst (atoi ps) \<and> fst (atoi ps) \<le> 65534)))"

lemma check_ip_port_ok: "(\<exists>r. check_ip_port b = Ok r) \<longleftrightarrow> accepted_addr b"
  by (cases "split_host_port b")
     (auto simp: check_ip_port_def accepted_addr_def Let_def split: option.splits if_splits)

lemma check_ip_port_Some:
  "check_ip_port b = Ok (Some ip, p) \<longleftrightarrow>
     (\<exists>h ps. split_host_port b = Ok (h, ps) \<and> parse_ip h = Some ip \<and> p = fst (atoi ps) \<and> 1 \<le> p \<and> p \<le> 65534)"
  by (cases "split_host_port b") (auto simp: check_ip_port_def Let_def split: option.splits if_splits)

lemma check_backends_ok: "check_backends bs = Ok () \<longleftrightarrow> (\<forall>b \<in> set bs. accepted_addr b)"
  by (induction bs) (auto simp: then_ok_eq_Ok map_err_eq_Ok check_ip_port_ok [symmetric])

lemma validate_config_ok:
  "validate_config c = Ok () \<longleftrightarrow>
     accepted_addr (cf_lb c) \<and> cf_backends c \<noteq> [] \<and> (\<forall>b \<in> set (cf_backends c). accepted_addr b)
     \<and> trim_space (cf_pattern c) \<noteq> [] \<and> 1 \<le> cf_concurrency c"
  by (auto simp: validate_config_def then_ok_eq_Ok map_err_eq_Ok check_backends_ok
      check_ip_port_ok [symmetric] Suc_le_eq)

text \<open>The decimal port of an IPv4 address text comes back.\<close>

lemma v4_chars:
  assumes "c \<in> set (ip_text [a1, a2, a3, a4])"
  shows "c = CHR ''.'' \<or> digit_val c \<noteq> None"
  using assms by (auto simp: ip_text_def v4_string_def dest: digit_val_Some_of_dec)

lemma check_ip_port_join:
  assumes "a1 \<le> 255" "a2 \<le> 255" "a3 \<le> 255" "a4 \<le> 255" "1 \<le> p" "p \<le> 65534"
  shows "check_ip_port (join_host_port (ip_text [a1, a2, a3, a4]) (itoa p))
     = Ok (Some (v4_prefix @ [a1, a2, a3, a4]), p)"
proof -
  have host: "c \<notin> set (ip_text [a1, a2, a3, a4])" if "digit_val c = None" "c \<noteq> CHR ''.''" for c
    using v4_chars that by blast
  have port: "c \<notin> set (itoa p)" if "digit_val c = None" "c \<noteq> CHR ''-''" for c
    using that by (rule itoa_no_char)
  have "split_host_port (join_host_port (ip_text [a1, a2, a3, a4]) (itoa p))
      = Ok (ip_text [a1, a2, a3, a4], itoa p)"
    by (rule split_join_host_port) (simp_all add: host port)
  then show ?thesis
    using parse_ip_text_v4(1) [OF assms(1-4)] atoi_itoa [of p] assms(5,6)
    by (simp add: check_ip_port_def)
qed

text \<open>
  C0: A configuration is accepted exactly if the load balancer address and every backend
  split into host and port with either a valid port or a host that is no IP address at
  all, there is a backend, the pattern is not blank and the concurrency is positive.
  Canary number and failure limit are not looked at. So a backend such as
  \<open>myhost:0\<close> is accepted, with a nil address and port 0, while a proper IPv4 address
  with a port from 1 to 65534 is accepted with exactly this address and port.
\<close>

theorem validate_config_accepts:
  assumes "a1 \<le> 255" "a2 \<le> 255" "a3 \<le> 255" "a4 \<le> 255" "1 \<le> p" "p \<le> 65534"
    and "split_host_port b = Ok (h, ps)" "parse_ip h = None"
  shows "(validate_config c = Ok () \<longleftrightarrow>
       accepted_addr (cf_lb c) \<and> cf_backends c \<noteq> [] \<and> (\<forall>b \<in> set (cf_backends c). accepted_addr b)
       \<and> trim_space (cf_pattern c) \<noteq> [] \<and> 1 \<le> cf_concurrency c)
    \<and> accepted_addr b \<and> check_ip_port b = Ok (None, 0)
    \<and> check_ip_port (join_host_port (ip_text [a1, a2, a3, a4]) (itoa p))
        = Ok (Some (v4_prefix @ [a1, a2, a3, a4]), p)"
  using validate_config_ok check_ip_port_join [OF assms(1-6)] assms(7,8)
  by (simp add: check_ip_port_def accepted_addr_def)

theorem validate_config_accepts_witness:
  "validate_config \<lparr>cf_concurrency = 1, cf_canary_num = - 5, cf_max_failures = 0, cf_src = [],
     cf_lb = ''10.0.0.1:80'', cf_pattern = ''/'', cf_backends = [''myhost:0'']\<rparr> = Ok ()
   \<and> check_ip_port ''myhost:0'' = Ok (None, 0)"
proof -
  have s: "split_host_port ''myhost:0'' = Ok (''myhost'', ''0'')" "parse_ip ''myhost'' = None" by code_simp+
  have lb: "join_host_port (ip_text [10, 0, 0, 1]) (itoa 80) = ''10.0.0.1:80''" by code_simp
  have t: "trim_space ''/'' = ''/''" by code_simp
  let ?c = "\<lparr>cf_concurrency = 1, cf_canary_num = - 5, cf_max_failures = 0, cf_src = [],
     cf_lb = ''10.0.0.1:80'', cf_pattern = ''/'', cf_backends = [''myhost:0'']\<rparr>"
  have use: "(validate_config ?c = Ok () \<longleftrightarrow>
       accepted_addr (cf_lb ?c) \<and> cf_backends ?c \<noteq> [] \<and> (\<forall>b \<in> set (cf_backends ?c). accepted_addr b)
       \<and> trim_space (cf_pattern ?c) \<noteq> [] \<and> 1 \<le> cf_concurrency ?c)
    \<and> accepted_addr ''myhost:0'' \<and> check_ip_port ''myhost:0'' = Ok (None, 0)
    \<and> check_ip_port (join_host_port (ip_text [10, 0, 0, 1]) (itoa 80))
        = Ok (Some (v4_prefix @ [10, 0, 0, 1]), 80)"
    by (rule validate_config_accepts [OF _ _ _ _ _ _ s]) simp_all
  then have "\<exists>r. check_ip_port ''10.0.0.1:80'' = Ok r" unfolding lb by blast
  then have "accepted_addr ''10.0.0.1:80''" by (simp only: check_ip_port_ok)
  with use show ?thesis by (simp add: t)
qed

end
