(* ===== verification/Go_Path.thy ===== *)
theory Go_Path
  imports Go_Strconv
begin

text \<open>
  Paths: \<open>strings.Split\<close> and \<open>strings.Join\<close>, and the functions of \<open>path/filepath\<close>
  (Unix) that the modelled code calls, \<open>Clean\<close>, \<open>Join\<close>, \<open>Dir\<close> and \<open>Base\<close>.
  The components of an absolute path, after cleaning, are what a file system is addressed by.
\<close>

section \<open>Splitting and joining\<close>

fun split_on :: "char \<Rightarrow> string \<Rightarrow> string list" where
  "split_on c [] = [[]]"
| "split_on c (x # xs) =
     (if x = c then [] # split_on c xs
      else (case split_on c xs of [] \<Rightarrow> [[x]] | w # ws \<Rightarrow> (x # w) # ws))"

fun join_with :: "string \<Rightarrow> string list \<Rightarrow> string" where
  "join_with sep [] = []"
| "join_with sep [w] = w"
| "join_with sep (w # v # ws) = w @ sep @ join_with sep (v # ws)"

fun clean_parts :: "bool \<Rightarrow> string list \<Rightarrow> string list \<Rightarrow> string list" where
  "clean_parts rooted [] acc = rev acc"
| "clean_parts rooted (w # ws) acc =
     clean_parts rooted ws
       (if w = [] \<or> w = ''.'' then acc
        else if w = ''..'' then
          (case acc of
             [] \<Rightarrow> if rooted then [] else [''..'']
           | a # as \<Rightarrow> if a = ''..'' then ''..'' # acc else as)
        else w # acc)"

text \<open>\<open>filepath.Clean\<close> and \<open>path.Base\<close>.\<close>

definition path_clean :: "string \<Rightarrow> string" where
  "path_clean p =
     (if p = [] then ''.''
      else let rooted = (hd p = CHR ''/''); s = join_with ''/'' (clean_parts rooted (split_on (CHR ''/'') p) [])
           in if rooted then ''/'' @ s else if s = [] then ''.'' else s)"

definition path_base :: "string \<Rightarrow> string" where
  "path_base p =
     (if p = [] then ''.''
      else let q = rev (dropWhile (\<lambda>c. c = CHR ''/'') (rev p))
           in if q = [] then ''/'' else rev (takeWhile (\<lambda>c. c \<noteq> CHR ''/'') (rev q)))"

text \<open>\<open>filepath.Join\<close> drops leading empty elements and cleans the rest.\<close>

definition file_join :: "string list \<Rightarrow> string" where
  "file_join ws =
     (let es = dropWhile (\<lambda>w. w = []) ws in if es = [] then [] else path_clean (join_with ''/'' es))"

text \<open>\<open>filepath.Dir\<close>: what stands before the last slash, cleaned.\<close>

definition file_dir :: "string \<Rightarrow> string" where
  "file_dir p = path_clean (rev (dropWhile (\<lambda>c. c \<noteq> CHR ''/'') (rev p)))"

section \<open>Components of absolute paths\<close>

definition comps :: "string \<Rightarrow> string list" where
  "comps p = clean_parts True (split_on (CHR ''/'') p) []"

definition abs_path :: "string list \<Rightarrow> string" where
  "abs_path cs = ''/'' @ join_with ''/'' cs"

definition plain :: "string \<Rightarrow> bool" where
  "plain w \<longleftrightarrow> w \<noteq> [] \<and> w \<noteq> ''.'' \<and> w \<noteq> ''..'' \<and> CHR ''/'' \<notin> set w"

lemma split_on_nonempty [simp]: "split_on c p \<noteq> []"
  by (cases p) (auto split: list.splits)

lemma split_on_word [simp]: "c \<notin> set w \<Longrightarrow> split_on c w = [w]"
  by (induction w) auto

lemma split_on_append: "split_on c (p @ c # q) = split_on c p @ split_on c q"
proof (induction p)
  case (Cons x p)
  then show ?case using split_on_nonempty [of c p] by (auto split: list.splits simp: neq_Nil_conv)
qed simp

lemma split_on_no_sep: "w \<in> set (split_on c p) \<Longrightarrow> c \<notin> set w"
  by (induction p arbitrary: w) (auto split: list.splits if_splits)

lemma split_on_join:
  "ws \<noteq> [] \<Longrightarrow> \<forall>w\<in>set ws. c \<notin> set w \<Longrightarrow> split_on c (join_with [c] ws) = ws"
proof (induction ws)
  case (Cons w ws)
  then show ?case by (cases ws) (simp_all add: split_on_append)
qed simp

lemma clean_parts_append:
  "clean_parts r (xs @ ys) acc = clean_parts r ys (rev (clean_parts r xs acc))"
  by (induction xs arbitrary: acc) simp_all

lemma clean_parts_plain:
  "\<forall>w\<in>set ws. plain w \<Longrightarrow> clean_parts r ws acc = rev acc @ ws"
  by (induction ws arbitrary: acc) (auto simp: plain_def)

lemma clean_parts_are_plain:
  "\<forall>w\<in>set ws. CHR ''/'' \<notin> set w \<Longrightarrow> \<forall>w\<in>set acc. plain w \<Longrightarrow>
     \<forall>w\<in>set (clean_parts True ws acc). plain w"
proof (induction ws arbitrary: acc)
  case (Cons w ws)
  let ?acc = "if w = [] \<or> w = ''.'' then acc
              else if w = ''..'' then (case acc of [] \<Rightarrow> [] | a # as \<Rightarrow> if a = ''..'' then ''..'' # acc else as)
              else w # acc"
  have "\<not> plain ''..''" by (simp add: plain_def)
  with Cons.prems have "\<forall>w\<in>set ?acc. plain w" by (cases acc) (auto simp: plain_def [of w])
  moreover have "clean_parts True (w # ws) acc = clean_parts True ws ?acc" by simp
  ultimately show ?case using Cons by (simp only: list.set) blast
qed simp

lemma comps_plain: "w \<in> set (comps p) \<Longrightarrow> plain w"
  unfolding comps_def
  by (rule clean_parts_are_plain [rule_format]) (auto dest: split_on_no_sep)

lemma path_clean_absolute: "p \<noteq> [] \<Longrightarrow> hd p = CHR ''/'' \<Longrightarrow> path_clean p = abs_path (comps p)"
  by (simp add: path_clean_def comps_def abs_path_def Let_def)

lemma comps_append_slash: "comps (p @ CHR ''/'' # q) = clean_parts True (split_on (CHR ''/'') q) (rev (comps p))"
  by (simp add: comps_def split_on_append clean_parts_append)

lemma comps_abs_path: "\<forall>w\<in>set cs. plain w \<Longrightarrow> comps (abs_path cs) = cs"
proof (cases "cs = []")
  case False
  assume plains: "\<forall>w\<in>set cs. plain w"
  then have "split_on (CHR ''/'') (join_with ''/'' cs) = cs"
    by (intro split_on_join) (use False in \<open>auto simp: plain_def\<close>)
  with plains show ?thesis by (simp add: comps_def abs_path_def clean_parts_plain)
qed (simp add: comps_def abs_path_def)

lemma comps_abs_comps [simp]: "comps (abs_path (comps p)) = comps p"
  by (rule comps_abs_path) (auto dest: comps_plain)

lemma split_on_join_with:
  "ws \<noteq> [] \<Longrightarrow> split_on c (join_with [c] ws) = concat (map (split_on c) ws)"
proof (induction ws)
  case (Cons w ws)
  then show ?case by (cases ws) (simp_all add: split_on_append)
qed simp

lemma file_join_absolute:
  assumes "p \<noteq> []" and "hd p = CHR ''/''"
  shows "file_join (p # ws) =
           abs_path (clean_parts True (concat (map (split_on (CHR ''/'')) ws)) (rev (comps p)))"
proof -
  let ?j = "join_with ''/'' (p # ws)"
  have "?j \<noteq> []" "hd ?j = CHR ''/''" using assms by (cases ws; cases p; simp)+
  then have "file_join (p # ws) = abs_path (comps ?j)"
    using assms by (simp add: file_join_def path_clean_absolute Let_def)
  then show ?thesis
    by (simp add: comps_def split_on_join_with clean_parts_append del: join_with.simps)
qed

lemma clean_parts_plain_list:
  "\<forall>w\<in>set cs. plain w \<Longrightarrow> \<forall>w\<in>set ws. CHR ''/'' \<notin> set w \<Longrightarrow>
     w \<in> set (clean_parts True ws (rev cs)) \<Longrightarrow> plain w"
  by (rule clean_parts_are_plain [rule_format, of ws "rev cs"]) auto

lemma comps_file_join:
  assumes "p \<noteq> []" and "hd p = CHR ''/''"
  shows "comps (file_join (p # ws)) =
           clean_parts True (concat (map (split_on (CHR ''/'')) ws)) (rev (comps p))"
  unfolding file_join_absolute [OF assms]
  by (rule comps_abs_path, rule ballI, erule clean_parts_plain_list [rotated 2])
     (auto dest: comps_plain split_on_no_sep)

lemma abs_path_snoc: "abs_path (cs @ [w]) = (if cs = [] then ''/'' @ w else abs_path cs @ ''/'' @ w)"
proof -
  have "cs \<noteq> [] \<Longrightarrow> join_with s (cs @ [w]) = join_with s cs @ s @ w" for s
    by (induction s cs rule: join_with.induct) simp_all
  then show ?thesis by (simp add: abs_path_def)
qed

lemma comps_file_dir:
  assumes "\<forall>w\<in>set (cs @ [w]). plain w"
  shows "comps (file_dir (abs_path (cs @ [w]))) = cs"
proof -
  have w: "CHR ''/'' \<notin> set (rev w)" using assms by (simp add: plain_def)
  then have drop: "dropWhile (\<lambda>c. c \<noteq> CHR ''/'') (rev w @ CHR ''/'' # q) = CHR ''/'' # q" for q
    by (subst dropWhile_append3) auto
  let ?d = "if cs = [] then ''/'' else abs_path cs @ ''/''"
  have "file_dir (abs_path (cs @ [w])) = path_clean ?d"
    by (simp add: file_dir_def abs_path_snoc drop)
  also have "\<dots> = abs_path (comps ?d)"
    by (rule path_clean_absolute) (auto simp: abs_path_def)
  also have "comps ?d = cs"
  proof (cases "cs = []")
    case False
    have "comps (abs_path cs @ CHR ''/'' # []) = cs"
      using assms by (simp add: comps_append_slash comps_abs_path)
    with False show ?thesis by simp
  qed (simp add: comps_def)
  finally show ?thesis using assms by (simp add: comps_abs_path)
qed

section \<open>Names that stay below a directory\<close>

text \<open>A relative path that never climbs above where it starts, as \<open>filepath.IsLocal\<close> demands.\<close>

fun stays_below :: "nat \<Rightarrow> string list \<Rightarrow> bool" where
  "stays_below n [] = True"
| "stays_below n (w # ws) =
     (if w = [] \<or> w = ''.'' then stays_below n ws
      else if w = ''..'' then n \<noteq> 0 \<and> stays_below (n - 1) ws
      else stays_below (Suc n) ws)"

definition local_name :: "string \<Rightarrow> bool" where
  "local_name n \<longleftrightarrow> stays_below 0 (split_on (CHR ''/'') n)"

lemma clean_parts_below:
  "stays_below (length below) ws \<Longrightarrow> ''..'' \<notin> set below \<Longrightarrow>
     clean_parts True ws (below @ acc) = rev acc @ clean_parts True ws below"
proof (induction ws arbitrary: below)
  case (Cons w ws)
  consider "w = [] \<or> w = ''.''" | "w = ''..''" | "w \<noteq> []" "w \<noteq> ''.''" "w \<noteq> ''..''" by blast
  then show ?case
  proof cases
    case 1
    with Cons show ?thesis by auto
  next
    case 2
    with Cons.prems obtain b bs where "below = b # bs" by (cases below) auto
    with 2 Cons show ?thesis by auto
  next
    case 3
    with Cons.IH [of "w # below"] Cons.prems show ?thesis by simp
  qed
qed simp

lemma local_name_below:
  assumes "p \<noteq> []" and "hd p = CHR ''/''" and "local_name n"
  shows "comps (file_join [p, n]) = comps p @ comps n"
  using clean_parts_below [of "[]" "split_on (CHR ''/'') n" "rev (comps p)"] assms(3)
  by (simp add: comps_file_join [OF assms(1,2)] local_name_def comps_def [of n])

lemma comps_file_join_plain:
  assumes "p \<noteq> []" and "hd p = CHR ''/''" and "\<forall>w\<in>set ws. plain w"
  shows "comps (file_join [p, join_with ''/'' ws]) = comps p @ ws"
proof (cases "ws = []")
  case True
  with assms show ?thesis by (simp add: comps_file_join)
next
  case False
  with assms show ?thesis
    by (simp add: comps_file_join split_on_join plain_def clean_parts_plain)
qed

text \<open>Climbing to the root and down again reaches every path.\<close>

lemma clean_parts_climb:
  "''..'' \<notin> set acc \<Longrightarrow> clean_parts True (replicate (length acc) ''..'' @ ws) acc = clean_parts True ws []"
  by (induction acc) auto

end
