(* ===== verification/Rollout_Actions.thy ===== *)
theory Rollout_Actions
  imports Rollout_Config Go_Path
begin

text \<open>
  The upgrade of one server (\<open>orchestration/actions/actions.go\<close>): a chain of states, each
  of which calls out (HTTP, shell, files, load balancer) and names the next state. The
  calls made so far are the history; what the outside answers to the last call of a
  history is the environment, an arbitrary function of the history. The number of polls
  before a deadline expires is part of the environment.
\<close>

section \<open>Calls to the outside\<close>

datatype ext =
    OpenSrc string
  | HttpGet string string
  | LbRemove string "net_ip option" int
  | LbAdd string "net_ip option" int
  | PsCmd string
  | KillCmd int string
  | OpenDst string
  | CopyTo string
  | RunCmd string

datatype http_reply = NoAnswer | BodyFailed | Body string

record env =
  src_opens :: "ext list \<Rightarrow> bool"
  ctx_done :: "ext list \<Rightarrow> bool"
  request_ok :: "string \<Rightarrow> bool"
  http :: "ext list \<Rightarrow> http_reply"
  lb_accepts :: "ext list \<Rightarrow> bool"
  ps_output :: "ext list \<Rightarrow> string option"
  kill_ok :: "ext list \<Rightarrow> bool"
  dst_opens :: "ext list \<Rightarrow> bool"
  copy_ok :: "ext list \<Rightarrow> bool"
  run_ok :: "ext list \<Rightarrow> bool"
  polls :: "ext list \<Rightarrow> nat"

datatype act_err =
    CannotOpen string
  | CtxErr
  | RequestErr
  | FindTimedOut
  | BodyErr
  | FoundNothing
  | RemoveFailed
  | PsFailed
  | MorePids string
  | NoJob string
  | NotTermination int
  | KillFailed string
  | DeathTimeout
  | DstFailed string
  | CopyFailed
  | StartFailed
  | ReachableTimedOut
  | AddFailed
  | BadEndpoint config_err

section \<open>The object\<close>

datatype state = FindAppLocal | RmBackend | JobKill | Cp | JobStart | AddBackendState

record actions =
  ac_endpoint :: string
  ac_ip :: "net_ip option"
  ac_port :: int
  ac_config :: config
  ac_dst :: string
  ac_started :: bool
  ac_failed_state :: "state option"
  ac_err :: "act_err option"

definition new_actions :: "string \<Rightarrow> config \<Rightarrow> (act_err, actions) outcome" where
  "new_actions endpoint cfg =
     then_ok (map_err BadEndpoint (check_ip_port endpoint))
       (\<lambda>(ip, port). Ok \<lparr>ac_endpoint = endpoint, ac_ip = ip, ac_port = port, ac_config = cfg,
          ac_dst = [], ac_started = False, ac_failed_state = None, ac_err = None\<rparr>)"

definition find_pid :: "env \<Rightarrow> actions \<Rightarrow> ext list \<Rightarrow> ext list \<times> (act_err, string) outcome" where
  "find_pid env a h =
     (let h' = h @ [PsCmd (''ps -A | grep '' @ path_base (ac_dst a)
                     @ '' | grep -v grep | awk '' @ [CHR 0x27] @ ''{print $1}'' @ [CHR 0x27])]
      in (h', case ps_output env h' of
                None \<Rightarrow> Err PsFailed
              | Some out \<Rightarrow>
                  if CHR 0x0A \<in> set (trim_space out) then Err (MorePids (ac_dst a))
                  else Ok (trim_space out)))"

definition kill_pid :: "env \<Rightarrow> string \<Rightarrow> int \<Rightarrow> ext list \<Rightarrow> ext list \<times> act_err option" where
  "kill_pid env pid sig h =
     (if sig \<noteq> 15 \<and> sig \<noteq> 9 then (h, Some (NotTermination sig))
      else let h' = h @ [KillCmd sig pid]
           in (h', if kill_ok env h' then None else Some (KillFailed pid)))"

text \<open>The argument is the number of polls left before the timer fires.\<close>

fun wait_for_death :: "env \<Rightarrow> actions \<Rightarrow> nat \<Rightarrow> ext list \<Rightarrow> ext list \<times> act_err option" where
  "wait_for_death env a 0 h = (h, Some DeathTimeout)"
| "wait_for_death env a (Suc n) h =
     (case find_pid env a h of
        (h', Ok pid) \<Rightarrow> if pid = [] then (h', None) else wait_for_death env a n h'
      | (h', _) \<Rightarrow> (h', Some PsFailed))"

fun reachable_loop :: "env \<Rightarrow> actions \<Rightarrow> nat \<Rightarrow> ext list \<Rightarrow> ext list \<times> state option \<times> act_err option" where
  "reachable_loop env a 0 h = (h, None, Some ReachableTimedOut)"
| "reachable_loop env a (Suc n) h =
     (let h' = h @ [HttpGet (ac_endpoint a) ''/healthz'']
      in case http env h' of
           Body b \<Rightarrow>
             if trim_space b = ''ok'' then (h', Some AddBackendState, None)
             else reachable_loop env a n h'
         | _ \<Rightarrow> reachable_loop env a n h')"

definition reachable :: "env \<Rightarrow> actions \<Rightarrow> ext list \<Rightarrow> ext list \<times> state option \<times> act_err option" where
  "reachable env a h =
     (if \<not> request_ok env (ac_endpoint a) then (h, None, Some RequestErr)
      else reachable_loop env a (polls env h) h)"

section \<open>The states\<close>

text \<open>
  Every state returns what its Go function returns: the next function, nil (\<open>None\<close>) on an
  error and after the last state, and the error.
\<close>

fun state_step :: "env \<Rightarrow> state \<Rightarrow> actions \<times> ext list
    \<Rightarrow> (actions \<times> ext list) \<times> state option \<times> act_err option" where
  "state_step env FindAppLocal (a, h) =
     (if \<not> request_ok env (ac_endpoint a) then ((a, h), None, Some RequestErr)
      else let h' = h @ [HttpGet (ac_endpoint a) ''/installedAt'']
      in case http env h' of
           NoAnswer \<Rightarrow> ((a, h'), None, Some FindTimedOut)
         | BodyFailed \<Rightarrow> ((a, h'), None, Some BodyErr)
         | Body b \<Rightarrow>
             if length b = 0 then ((a, h'), None, Some FoundNothing)
             else ((a\<lparr>ac_dst := path_clean (trim_space b)\<rparr>, h'), Some RmBackend, None))"
| "state_step env RmBackend (a, h) =
     (let h' = h @ [LbRemove (cf_pattern (ac_config a)) (ac_ip a) (ac_port a)]
      in if lb_accepts env h' then ((a, h'), Some JobKill, None)
         else ((a, h'), None, Some RemoveFailed))"
| "state_step env JobKill (a, h) =
     (case find_pid env a h of
        (h1, Ok pid) \<Rightarrow>
          if pid = [] then ((a, h1), None, Some (NoJob (ac_endpoint a)))
          else (case kill_pid env pid 15 h1 of
                  (h2, Some e) \<Rightarrow> ((a, h2), None, Some e)
                | (h2, None) \<Rightarrow>
                    (case wait_for_death env a (polls env h2) h2 of
                       (h3, None) \<Rightarrow> ((a, h3), Some Cp, None)
                     | (h3, Some _) \<Rightarrow>
                         (case kill_pid env pid 9 h3 of
                            (h4, Some e) \<Rightarrow> ((a, h4), None, Some e)
                          | (h4, None) \<Rightarrow>
                              (case wait_for_death env a (polls env h4) h4 of
                                 (h5, None) \<Rightarrow> ((a, h5), Some Cp, None)
                               | (h5, Some e) \<Rightarrow> ((a, h5), None, Some e)))))
      | (h1, Err e) \<Rightarrow> ((a, h1), None, Some e)
      | (h1, _) \<Rightarrow> ((a, h1), None, Some PsFailed))"
| "state_step env Cp (a, h) =
     (let h1 = h @ [OpenDst (ac_dst a)]
      in if \<not> dst_opens env h1 then ((a, h1), None, Some (DstFailed (ac_dst a)))
         else let h2 = h1 @ [CopyTo (ac_dst a)]
              in if \<not> copy_ok env h2 then ((a, h2), None, Some CopyFailed)
                 else ((a, h2), Some JobStart, None))"
| "state_step env JobStart (a, h) =
     (let h1 = h @ [RunCmd (''nohup '' @ ac_dst a @ '' -port '' @ itoa (ac_port a) @ '' &'')]
      in if \<not> run_ok env h1 then ((a, h1), None, Some StartFailed)
         else (case reachable env a h1 of (h2, next, e) \<Rightarrow> ((a, h2), next, e)))"
| "state_step env AddBackendState (a, h) =
     (let h' = h @ [LbAdd (cf_pattern (ac_config a)) (ac_ip a) (ac_port a)]
      in if lb_accepts env h' then ((a, h'), None, None) else ((a, h'), None, Some AddFailed))"

fun rank :: "state \<Rightarrow> nat" where
  "rank FindAppLocal = 0"
| "rank RmBackend = 1"
| "rank JobKill = 2"
| "rank Cp = 3"
| "rank JobStart = 4"
| "rank AddBackendState = 5"

lemma reachable_loop_next:
  "reachable_loop env a n h = (h', next, e) \<Longrightarrow>
     (next = Some AddBackendState \<and> e = None) \<or> (next = None \<and> e \<noteq> None)"
  by (induction env a n h rule: reachable_loop.induct)
     (auto simp: Let_def split: http_reply.splits if_splits)

lemma reachable_next:
  "reachable env a h = (h', next, e) \<Longrightarrow>
     (next = Some AddBackendState \<and> e = None) \<or> (next = None \<and> e \<noteq> None)"
  by (auto simp: reachable_def split: if_splits dest: reachable_loop_next)

text \<open>A state that fails never names a next state; a state that succeeds names the following one.\<close>

lemma state_step_next:
  "state_step env st c = (c', next, e) \<Longrightarrow>
     (e \<noteq> None \<longrightarrow> next = None)
     \<and> (e = None \<longrightarrow> (st = AddBackendState \<and> next = None) \<or> (\<exists>st'. next = Some st' \<and> rank st' = Suc (rank st)))"
  by (cases c; cases st)
     (auto simp: Let_def find_pid_def kill_pid_def split: http_reply.splits if_splits outcome.splits
       option.splits prod.splits dest!: reachable_next)

lemma rank_next: "state_step env st c = (c', Some st', None) \<Longrightarrow> 6 - rank st' < 6 - rank st"
proof -
  assume "state_step env st c = (c', Some st', None)"
  from state_step_next [OF this] have "rank st' = Suc (rank st)" by auto
  moreover have "rank st' \<le> 5" by (cases st') simp_all
  ultimately show ?thesis by simp
qed

function run_from :: "env \<Rightarrow> state \<Rightarrow> actions \<times> ext list \<Rightarrow> (actions \<times> ext list) \<times> act_err option" where
  "run_from env st (a, h) =
     (if ctx_done env h then ((a\<lparr>ac_err := Some CtxErr\<rparr>, h), Some CtxErr)
      else (case state_step env st (a, h) of
              ((a', h'), next, Some e) \<Rightarrow>
                ((a'\<lparr>ac_failed_state := next, ac_err := Some e\<rparr>, h'), Some e)
            | ((a', h'), None, None) \<Rightarrow> ((a', h'), None)
            | ((a', h'), Some st', None) \<Rightarrow> run_from env st' (a', h')))"
  by pat_completeness auto
termination
  by (relation "measure (\<lambda>(env, st, c). 6 - rank st)") (simp, metis (no_types, lifting) in_measure prod.case rank_next)

declare run_from.simps [simp del]

definition run_actions :: "env \<Rightarrow> actions \<times> ext list \<Rightarrow> (actions \<times> ext list) \<times> act_err option" where
  "run_actions env c =
     (case c of (a, h) \<Rightarrow>
        let h1 = h @ [OpenSrc (cf_src (ac_config a))]
        in if \<not> src_opens env h1 then
             (let e = CannotOpen (cf_src (ac_config a))
              in ((a\<lparr>ac_err := Some e\<rparr>, h1), Some e))
           else
             (let st = (case ac_failed_state a of None \<Rightarrow> FindAppLocal | Some s \<Rightarrow> s)
              in run_from env st (a\<lparr>ac_started := True\<rparr>, h1)))"

fun state_name :: "state \<Rightarrow> string" where
  "state_name FindAppLocal = ''findAppLocal''"
| "state_name RmBackend = ''rmBackend''"
| "state_name JobKill = ''jobKill''"
| "state_name Cp = ''cp''"
| "state_name JobStart = ''jobStart''"
| "state_name AddBackendState = ''addBackend''"

definition failure :: "actions \<Rightarrow> string" where
  "failure a = (case ac_failed_state a of None \<Rightarrow> [] | Some s \<Rightarrow> state_name s)"

section \<open>Frames\<close>

definition same_setup :: "actions \<Rightarrow> actions \<Rightarrow> bool" where
  "same_setup a b \<longleftrightarrow> ac_endpoint a = ac_endpoint b \<and> ac_ip a = ac_ip b \<and> ac_port a = ac_port b
     \<and> ac_config a = ac_config b"

lemma same_setup_refl [simp]: "same_setup a a"
  by (simp add: same_setup_def)

lemma same_setup_upd [simp]:
  "same_setup (a\<lparr>ac_dst := x\<rparr>) b = same_setup a b" "same_setup (a\<lparr>ac_started := y\<rparr>) b = same_setup a b"
  "same_setup b (a\<lparr>ac_started := y\<rparr>) = same_setup b a"
  "same_setup (a\<lparr>ac_err := e\<rparr>) b = same_setup a b" "same_setup (a\<lparr>ac_failed_state := f\<rparr>) b = same_setup a b"
  by (simp_all add: same_setup_def)

lemma state_step_frame:
  "state_step env st (a, h) = ((a', h'), nx, e) \<Longrightarrow>
     same_setup a' a \<and> ac_failed_state a' = ac_failed_state a \<and> ac_err a' = ac_err a
     \<and> (st \<noteq> FindAppLocal \<longrightarrow> ac_dst a' = ac_dst a)"
  by (cases st)
     (auto simp: Let_def split: http_reply.splits if_splits outcome.splits option.splits prod.splits)

text \<open>The induction of a run, with the cases of one state.\<close>

lemma run_from_cases:
  assumes "run_from env st (a, h) = ((a', h'), r)"
  obtains (ctx) "ctx_done env h" "a' = a\<lparr>ac_err := Some CtxErr\<rparr>" "h' = h" "r = Some CtxErr"
    | (fail) b e where "\<not> ctx_done env h" "state_step env st (a, h) = ((b, h'), None, Some e)"
        "a' = b\<lparr>ac_failed_state := None, ac_err := Some e\<rparr>" "r = Some e"
    | (finished) "\<not> ctx_done env h" "st = AddBackendState" "state_step env st (a, h) = ((a', h'), None, None)" "r = None"
    | (go) b h1 st' where "\<not> ctx_done env h" "state_step env st (a, h) = ((b, h1), Some st', None)"
        "rank st' = Suc (rank st)" "run_from env st' (b, h1) = ((a', h'), r)"
proof (cases "ctx_done env h")
  case True
  then have "a' = a\<lparr>ac_err := Some CtxErr\<rparr>" "h' = h" "r = Some CtxErr"
    using assms True by (auto simp: run_from.simps [of env st a h])
  with True show ?thesis by (rule ctx)
next
  case False
  obtain b h1 nx e where st: "state_step env st (a, h) = ((b, h1), nx, e)" by (metis prod.exhaust)
  note next_cases = state_step_next [OF st]
  show ?thesis
  proof (cases e)
    case (Some x)
    with next_cases have nx: "nx = None" by simp
    then have "h' = h1" "a' = b\<lparr>ac_failed_state := None, ac_err := Some x\<rparr>" "r = Some x"
      using assms st Some nx False by (auto simp: run_from.simps [of env st a h])
    with False st nx Some show ?thesis by (intro fail) simp_all
  next
    case None
    show ?thesis
    proof (cases nx)
      case None
      with next_cases \<open>e = None\<close> have "st = AddBackendState" by auto
      moreover have "a' = b" "h' = h1" "r = None"
        using assms st None \<open>e = None\<close> False by (auto simp: run_from.simps [of env st a h])
      ultimately show ?thesis using False st None \<open>e = None\<close> by (intro finished) simp_all
    next
      case (Some st')
      with next_cases \<open>e = None\<close> have "rank st' = Suc (rank st)" by auto
      moreover have "run_from env st' (b, h1) = ((a', h'), r)"
        using assms st Some \<open>e = None\<close> False by (simp add: run_from.simps [of env st a h])
      ultimately show ?thesis using False st Some \<open>e = None\<close> by (intro go) simp_all
    qed
  qed
qed

lemma run_from_frame:
  "run_from env st (a, h) = ((a', h'), r) \<Longrightarrow>
     same_setup a' a \<and> (ac_failed_state a' = None \<or> ac_failed_state a' = ac_failed_state a)
     \<and> ac_err a' = (case r of None \<Rightarrow> ac_err a | Some e \<Rightarrow> Some e)
     \<and> (st \<noteq> FindAppLocal \<longrightarrow> ac_dst a' = ac_dst a)"
proof (induction "6 - rank st" arbitrary: st a h rule: less_induct)
  case less
  from less.prems show ?case
  proof (cases rule: run_from_cases)
    case (go b h1 st')
    have lt: "6 - rank st' < 6 - rank st" using rank_next [OF go(2)] .
    have "st' \<noteq> FindAppLocal" using go(3) by auto
    with less.hyps [OF lt go(4)] state_step_frame [OF go(2)] show ?thesis
      by (auto simp: same_setup_def split: option.splits)
  next
    case (fail b e)
    then show ?thesis using state_step_frame [OF fail(2)] by simp
  next
    case finished
    then show ?thesis using state_step_frame [OF finished(3)] by simp
  qed simp
qed

definition demo_config :: config where
  "demo_config = \<lparr>cf_concurrency = 1, cf_canary_num = 1, cf_max_failures = 0, cf_src = ''app'',
     cf_lb = ''10.0.0.1:80'', cf_pattern = ''/'', cf_backends = [''10.0.0.1:80'']\<rparr>"

definition demo_env_fail :: env where
  "demo_env_fail = \<lparr>src_opens = (\<lambda>_. False), ctx_done = (\<lambda>_. False), request_ok = (\<lambda>_. True),
     http = (\<lambda>_. NoAnswer), lb_accepts = (\<lambda>_. True), ps_output = (\<lambda>_. None), kill_ok = (\<lambda>_. True),
     dst_opens = (\<lambda>_. True), copy_ok = (\<lambda>_. True), run_ok = (\<lambda>_. True), polls = (\<lambda>_. 3)\<rparr>"

lemma demo_addr: "accepted_addr ''10.0.0.1:80''"
proof -
  have "join_host_port (ip_text [10, 0, 0, 1]) (itoa 80) = ''10.0.0.1:80''" by code_simp
  with check_ip_port_join [of 10 0 0 1 80] have "\<exists>r. check_ip_port ''10.0.0.1:80'' = Ok r" by force
  then show ?thesis by (simp only: check_ip_port_ok)
qed

text \<open>
  C0: Whatever happens in its runs, an upgrade never records the state it failed in: the
  field stays empty, \<open>Failure\<close> reports the empty text and every retry starts at the
  first state again. A run that succeeds after a failed one leaves the old error in place.
\<close>

theorem failed_state_never_set:
  assumes "new_actions endpoint cfg = Ok a" "run_ops (\<lambda>env c. run_actions env c) envs (a, []) = ((a', h'), rs)"
  shows "ac_failed_state a' = None \<and> failure a' = []
    \<and> ac_err a' = (case rev (filter (\<lambda>r. r \<noteq> None) rs) of [] \<Rightarrow> None | r # _ \<Rightarrow> r)"
proof -
  have one: "ac_failed_state b' = None \<and> ac_err b' = (case r of None \<Rightarrow> ac_err b | Some e \<Rightarrow> Some e)"
    if "run_actions env (b, h) = ((b', h1), r)" "ac_failed_state b = None" for env b h b' h1 r
    using that run_from_frame [of env FindAppLocal "b\<lparr>ac_started := True\<rparr>"]
    by (auto simp: run_actions_def Let_def split: if_splits option.splits)
  have "ac_failed_state b' = None
      \<and> ac_err b' = (case rev (filter (\<lambda>r. r \<noteq> None) rs) of [] \<Rightarrow> ac_err b | r # _ \<Rightarrow> r)"
    if "run_ops (\<lambda>env c. run_actions env c) envs (b, h) = ((b', h1), rs)" "ac_failed_state b = None" for b h b' h1 rs
    using that
  proof (induction envs arbitrary: b h rs)
    case Nil
    then show ?case by simp
  next
    case (Cons env envs)
    obtain c k r where run: "run_actions env (b, h) = ((c, k), r)" by (metis prod.exhaust)
    obtain rs' where rs: "rs = r # rs'" "run_ops (\<lambda>env c. run_actions env c) envs (c, k) = ((b', h1), rs')"
      using Cons.prems(1) run by (auto simp: Let_def split: prod.splits)
    from Cons.IH [OF rs(2)] one [OF run Cons.prems(2)] show ?case
      by (auto simp: rs(1) split: list.splits option.splits)
  qed
  moreover have "ac_failed_state a = None" "ac_err a = None"
    using assms(1) by (auto simp: new_actions_def then_ok_eq_Ok)
  ultimately show ?thesis using assms(2) by (auto simp: failure_def split: list.splits)
qed

theorem failed_state_never_set_witness:
  "\<exists>a a' h' rs. new_actions ''10.0.0.1:80'' demo_config = Ok a
     \<and> run_ops (\<lambda>env c. run_actions env c) [demo_env_fail, demo_env_fail] (a, []) = ((a', h'), rs)
     \<and> failure a' = [] \<and> ac_err a' \<noteq> None"
proof -
  obtain r where "check_ip_port ''10.0.0.1:80'' = Ok r"
    using check_ip_port_ok demo_addr by blast
  then obtain a where a: "new_actions ''10.0.0.1:80'' demo_config = Ok a"
    by (cases r) (simp add: new_actions_def)
  obtain a' h' rs where run: "run_ops (\<lambda>env c. run_actions env c) [demo_env_fail, demo_env_fail] (a, []) = ((a', h'), rs)"
    by (metis prod.exhaust)
  have "rs \<noteq> [] \<and> list_all (\<lambda>r. r \<noteq> None) rs"
    using run by (auto simp: run_actions_def demo_env_fail_def Let_def)
  then have "rev (filter (\<lambda>r. r \<noteq> None) rs) = rev rs" "rev rs \<noteq> []" "hd (rev rs) \<noteq> None"
    by (auto simp: list_all_iff filter_id_conv hd_rev)
  then have "(case rev (filter (\<lambda>r. r \<noteq> None) rs) of [] \<Rightarrow> None | r # _ \<Rightarrow> r) \<noteq> None"
    by (cases "rev rs") simp_all
  with failed_state_never_set [OF a run] a run show ?thesis by auto
qed

section \<open>The order of the effects\<close>

text \<open>The calls that change something outside.\<close>

fun effect :: "ext \<Rightarrow> bool" where
  "effect (OpenSrc _) = False"
| "effect (HttpGet _ _) = False"
| "effect (PsCmd _) = False"
| "effect _ = True"

text \<open>The effects of each state when it succeeds, for the pid found and whether it took a SIGKILL.\<close>

fun step_effects :: "actions \<Rightarrow> string \<Rightarrow> bool \<Rightarrow> state \<Rightarrow> ext list" where
  "step_effects a pid k FindAppLocal = []"
| "step_effects a pid k RmBackend = [LbRemove (cf_pattern (ac_config a)) (ac_ip a) (ac_port a)]"
| "step_effects a pid k JobKill = KillCmd 15 pid # (if k then [KillCmd 9 pid] else [])"
| "step_effects a pid k Cp = [OpenDst (ac_dst a), CopyTo (ac_dst a)]"
| "step_effects a pid k JobStart = [RunCmd (''nohup '' @ ac_dst a @ '' -port '' @ itoa (ac_port a) @ '' &'')]"
| "step_effects a pid k AddBackendState = [LbAdd (cf_pattern (ac_config a)) (ac_ip a) (ac_port a)]"

fun states_from :: "state \<Rightarrow> state list" where
  "states_from FindAppLocal = [FindAppLocal, RmBackend, JobKill, Cp, JobStart, AddBackendState]"
| "states_from RmBackend = [RmBackend, JobKill, Cp, JobStart, AddBackendState]"
| "states_from JobKill = [JobKill, Cp, JobStart, AddBackendState]"
| "states_from Cp = [Cp, JobStart, AddBackendState]"
| "states_from JobStart = [JobStart, AddBackendState]"
| "states_from AddBackendState = [AddBackendState]"

definition effects_from :: "actions \<Rightarrow> string \<Rightarrow> bool \<Rightarrow> state \<Rightarrow> ext list" where
  "effects_from a pid k st = concat (map (step_effects a pid k) (states_from st))"

definition ready :: "env \<Rightarrow> actions \<Rightarrow> ext list \<Rightarrow> bool" where
  "ready env a h \<longleftrightarrow>
     h \<noteq> [] \<and> last h = HttpGet (ac_endpoint a) ''/healthz''
     \<and> (\<exists>b. http env h = Body b \<and> trim_space b = ''ok'')"

lemma effects_from_step:
  "rank st' = Suc (rank st) \<Longrightarrow> effects_from a pid k st = step_effects a pid k st @ effects_from a pid k st'"
  by (cases st; cases st') (simp_all add: effects_from_def)

lemma step_effects_indep:
  "st \<noteq> JobKill \<Longrightarrow> step_effects a pid k st = step_effects a pid' k' st"
  by (cases st) simp_all

lemma effects_from_indep: "2 < rank st \<Longrightarrow> effects_from a pid k st = effects_from a pid' k' st"
  by (cases st) (simp_all add: effects_from_def)

lemma effects_same:
  "same_setup a b \<Longrightarrow> ac_dst a = ac_dst b \<Longrightarrow> step_effects a pid k st = step_effects b pid k st"
  by (cases st) (simp_all add: same_setup_def)

lemma find_pid_history: "find_pid env a h = (h', r) \<Longrightarrow> \<exists>c. h' = h @ [PsCmd c]"
  by (auto simp: find_pid_def Let_def)

lemma wait_history: "wait_for_death env a n h = (h', e) \<Longrightarrow> \<exists>new. h' = h @ new \<and> filter effect new = []"
proof (induction env a n h arbitrary: h' rule: wait_for_death.induct)
  case (1 env a h)
  then show ?case by simp
next
  case (2 env a n h)
  obtain h1 r where f: "find_pid env a h = (h1, r)" by fastforce
  from find_pid_history [OF f] obtain c where h1: "h1 = h @ [PsCmd c]" by blast
  show ?case
  proof (cases "\<exists>pid. r = Ok pid \<and> pid \<noteq> []")
    case True
    then obtain pid where pid: "r = Ok pid" "pid \<noteq> []" by blast
    then have "wait_for_death env a n h1 = (h', e)" using 2(2) f by simp
    from 2(1) [OF f [symmetric] pid(1,2) this] show ?thesis by (auto simp: h1)
  next
    case False
    then have "h' = h1" using 2(2) f by (auto split: outcome.splits if_splits)
    then show ?thesis by (auto simp: h1)
  qed
qed

lemma reachable_loop_history:
  "reachable_loop env a n h = (h', nx, e) \<Longrightarrow>
     (\<exists>new. h' = h @ new \<and> filter effect new = []) \<and> (e = None \<longrightarrow> ready env a h')"
proof (induction env a n h arbitrary: h' rule: reachable_loop.induct)
  case (1 env a h)
  then show ?case by auto
next
  case (2 env a n h)
  let ?h = "h @ [HttpGet (ac_endpoint a) ''/healthz'']"
  show ?case
  proof (cases "\<exists>b. http env ?h = Body b \<and> trim_space b = ''ok''")
    case True
    then show ?thesis using 2(4) by (auto simp: Let_def ready_def)
  next
    case False
    then have "reachable_loop env a n ?h = (h', nx, e)"
      using 2(4) by (auto simp: Let_def split: http_reply.splits)
    then have "(\<exists>new. h' = ?h @ new \<and> filter effect new = []) \<and> (e = None \<longrightarrow> ready env a h')"
      using 2(1) [OF refl] 2(2,3) False by (cases "http env ?h") auto
    then show ?thesis by auto
  qed
qed

lemma reachable_history:
  "reachable env a h = (h', nx, e) \<Longrightarrow>
     (\<exists>new. h' = h @ new \<and> filter effect new = []) \<and> (e = None \<longrightarrow> ready env a h')"
  by (auto simp: reachable_def split: if_splits dest: reachable_loop_history)

lemma job_kill_effects:
  assumes "state_step env JobKill (a, h) = ((a', h'), nx, e)"
  shows "\<exists>new pid k. h' = h @ new \<and> prefix (filter effect new) (step_effects a' pid k JobKill)
     \<and> (e = None \<longrightarrow> filter effect new = step_effects a' pid k JobKill)"
proof -
  obtain h1 r where f: "find_pid env a h = (h1, r)" by fastforce
  from find_pid_history [OF f] obtain c where h1: "h1 = h @ [PsCmd c]" by blast
  show ?thesis
  proof (cases "\<exists>pid. r = Ok pid \<and> pid \<noteq> []")
    case False
    then have "h' = h1" "e \<noteq> None" using assms f by (auto split: outcome.splits if_splits)
    then show ?thesis by (auto simp: h1 intro!: exI [of _ "[PsCmd c]"])
  next
    case True
    then obtain pid where pid: "r = Ok pid" "pid \<noteq> []" by blast
    let ?h2 = "h1 @ [KillCmd 15 pid]"
    obtain h3 e3 where w3: "wait_for_death env a (polls env ?h2) ?h2 = (h3, e3)" by fastforce
    from wait_history [OF w3] obtain n3 where h3: "h3 = ?h2 @ n3" "filter effect n3 = []" by blast
    let ?h4 = "h3 @ [KillCmd 9 pid]"
    obtain h5 e5 where w5: "wait_for_death env a (polls env ?h4) ?h4 = (h5, e5)" by fastforce
    from wait_history [OF w5] obtain n5 where h5: "h5 = ?h4 @ n5" "filter effect n5 = []" by blast
    consider "h' = ?h2" "e \<noteq> None" | "h' = h3" "e = None" | "h' = ?h4" "e \<noteq> None" | "h' = h5"
      using assms f pid w3 w5
      by (auto simp: kill_pid_def Let_def split: if_splits option.splits)
    then show ?thesis
    proof cases
      case 1
      then show ?thesis
        by (intro exI [of _ "[PsCmd c, KillCmd 15 pid]"] exI [of _ pid] exI [of _ False]) (simp add: h1)
    next
      case 2
      then show ?thesis
        by (intro exI [of _ "[PsCmd c, KillCmd 15 pid] @ n3"] exI [of _ pid] exI [of _ False]) (simp add: h1 h3)
    next
      case 3
      then show ?thesis
        by (intro exI [of _ "[PsCmd c, KillCmd 15 pid] @ n3 @ [KillCmd 9 pid]"] exI [of _ pid] exI [of _ True])
          (simp add: h1 h3)
    next
      case 4
      then show ?thesis
        by (intro exI [of _ "[PsCmd c, KillCmd 15 pid] @ n3 @ [KillCmd 9 pid] @ n5"] exI [of _ pid] exI [of _ True])
          (simp add: h1 h3 h5)
    qed
  qed
qed

lemma state_step_effects:
  assumes "state_step env st (a, h) = ((a', h'), nx, e)"
  shows "\<exists>new pid k. h' = h @ new \<and> prefix (filter effect new) (step_effects a' pid k st)
     \<and> (e = None \<longrightarrow> filter effect new = step_effects a' pid k st)"
proof (cases st)
  case JobKill
  then show ?thesis using job_kill_effects assms by blast
next
  case JobStart
  let ?h1 = "h @ [RunCmd (''nohup '' @ ac_dst a @ '' -port '' @ itoa (ac_port a) @ '' &'')]"
  obtain h2 n2 e2 where r: "reachable env a ?h1 = (h2, n2, e2)" by (metis prod.exhaust)
  obtain new where "h2 = ?h1 @ new" "filter effect new = []" using reachable_history [OF r] by blast
  then show ?thesis
    using assms JobStart r by (auto simp: Let_def split: if_splits)
qed (use assms in \<open>auto simp: Let_def split: if_splits http_reply.splits\<close>)

lemma job_start_ready:
  "state_step env JobStart (a, h) = ((a', h'), nx, None) \<Longrightarrow> ready env a' h'"
  by (auto simp: Let_def split: if_splits prod.splits dest!: reachable_history)

lemma no_add_in_step:
  assumes "st \<noteq> AddBackendState" "prefix (filter effect new) (step_effects a pid k st)"
  shows "LbAdd x y z \<notin> set new"
proof
  assume "LbAdd x y z \<in> set new"
  then have "LbAdd x y z \<in> set (filter effect new)" by simp
  then have "LbAdd x y z \<in> set (step_effects a pid k st)" using assms(2) set_mono_prefix by blast
  then show False using assms(1) by (cases st) (auto split: if_splits)
qed

definition adds_ready :: "env \<Rightarrow> actions \<Rightarrow> nat \<Rightarrow> ext list \<Rightarrow> bool" where
  "adds_ready env a n h \<longleftrightarrow>
     (\<forall>i x y z. n \<le> i \<and> i < length h \<and> h ! i = LbAdd x y z \<longrightarrow> ready env a (take i h))"

lemma ready_same: "same_setup a b \<Longrightarrow> ready env a = ready env b"
  by (auto simp: fun_eq_iff ready_def same_setup_def)

lemma adds_ready_step:
  assumes "state_step env st (a, h) = ((a', h'), nx, e)" "st = AddBackendState \<longrightarrow> ready env a h"
  shows "adds_ready env a' (length h) h'"
proof (cases "st = AddBackendState")
  case True
  then have "h' = h @ [LbAdd (cf_pattern (ac_config a)) (ac_ip a) (ac_port a)]" "a' = a"
    using assms(1) by (auto simp: Let_def split: if_splits)
  with True assms(2) show ?thesis by (auto simp: adds_ready_def less_Suc_eq)
next
  case False
  obtain new pid k where new: "h' = h @ new" "prefix (filter effect new) (step_effects a' pid k st)"
    using state_step_effects [OF assms(1)] by blast
  have "h' ! i \<noteq> LbAdd x y z" if "length h \<le> i" "i < length h'" for i x y z
  proof -
    have "h' ! i \<in> set new" using that new(1) by (simp add: nth_append)
    then show ?thesis using no_add_in_step [OF False new(2), of x y z] by metis
  qed
  then show ?thesis unfolding adds_ready_def by blast
qed

lemma adds_ready_trans:
  "adds_ready env a n h \<Longrightarrow> adds_ready env a (length h) (h @ new) \<Longrightarrow> adds_ready env a n (h @ new)"
  unfolding adds_ready_def
  by (metis append_eq_conv_conj le_Suc_ex length_append linorder_not_le nat_le_linear nth_append
      take_all_iff append_take_drop_id take_append diff_is_0_eq' less_imp_le_nat append.right_neutral take_0)

lemma step_then_effects:
  assumes "rank st' = Suc (rank st)" "same_setup a' b" "ac_dst a' = ac_dst b"
  shows "\<exists>pid k. step_effects b pid1 k1 st = step_effects a' pid k st
        \<and> effects_from a' pid2 k2 st' = effects_from a' pid k st'"
proof -
  have "step_effects b pid1 k1 st = step_effects a' pid1 k1 st"
    using effects_same [OF assms(2,3)] by simp
  moreover have "\<exists>pid k. step_effects a' pid1 k1 st = step_effects a' pid k st
        \<and> effects_from a' pid2 k2 st' = effects_from a' pid k st'"
  proof (cases "st = JobKill")
    case True
    then have "2 < rank st'" using assms(1) by simp
    then show ?thesis using effects_from_indep by blast
  next
    case False
    then show ?thesis using step_effects_indep by blast
  qed
  ultimately show ?thesis by simp
qed

lemma run_from_effects:
  "run_from env st (a, h) = ((a', h'), r) \<Longrightarrow> st = AddBackendState \<longrightarrow> ready env a h \<Longrightarrow>
     (\<exists>new pid k. h' = h @ new \<and> prefix (filter effect new) (effects_from a' pid k st)
        \<and> (r = None \<longrightarrow> filter effect new = effects_from a' pid k st))
     \<and> adds_ready env a' (length h) h'"
proof (induction "6 - rank st" arbitrary: st a h rule: less_induct)
  case less
  note frame = run_from_frame [OF less.prems(1)]
  from less.prems(1) show ?case
  proof (cases rule: run_from_cases)
    case ctx
    then show ?thesis by (auto simp: adds_ready_def)
  next
    case (fail b e)
    obtain new pid k where new: "h' = h @ new" "prefix (filter effect new) (step_effects b pid k st)"
      using state_step_effects [OF fail(2)] by blast
    have "step_effects b pid k st = step_effects a' pid k st"
      using fail(3) by (intro effects_same) (simp_all add: same_setup_def)
    moreover have "prefix (step_effects a' pid k st) (effects_from a' pid k st)"
      by (cases st) (simp_all add: effects_from_def)
    ultimately have "prefix (filter effect new) (effects_from a' pid k st)"
      using new(2) prefix_order.trans by metis
    moreover have "adds_ready env a' (length h) h'"
      using adds_ready_step [OF fail(2) less.prems(2)] fail(3) ready_same [of a' b]
      by (simp add: adds_ready_def same_setup_def)
    ultimately show ?thesis using new(1) fail(4) by blast
  next
    case finished
    obtain new pid k where new: "h' = h @ new" "filter effect new = step_effects a' pid k st"
      using state_step_effects [OF finished(3)] by blast
    moreover have "step_effects a' pid k st = effects_from a' pid k st"
      using finished(2) by (simp add: effects_from_def)
    ultimately show ?thesis using adds_ready_step [OF finished(3) less.prems(2)] by auto
  next
    case (go b h1 st')
    have lt: "6 - rank st' < 6 - rank st" using rank_next [OF go(2)] .
    have st': "st' \<noteq> FindAppLocal" "st \<noteq> AddBackendState" using go(3) by (auto, cases st', simp_all)
    have rdy: "st' = AddBackendState \<longrightarrow> ready env b h1"
    proof
      assume "st' = AddBackendState"
      with go(3) have "st = JobStart" by (cases st) simp_all
      with go(2) show "ready env b h1" using job_start_ready by blast
    qed
    obtain new1 pid1 k1 where new1: "h1 = h @ new1" "filter effect new1 = step_effects b pid1 k1 st"
      using state_step_effects [OF go(2)] by blast
    obtain new2 pid2 k2 where new2: "h' = h1 @ new2" "prefix (filter effect new2) (effects_from a' pid2 k2 st')"
        "r = None \<longrightarrow> filter effect new2 = effects_from a' pid2 k2 st'"
      and adds2: "adds_ready env a' (length h1) h'"
      using less.hyps [OF lt go(4) rdy] by blast
    have sb: "same_setup a' b" "ac_dst a' = ac_dst b" using run_from_frame [OF go(4)] st'(1) by simp_all
    obtain pid k where pk: "step_effects b pid1 k1 st = step_effects a' pid k st"
        "effects_from a' pid2 k2 st' = effects_from a' pid k st'"
      using step_then_effects [OF go(3) sb] by blast
    have "adds_ready env b (length h) h1"
      using adds_ready_step [OF go(2)] st'(2) by simp
    then have "adds_ready env a' (length h) h1" using ready_same [OF sb(1), of env] by (simp add: adds_ready_def)
    then have "adds_ready env a' (length h) h'"
      using adds2 new2(1) adds_ready_trans by blast
    moreover have "h' = h @ (new1 @ new2)" "prefix (filter effect (new1 @ new2)) (effects_from a' pid k st)"
      "r = None \<longrightarrow> filter effect (new1 @ new2) = effects_from a' pid k st"
      using new1 new2 pk effects_from_step [OF go(3), of a' pid k] by simp_all
    ultimately show ?thesis by blast
  qed
qed

lemma run_actions_effects:
  assumes "ac_failed_state a = None" "run_actions env (a, h) = ((a', h'), r)"
  shows "\<exists>new pid k. h' = h @ new \<and> prefix (filter effect new) (effects_from a' pid k FindAppLocal)
    \<and> (r = None \<longrightarrow> filter effect new = effects_from a' pid k FindAppLocal)
    \<and> same_setup a' a \<and> adds_ready env a' (length h) h'"
proof (cases "src_opens env (h @ [OpenSrc (cf_src (ac_config a))])")
  case False
  then have h': "h' = h @ [OpenSrc (cf_src (ac_config a))]" "r \<noteq> None" "same_setup a' a"
    using assms by (auto simp: run_actions_def Let_def)
  then have "adds_ready env a' (length h) h'" by (auto simp: adds_ready_def nth_append less_Suc_eq)
  with h' show ?thesis by (intro exI [of _ "[OpenSrc (cf_src (ac_config a))]"]) auto
next
  case True
  let ?h = "h @ [OpenSrc (cf_src (ac_config a))]"
  have run: "run_from env FindAppLocal (a\<lparr>ac_started := True\<rparr>, ?h) = ((a', h'), r)"
    using assms True by (simp add: run_actions_def Let_def)
  obtain new pid k where new: "h' = ?h @ new" "prefix (filter effect new) (effects_from a' pid k FindAppLocal)"
      "r = None \<longrightarrow> filter effect new = effects_from a' pid k FindAppLocal"
    and adds: "adds_ready env a' (length ?h) h'"
    using run_from_effects [OF run] by auto
  have "ready env a' (take i h')" if "length h \<le> i" "i < length h'" "h' ! i = LbAdd x y z" for i x y z
  proof (cases "i = length h")
    case True
    then show ?thesis using that(3) new(1) by (simp add: nth_append)
  next
    case False
    then show ?thesis using that adds by (simp add: adds_ready_def)
  qed
  then have "adds_ready env a' (length h) h'" by (simp add: adds_ready_def)
  then show ?thesis
    using new run_from_frame [OF run]
    by (intro exI [of _ "OpenSrc (cf_src (ac_config a)) # new"] exI [of _ pid] exI [of _ k]) simp
qed

text \<open>
  C0: The order of an upgrade. Whatever the outside answers, the effects of a run are an
  initial part of: take the backend out of the load balancer, SIGTERM and possibly SIGKILL
  to the job, open and copy the binary, start it, put the backend back. A run that succeeds
  has done all of it. The backend is put back only directly after its \<open>/healthz\<close> page has
  answered ok.
\<close>

theorem upgrade_effect_order:
  assumes "ac_failed_state a = None" "run_actions env (a, h) = ((a', h'), r)"
  shows "\<exists>new pid k. h' = h @ new
    \<and> (let lb = cf_pattern (ac_config a);
           order = [LbRemove lb (ac_ip a) (ac_port a), KillCmd 15 pid] @ (if k then [KillCmd 9 pid] else [])
             @ [OpenDst (ac_dst a'), CopyTo (ac_dst a'),
                RunCmd (''nohup '' @ ac_dst a' @ '' -port '' @ itoa (ac_port a) @ '' &''),
                LbAdd lb (ac_ip a) (ac_port a)]
       in prefix (filter effect new) order \<and> (r = None \<longrightarrow> filter effect new = order))
    \<and> (\<forall>i x y z. length h \<le> i \<and> i < length h' \<and> h' ! i = LbAdd x y z \<longrightarrow> ready env a' (take i h'))"
proof -
  obtain new pid k where new: "h' = h @ new" "prefix (filter effect new) (effects_from a' pid k FindAppLocal)"
    "r = None \<longrightarrow> filter effect new = effects_from a' pid k FindAppLocal"
    and same: "same_setup a' a" and adds: "adds_ready env a' (length h) h'"
    using run_actions_effects [OF assms] by blast
  have "effects_from a' pid k FindAppLocal =
      [LbRemove (cf_pattern (ac_config a)) (ac_ip a) (ac_port a), KillCmd 15 pid] @ (if k then [KillCmd 9 pid] else [])
      @ [OpenDst (ac_dst a'), CopyTo (ac_dst a'),
         RunCmd (''nohup '' @ ac_dst a' @ '' -port '' @ itoa (ac_port a) @ '' &''),
         LbAdd (cf_pattern (ac_config a)) (ac_ip a) (ac_port a)]"
    using same by (simp add: effects_from_def same_setup_def)
  with new adds show ?thesis
    by (intro exI [of _ new] exI [of _ pid] exI [of _ k]) (simp add: Let_def adds_ready_def)
qed

text \<open>An outside in which everything works: the job has pid 42 until it gets a signal.\<close>

definition demo_env :: env where
  "demo_env = \<lparr>src_opens = (\<lambda>_. True), ctx_done = (\<lambda>_. False), request_ok = (\<lambda>_. True),
     http = (\<lambda>h. case last h of HttpGet e p \<Rightarrow> if p = ''/healthz'' then Body ''ok'' else Body ''/bin/../app'' | _ \<Rightarrow> NoAnswer),
     lb_accepts = (\<lambda>_. True),
     ps_output = (\<lambda>h. if list_ex (\<lambda>e. case e of KillCmd _ _ \<Rightarrow> True | _ \<Rightarrow> False) h then Some [] else Some ''42''),
     kill_ok = (\<lambda>_. True), dst_opens = (\<lambda>_. True), copy_ok = (\<lambda>_. True), run_ok = (\<lambda>_. True), polls = (\<lambda>_. 3)\<rparr>"

definition demo_act :: actions where
  "demo_act = \<lparr>ac_endpoint = ''h:1'', ac_ip = None, ac_port = 1, ac_config = demo_config,
     ac_dst = [], ac_started = False, ac_failed_state = None, ac_err = None\<rparr>"

lemma demo_run: "map_prod (\<lambda>(a, h). (ac_dst a, filter effect h)) (\<lambda>r. r) (run_actions demo_env (demo_act, []))
    = ((''/app'', [LbRemove ''/'' None 1, KillCmd 15 ''42'', OpenDst ''/app'', CopyTo ''/app'',
        RunCmd ''nohup /app -port 1 &'', LbAdd ''/'' None 1]), None)"
  by code_simp

theorem upgrade_effect_order_witness:
  "\<exists>a' h'. run_actions demo_env (demo_act, []) = ((a', h'), None)
     \<and> last (filter effect h') = LbAdd ''/'' None 1
     \<and> (\<exists>i < length h'. h' ! i = LbAdd ''/'' None 1 \<and> ready demo_env a' (take i h'))"
proof -
  obtain a' h' r where run: "run_actions demo_env (demo_act, []) = ((a', h'), r)" by (metis prod.exhaust)
  have f: "ac_failed_state demo_act = None" by (simp add: demo_act_def)
  have r: "r = None" "last (filter effect h') = LbAdd ''/'' None 1"
    using demo_run run by simp_all
  have "LbAdd ''/'' None 1 \<in> set (filter effect h')"
    using demo_run run by simp
  then obtain i where i: "i < length h'" "h' ! i = LbAdd ''/'' None 1"
    by (auto simp: in_set_conv_nth)
  with upgrade_effect_order [OF f run] have "ready demo_env a' (take i h')" by auto
  with r i run show ?thesis by auto
qed

section \<open>Retrying after the job was killed\<close>

fun proc_event :: "ext \<Rightarrow> bool" where
  "proc_event (KillCmd _ _) = True"
| "proc_event (RunCmd _) = True"
| "proc_event _ = False"

text \<open>The last thing done to the job was to kill it.\<close>

definition killed :: "ext list \<Rightarrow> bool" where
  "killed h \<longleftrightarrow> (case find proc_event (rev h) of Some (KillCmd _ _) \<Rightarrow> True | _ \<Rightarrow> False)"

lemma find_append: "find P (xs @ ys) = (case find P xs of None \<Rightarrow> find P ys | Some x \<Rightarrow> Some x)"
  by (induction xs) auto

lemma killed_append: "filter proc_event new = [] \<Longrightarrow> killed (h @ new) = killed h"
proof -
  assume "filter proc_event new = []"
  then have "find proc_event (rev new) = None" by (auto simp: find_None_iff filter_empty_conv)
  then show ?thesis by (simp add: killed_def find_append)
qed

lemma find_rev_filter: "find P (rev xs) = (if filter P xs = [] then None else Some (last (filter P xs)))"
  by (induction xs) (auto simp: find_append)

lemma killed_filter:
  "killed h \<longleftrightarrow> filter proc_event h \<noteq> [] \<and> (\<exists>s p. last (filter proc_event h) = KillCmd s p)"
  unfolding killed_def find_rev_filter by (auto split: ext.splits)

lemma proc_filter: "filter proc_event h = filter proc_event (filter effect h)"
proof -
  have "proc_event x \<Longrightarrow> effect x" for x by (cases x) simp_all
  then show ?thesis by (simp add: conj_commute) (metis (mono_tags, lifting) filter_cong)
qed

lemma job_kill_killed:
  assumes "state_step env JobKill (a, h) = ((a', h'), nx, None)"
  shows "killed h'"
proof -
  obtain new pid k where new: "h' = h @ new" "filter effect new = step_effects a' pid k JobKill"
    using job_kill_effects [OF assms] by auto
  have p: "filter proc_event new = KillCmd 15 pid # (if k then [KillCmd 9 pid] else [])"
    using new(2) by (subst proc_filter) simp
  then show ?thesis unfolding killed_filter by (simp add: new(1))
qed

definition copy_failure :: "act_err \<Rightarrow> bool" where
  "copy_failure e \<longleftrightarrow> (\<exists>d. e = DstFailed d) \<or> e = CopyFailed"

lemma wait_error: "wait_for_death env a n h = (h', Some e) \<Longrightarrow> \<not> copy_failure e"
  by (induction env a n h rule: wait_for_death.induct)
     (auto simp: copy_failure_def split: prod.splits outcome.splits if_splits)

lemma find_pid_error: "find_pid env a h = (h', Err e) \<Longrightarrow> \<not> copy_failure e"
  by (auto simp: find_pid_def copy_failure_def Let_def split: option.splits if_splits)

lemma kill_pid_error: "kill_pid env pid sig h = (h', Some e) \<Longrightarrow> \<not> copy_failure e"
  by (auto simp: kill_pid_def copy_failure_def Let_def split: if_splits)

lemma reachable_error: "reachable env a h = (h', nx, Some e) \<Longrightarrow> \<not> copy_failure e"
proof -
  have "reachable_loop env a n h = (h', nx, Some e) \<Longrightarrow> \<not> copy_failure e" for n
    by (induction env a n h rule: reachable_loop.induct)
       (auto simp: copy_failure_def Let_def split: http_reply.splits if_splits)
  then show "reachable env a h = (h', nx, Some e) \<Longrightarrow> \<not> copy_failure e"
    by (auto simp: reachable_def copy_failure_def split: if_splits)
qed

lemma job_kill_error: "state_step env JobKill (a, h) = ((a', h'), nx, Some e) \<Longrightarrow> \<not> copy_failure e"
  by (auto split: prod.splits outcome.splits option.splits if_splits
      dest: wait_error find_pid_error kill_pid_error simp: copy_failure_def [of "NoJob _"] copy_failure_def [of PsFailed])

lemma copy_failure_state:
  assumes "state_step env st (a, h) = ((a', h'), nx, Some e)" "copy_failure e"
  shows "st = Cp"
proof (cases st)
  case JobKill
  then show ?thesis using assms job_kill_error by blast
next
  case JobStart
  then show ?thesis using assms
    by (auto simp: Let_def split: if_splits prod.splits dest: reachable_error simp: copy_failure_def [of StartFailed])
qed (use assms in \<open>auto simp: Let_def copy_failure_def split: if_splits http_reply.splits\<close>)

lemma run_from_copy_failure:
  "run_from env st (a, h) = ((a', h'), Some e) \<Longrightarrow> copy_failure e \<Longrightarrow> st = Cp \<longrightarrow> killed h \<Longrightarrow> killed h'"
proof (induction "6 - rank st" arbitrary: st a h rule: less_induct)
  case less
  from less.prems(1) show ?case
  proof (cases rule: run_from_cases)
    case ctx
    then show ?thesis using less.prems(2) by (simp add: copy_failure_def)
  next
    case (fail b x)
    then have st: "st = Cp" using less.prems(2) copy_failure_state by blast
    obtain new pid k where new: "h' = h @ new" "prefix (filter effect new) (step_effects b pid k Cp)"
      using state_step_effects [OF fail(2)] st by blast
    then have "filter proc_event (filter effect new) = []"
      by (auto simp: prefix_Cons simp del: filter_filter)
    then have "filter proc_event new = []" by (subst proc_filter)
    then show ?thesis using new(1) killed_append less.prems(3) st by simp
  next
    case (go b h1 st')
    have lt: "6 - rank st' < 6 - rank st" using rank_next [OF go(2)] .
    have "killed h1" if "st' = Cp"
    proof -
      have "st = JobKill" using that go(3) by (cases st) simp_all
      then show ?thesis using go(2) job_kill_killed by blast
    qed
    then show ?thesis using less.hyps [OF lt go(4)] less.prems(2) by blast
  qed simp
qed

text \<open>A run that starts while the killed job cannot answer.\<close>

lemma run_after_kill:
  assumes "ac_failed_state a = None" "killed h"
    and silent: "\<And>h p. killed h \<Longrightarrow> http env (h @ [HttpGet (ac_endpoint a) p]) = NoAnswer"
    and run: "run_actions env (a, h) = ((a', h'), r)"
  shows "r \<noteq> None \<and> killed h' \<and> filter effect h' = filter effect h
    \<and> ac_failed_state a' = None \<and> ac_endpoint a' = ac_endpoint a"
proof (cases "src_opens env (h @ [OpenSrc (cf_src (ac_config a))])")
  case False
  then show ?thesis using assms(1,2) run killed_append [of "[OpenSrc _]" h]
    by (auto simp: run_actions_def Let_def)
next
  case True
  let ?h = "h @ [OpenSrc (cf_src (ac_config a))]"
  have k: "killed ?h" "killed (?h @ [HttpGet (ac_endpoint a) ''/installedAt''])"
    using assms(2) killed_append [of "[OpenSrc _]" h] killed_append [of "[OpenSrc _, HttpGet _ _]" h] by simp_all
  have "run_from env FindAppLocal (a\<lparr>ac_started := True\<rparr>, ?h) = ((a', h'), r)"
    using assms(1) run True by (simp add: run_actions_def Let_def)
  then show ?thesis
    using silent [OF k(1)] k assms(1)
    by (auto simp: run_from.simps [of env FindAppLocal "a\<lparr>ac_started := True\<rparr>" ?h] split: if_splits)
qed

text \<open>
  When an upgrade fails while the new binary is copied, the old job is already dead and
  the backend is out of the load balancer, and no retry can repair it: a retry starts with
  asking the dead job for its location. As long as a killed job that was not started again
  does not answer, every later run fails without any effect.
\<close>

theorem retry_after_failed_copy_never_succeeds:
  assumes "ac_failed_state a = None" "run_actions env (a, h) = ((a1, h1), Some e)" "copy_failure e"
    and "\<And>h p. killed h \<Longrightarrow> http env (h @ [HttpGet (ac_endpoint a) p]) = NoAnswer"
    and "run_ops (\<lambda>_. run_actions env) (replicate n ()) (a1, h1) = ((a2, h2), rs)"
  shows "killed h1 \<and> (\<forall>r \<in> set rs. r \<noteq> None) \<and> filter effect h2 = filter effect h1"
proof -
  let ?h = "h @ [OpenSrc (cf_src (ac_config a))]"
  have "src_opens env ?h" using assms(2,3) by (auto simp: run_actions_def Let_def copy_failure_def split: if_splits)
  then have run: "run_from env FindAppLocal (a\<lparr>ac_started := True\<rparr>, ?h) = ((a1, h1), Some e)"
    using assms(1,2) by (simp add: run_actions_def Let_def)
  have k: "killed h1" using run_from_copy_failure [OF run assms(3)] by simp
  have a1: "ac_failed_state a1 = None" "ac_endpoint a1 = ac_endpoint a"
    using run_from_frame [OF run] assms(1) by (auto simp: same_setup_def)
  have "(\<forall>r \<in> set rs. r \<noteq> None) \<and> filter effect h2 = filter effect h1"
    if "run_ops (\<lambda>_. run_actions env) (replicate n ()) (a1, h1) = ((a2, h2), rs)"
      "ac_failed_state a1 = None" "ac_endpoint a1 = ac_endpoint a" "killed h1" for a1 h1 rs
    using that
  proof (induction n arbitrary: a1 h1 rs)
    case 0
    then show ?case by simp
  next
    case (Suc n)
    obtain b k r where run: "run_actions env (a1, h1) = ((b, k), r)" by (metis prod.exhaust)
    obtain rs' where rs: "rs = r # rs'" "run_ops (\<lambda>_. run_actions env) (replicate n ()) (b, k) = ((a2, h2), rs')"
      using Suc.prems(1) run by (auto simp: Let_def split: prod.splits)
    have "r \<noteq> None \<and> killed k \<and> filter effect k = filter effect h1
        \<and> ac_failed_state b = None \<and> ac_endpoint b = ac_endpoint a1"
      by (rule run_after_kill [OF Suc.prems(2,4) _ run]) (simp add: Suc.prems(3) assms(4))
    with Suc.IH [OF rs(2)] Suc.prems(3) show ?case by (simp add: rs(1))
  qed
  from this [OF assms(5) a1 k] k show ?thesis by simp
qed

theorem retry_after_failed_copy_never_succeeds_witness:
  "\<exists>env a1 h1 e a2 h2 rs. run_actions env (demo_act, []) = ((a1, h1), Some e) \<and> copy_failure e
     \<and> run_ops (\<lambda>_. run_actions env) (replicate 3 ()) (a1, h1) = ((a2, h2), rs)
     \<and> rs \<noteq> [] \<and> (\<forall>r \<in> set rs. r \<noteq> None)"
proof -
  define env where "env = demo_env\<lparr>copy_ok := (\<lambda>_. False),
      http := (\<lambda>h. if killed h then NoAnswer else http demo_env h)\<rparr>"
  have "snd (run_actions env (demo_act, [])) = Some CopyFailed"
    unfolding env_def by code_simp
  moreover obtain a1 h1 r where "run_actions env (demo_act, []) = ((a1, h1), r)" by (metis prod.exhaust)
  ultimately have run: "run_actions env (demo_act, []) = ((a1, h1), Some CopyFailed)" by simp
  have f: "ac_failed_state demo_act = None" by (simp add: demo_act_def)
  have c: "copy_failure CopyFailed" by (simp add: copy_failure_def)
  have s: "http env (h @ [HttpGet (ac_endpoint demo_act) p]) = NoAnswer" if "killed h" for h p
    using that killed_append [of "[HttpGet (ac_endpoint demo_act) p]" h] by (simp add: env_def)
  obtain a2 h2 rs where runs: "run_ops (\<lambda>_. run_actions env) (replicate 3 ()) (a1, h1) = ((a2, h2), rs)"
    by (metis prod.exhaust)
  have "rs \<noteq> []" using runs by (auto simp: numeral_eq_Suc Let_def split: prod.splits)
  with retry_after_failed_copy_never_succeeds [OF f run c s runs] run c runs show ?thesis by blast
qed

end
