(* ===== verification/Rollout_Serving.thy ===== *)
theory Rollout_Serving
  imports Rollout_Actions
begin

text \<open>
  What an upgrade does to the traffic: the calls its run makes to the load balancer are
  replayed on the model of the load balancer, through its client and its control service.
\<close>

definition served :: "load_balancer \<Rightarrow> nat \<Rightarrow> string set" where
  "served l p = url_of (po_state (pool_heap l p)) ` set (healthy (po_state (pool_heap l p)))"

fun ip_bytes :: "net_ip option \<Rightarrow> net_ip" where
  "ip_bytes None = []"
| "ip_bytes (Some ip) = ip"

fun replay_step :: "ext \<Rightarrow> load_balancer \<Rightarrow> load_balancer \<times> (lb_err, unit) outcome" where
  "replay_step (LbRemove pattern ip port) l = client_remove_backend pattern (ClientIP (ip_bytes ip) port []) l"
| "replay_step (LbAdd pattern ip port) l = client_add_backend False pattern (ClientIP (ip_bytes ip) port []) l"
| "replay_step _ l = (l, Ok ())"

definition replay :: "ext list \<Rightarrow> load_balancer \<Rightarrow> load_balancer" where
  "replay h l = fst (run_ops replay_step h l)"

fun lb_event :: "ext \<Rightarrow> bool" where
  "lb_event (LbRemove _ _ _) = True"
| "lb_event (LbAdd _ _ _) = True"
| "lb_event _ = False"

lemma replay_Nil [simp]: "replay [] l = l"
  by (simp add: replay_def)

lemma replay_Cons [simp]: "replay (x # h) l = replay h (fst (replay_step x l))"
  by (simp only: replay_def fst_run_ops_Cons)

lemma replay_append: "replay (h @ k) l = replay k (replay h l)"
  by (induction h arbitrary: l) simp_all

lemma replay_filter: "replay (filter lb_event h) l = replay h l"
proof (induction h arbitrary: l)
  case (Cons x h)
  then show ?case by (cases x) simp_all
qed simp

declare replay_step.simps(1,2) [simp del]

lemma lb_event_effect: "lb_event x \<Longrightarrow> effect x"
  by (cases x) simp_all

lemma filter_lb_effect: "filter lb_event h = filter lb_event (filter effect h)"
  using lb_event_effect by (simp add: conj_commute) (metis (mono_tags, lifting) filter_cong)

lemma prefix_filter: "prefix xs ys \<Longrightarrow> prefix (filter P xs) (filter P ys)"
  by (auto simp: prefix_def)

section \<open>One backend of a pool\<close>

definition backend_url :: "net_ip \<Rightarrow> int \<Rightarrow> string" where
  "backend_url ip port = ''http://'' @ ip_text ip @ '':'' @ itoa port"

definition known_pool :: "load_balancer \<Rightarrow> string \<Rightarrow> nat \<Rightarrow> bool" where
  "known_pool l pattern p \<longleftrightarrow> lb_inv l \<and> map_of (pools l) pattern = Some p \<and> trim_space pattern \<noteq> []"

definition proper :: "net_ip \<Rightarrow> int \<Rightarrow> bool" where
  "proper ip port \<longleftrightarrow> parse_ip (ip_text ip) = Some ip \<and> 1 \<le> port \<and> port \<le> 65534"

lemma proper_v4:
  assumes "a \<le> 255" "b \<le> 255" "c \<le> 255" "d \<le> 255" "1 \<le> port" "port \<le> 65534"
  shows "proper (v4_prefix @ [a, b, c, d]) port"
  using assms parse_ip_text_v4 [OF assms(1-4)] by (simp add: proper_def)

lemma proper_backend:
  assumes "proper ip port"
  obtains bk where "backend_of (IPBackendPB (ip_text ip) port path) = Ok bk" "be_url bk = backend_url ip port"
  using assms backend_of_cases [of "IPBackendPB (ip_text ip) port path"]
  by (auto simp: proper_def backend_url_def new_ip_backend_def be_validate_def resolve_url_def Let_def
      dest: parse_ip_length split: if_splits)

lemma known_pool_inv: "known_pool l pattern p \<Longrightarrow> p2c_inv (po_state (pool_heap l p))"
  by (auto simp: known_pool_def lb_inv_def)

lemma replay_remove:
  assumes "known_pool l pattern p" "proper ip port"
  shows "snd (replay_step (LbRemove pattern (Some ip) port) l) = Ok ()
    \<and> known_pool (fst (replay_step (LbRemove pattern (Some ip) port) l)) pattern p
    \<and> served (fst (replay_step (LbRemove pattern (Some ip) port) l)) p = served l p - {backend_url ip port}"
proof -
  obtain bk where bk: "backend_of (IPBackendPB (ip_text ip) port []) = Ok bk" "be_url bk = backend_url ip port"
    using proper_backend [OF assms(2)] by metis
  let ?s = "po_state (pool_heap l p)"
  have step: "replay_step (LbRemove pattern (Some ip) port) l = on_pool p (\<lambda>q. p2c_remove bk (po_state q)) l"
    using assms(1) bk(1) by (simp add: replay_step.simps known_pool_def client_remove_backend_def grpc_remove_backend_def lb_get_pool_def)
  have "lb_inv (fst (on_pool p (\<lambda>q. p2c_remove bk (po_state q)) l))"
    using assms(1) by (intro lb_inv_on_pool) (simp_all add: known_pool_def p2c_inv_remove)
  then show ?thesis
    using assms(1) known_pool_inv [OF assms(1)] p2c_pool.serving_remove [of ?s bk]
    unfolding step by (simp add: on_pool_def p2c_remove_eq served_def bk(2) known_pool_def split: prod.splits)
qed

lemma client_add_serves:
  assumes "known_pool l pattern p" "proper ip port"
  shows "known_pool (fst (client_add_backend c pattern (ClientIP ip port path) l)) pattern p
    \<and> served (fst (client_add_backend c pattern (ClientIP ip port path) l)) p
        = (if is_ok (snd (client_add_backend c pattern (ClientIP ip port path) l))
           then insert (backend_url ip port) (served l p) else served l p)"
proof -
  obtain bk where bk: "backend_of (IPBackendPB (ip_text ip) port path) = Ok bk" "be_url bk = backend_url ip port"
    using proper_backend [OF assms(2)] by metis
  let ?s = "po_state (pool_heap l p)" and ?hc = "po_hc (pool_heap l p)"
  let ?f = "\<lambda>q. p2c_add c (po_hc q) bk (po_state q)"
  have step: "client_add_backend c pattern (ClientIP ip port path) l = on_pool p ?f l"
    using assms(1) bk(1) by (simp add: known_pool_def client_add_backend_def grpc_add_backend_def lb_get_pool_def)
  have "lb_inv (fst (on_pool p ?f l))"
    using assms(1) by (intro lb_inv_on_pool) (simp_all add: known_pool_def p2c_add_spec(1))
  then show ?thesis
    using assms(1) known_pool_inv [OF assms(1)] p2c_pool.serving_add [of ?s c ?hc bk]
    unfolding step by (cases "p2c_add c ?hc bk ?s") (simp add: on_pool_def served_def bk(2) known_pool_def)
qed

lemma replay_add:
  assumes "known_pool l pattern p" "proper ip port"
  shows "known_pool (fst (replay_step (LbAdd pattern (Some ip) port) l)) pattern p
    \<and> served (fst (replay_step (LbAdd pattern (Some ip) port) l)) p
        = (if is_ok (snd (replay_step (LbAdd pattern (Some ip) port) l))
           then insert (backend_url ip port) (served l p) else served l p)"
  using client_add_serves [OF assms, of False "[]"] by (simp add: replay_step.simps)

section \<open>The traffic during an upgrade\<close>

text \<open>The load balancer that answers the run is the modelled one.\<close>

definition lb_answers :: "env \<Rightarrow> load_balancer \<Rightarrow> bool" where
  "lb_answers env l0 \<longleftrightarrow>
     (\<forall>h x. lb_event x \<longrightarrow> lb_accepts env (h @ [x]) = is_ok (snd (replay_step x (replay h l0))))"

lemma run_from_last:
  "run_from env st (a, h) = ((a', h'), None) \<Longrightarrow>
     \<exists>k. h' = k @ [LbAdd (cf_pattern (ac_config a')) (ac_ip a') (ac_port a')] \<and> lb_accepts env h'"
proof (induction "6 - rank st" arbitrary: st a h rule: less_induct)
  case less
  from less.prems show ?case
  proof (cases rule: run_from_cases)
    case finished
    then show ?thesis by (auto simp: Let_def split: if_splits)
  next
    case (go b h1 st')
    then show ?thesis using less.hyps [OF rank_next [OF go(2)] go(4)] by blast
  qed simp_all
qed

lemma two_prefixes: "prefix xs [a, b] \<longleftrightarrow> xs = [] \<or> xs = [a] \<or> xs = [a, b]"
  by (auto simp: prefix_Cons)

lemma upgrade_order_lb:
  assumes "ac_failed_state a = None" "run_actions env (a, h) = ((a', h'), r)"
  shows "\<exists>new. h' = h @ new
    \<and> prefix (filter lb_event new) [LbRemove (cf_pattern (ac_config a)) (ac_ip a) (ac_port a),
                                   LbAdd (cf_pattern (ac_config a)) (ac_ip a) (ac_port a)]
    \<and> (r = None \<longrightarrow> filter lb_event new = [LbRemove (cf_pattern (ac_config a)) (ac_ip a) (ac_port a),
                                   LbAdd (cf_pattern (ac_config a)) (ac_ip a) (ac_port a)])"
proof -
  obtain new pid k where new: "h' = h @ new"
    "prefix (filter effect new) (effects_from a' pid k FindAppLocal)"
    "r = None \<longrightarrow> filter effect new = effects_from a' pid k FindAppLocal" "same_setup a' a"
    using run_actions_effects [OF assms] by blast
  have "filter lb_event (effects_from a' pid k FindAppLocal) =
      [LbRemove (cf_pattern (ac_config a)) (ac_ip a) (ac_port a), LbAdd (cf_pattern (ac_config a)) (ac_ip a) (ac_port a)]"
    using new(4) by (simp add: effects_from_def same_setup_def)
  then show ?thesis
    using new(1,3) prefix_filter [OF new(2), of lb_event] by (metis filter_lb_effect)
qed

lemma run_actions_last:
  assumes "ac_failed_state a = None" "run_actions env (a, h) = ((a', h'), None)"
  shows "\<exists>k. h' = k @ [LbAdd (cf_pattern (ac_config a)) (ac_ip a) (ac_port a)] \<and> lb_accepts env h'"
proof -
  have run: "run_from env FindAppLocal (a\<lparr>ac_started := True\<rparr>, h @ [OpenSrc (cf_src (ac_config a))]) = ((a', h'), None)"
    using assms by (auto simp: run_actions_def Let_def split: if_splits)
  from run_from_last [OF run] run_from_frame [OF run] show ?thesis by (auto simp: same_setup_def)
qed

text \<open>The balancer after none, one or both of the calls of an upgrade.\<close>

lemma served_during:
  assumes "proper ip port" and "known_pool l lb p" and "backend_url ip port \<in> served l p"
    and pre: "prefix lbs [LbRemove lb (Some ip) port, LbAdd lb (Some ip) port]"
  shows "served (replay lbs l) p \<subseteq> served l p \<and> served l p - {backend_url ip port} \<subseteq> served (replay lbs l) p"
proof -
  let ?R = "LbRemove lb (Some ip) port" and ?A = "LbAdd lb (Some ip) port"
  define l1 where "l1 = fst (replay_step ?R l)"
  define l2 where "l2 = fst (replay_step ?A l1)"
  have s1: "served l1 p = served l p - {backend_url ip port}" and l1: "known_pool l1 lb p"
    using replay_remove [OF assms(2,1)] by (simp_all add: l1_def)
  have s2: "served l2 p = (if is_ok (snd (replay_step ?A l1)) then insert (backend_url ip port) (served l1 p)
        else served l1 p)"
    using replay_add [OF l1 assms(1)] by (simp add: l2_def)
  have r12: "replay [?R] l = l1" "replay [?R, ?A] l = l2" by (simp_all add: l1_def l2_def)
  consider "lbs = []" | "lbs = [?R]" | "lbs = [?R, ?A]" using iffD1 [OF two_prefixes pre] by blast
  then show ?thesis
  proof cases
    case 1
    then show ?thesis by auto
  next
    case 2
    then show ?thesis unfolding 2 r12 s1 by blast
  next
    case 3
    have "served l2 p \<subseteq> served l p \<and> served l p - {backend_url ip port} \<subseteq> served l2 p"
      unfolding s2 s1 using assms(3) by (simp split: if_splits) blast
    then show ?thesis unfolding 3 r12 .
  qed
qed

lemma served_after_both:
  assumes "proper ip port" and "known_pool l lb p" and "backend_url ip port \<in> served l p"
    and "is_ok (snd (replay_step (LbAdd lb (Some ip) port) (replay [LbRemove lb (Some ip) port] l)))"
  shows "served (replay [LbRemove lb (Some ip) port, LbAdd lb (Some ip) port] l) p = served l p"
proof -
  define l1 where "l1 = fst (replay_step (LbRemove lb (Some ip) port) l)"
  have s1: "served l1 p = served l p - {backend_url ip port}" and l1: "known_pool l1 lb p"
    using replay_remove [OF assms(2,1)] by (simp_all add: l1_def)
  show ?thesis
    using replay_add [OF l1 assms(1)] s1 assms(3,4) by (auto simp: l1_def [symmetric])
qed

text \<open>
  C5: Seen from the load balancer, an upgrade of a backend that serves in the pool of the
  configured pattern never takes any other backend out of service and never brings in a new
  one, at any moment of the run and however it ends; and if it succeeds, the pool serves
  exactly the endpoints it served before.
\<close>

theorem upgrade_keeps_service:
  assumes "ac_failed_state a = None" "ac_ip a = Some ip" "proper ip (ac_port a)"
    and "lb_answers env l0" "known_pool (replay h l0) (cf_pattern (ac_config a)) p"
    and "backend_url ip (ac_port a) \<in> served (replay h l0) p"
    and "run_actions env (a, h) = ((a', h'), r)"
  shows "(\<forall>i. length h \<le> i \<longrightarrow>
        served (replay (take i h') l0) p \<subseteq> served (replay h l0) p
        \<and> served (replay h l0) p - {backend_url ip (ac_port a)} \<subseteq> served (replay (take i h') l0) p)
    \<and> (r = None \<longrightarrow> served (replay h' l0) p = served (replay h l0) p)"
proof -
  let ?lb = "cf_pattern (ac_config a)" and ?l = "replay h l0" and ?url = "backend_url ip (ac_port a)"
  let ?R = "LbRemove ?lb (Some ip) (ac_port a)" and ?A = "LbAdd ?lb (Some ip) (ac_port a)"
  obtain new where new: "h' = h @ new" "prefix (filter lb_event new) [?R, ?A]"
      "r = None \<longrightarrow> filter lb_event new = [?R, ?A]"
  proof -
    from upgrade_order_lb [OF assms(1,7)] show ?thesis using that assms(2) by metis
  qed
  have any: "served (replay (take i h') l0) p \<subseteq> served ?l p \<and> served ?l p - {?url} \<subseteq> served (replay (take i h') l0) p"
    if "length h \<le> i" for i
  proof -
    have "take i h' = h @ take (i - length h) new" using that new(1) by simp
    moreover have "prefix (filter lb_event (take (i - length h) new)) [?R, ?A]"
      using new(2) prefix_filter [OF take_is_prefix] prefix_order.trans by blast
    note served_during [OF assms(3,5,6) this]
    ultimately show ?thesis by (simp add: replay_append replay_filter)
  qed
  have "served (replay h' l0) p = served ?l p" if r: "r = None"
  proof -
    obtain k where k: "h' = k @ [?A]" "lb_accepts env h'"
      using run_actions_last [OF assms(1) assms(7) [unfolded r]] assms(2) by auto
    obtain n where n: "new = n @ [?A]"
      using new(1,3) k(1) r by (cases new rule: rev_cases) auto
    then have "filter lb_event n = [?R]" using new(3) r by simp
    then have before: "replay k l0 = replay [?R] ?l"
      using new(1) k(1) n replay_filter [of n ?l] by (simp add: replay_append)
    then have "is_ok (snd (replay_step ?A (replay [?R] ?l)))"
      using assms(4) k unfolding lb_answers_def by (metis lb_event.simps(2))
    from served_after_both [OF assms(3,5,6) this] show ?thesis
      using new(1,3) r replay_filter [of new ?l] by (simp add: replay_append)
  qed
  with any show ?thesis by blast
qed

text \<open>Everything works, with the load balancer of the model in the place of the real one.\<close>

definition demo_served_lb :: load_balancer where
  "demo_served_lb = fst (client_add_backend False ''/'' (ClientIP (v4_prefix @ [10, 0, 0, 1]) 80 []) demo_lb)"

definition demo_served_env :: env where
  "demo_served_env = demo_env\<lparr>lb_accepts :=
     (\<lambda>h. h = [] \<or> is_ok (snd (replay_step (last h) (replay (butlast h) demo_served_lb))))\<rparr>"

definition demo_served_act :: actions where
  "demo_served_act = demo_act\<lparr>ac_ip := Some (v4_prefix @ [10, 0, 0, 1]), ac_port := 80\<rparr>"

lemma demo_proper: "proper (v4_prefix @ [10, 0, 0, 1]) 80"
  by (rule proper_v4) simp_all

lemma demo_known: "known_pool demo_lb ''/'' 0"
  by (simp add: known_pool_def demo_lb_pool trim_slash)

lemma demo_serves:
  "known_pool demo_served_lb ''/'' 0" "backend_url (v4_prefix @ [10, 0, 0, 1]) 80 \<in> served demo_served_lb 0"
proof -
  let ?x = "LbAdd ''/'' (Some (v4_prefix @ [10, 0, 0, 1])) 80"
  have eq: "demo_served_lb = fst (replay_step ?x demo_lb)"
    by (simp add: demo_served_lb_def replay_step.simps)
  note add = replay_add [OF demo_known demo_proper]
  show "known_pool demo_served_lb ''/'' 0" using add eq by simp
  have "snd (replay_step ?x demo_lb) = Ok ()" by code_simp
  then show "backend_url (v4_prefix @ [10, 0, 0, 1]) 80 \<in> served demo_served_lb 0"
    using add eq by simp
qed

theorem upgrade_keeps_service_witness:
  "\<exists>a' h'. run_actions demo_served_env (demo_served_act, []) = ((a', h'), None)
     \<and> backend_url (v4_prefix @ [10, 0, 0, 1]) 80 \<in> served (replay h' demo_served_lb) 0"
proof -
  have f: "ac_failed_state demo_served_act = None" "ac_ip demo_served_act = Some (v4_prefix @ [10, 0, 0, 1])"
    "cf_pattern (ac_config demo_served_act) = ''/''" "ac_port demo_served_act = 80"
    by (simp_all add: demo_served_act_def demo_act_def demo_config_def)
  have l: "lb_answers demo_served_env demo_served_lb"
    by (simp add: lb_answers_def demo_served_env_def)
  have "snd (run_actions demo_served_env (demo_served_act, [])) = None" by code_simp
  moreover obtain a' h' r where "run_actions demo_served_env (demo_served_act, []) = ((a', h'), r)"
    by (metis prod.exhaust)
  ultimately have run: "run_actions demo_served_env (demo_served_act, []) = ((a', h'), None)" by simp
  have "served (replay h' demo_served_lb) 0 = served (replay [] demo_served_lb) 0"
    using upgrade_keeps_service [OF f(1,2) _ l _ _ run, of 0] demo_proper demo_serves f by simp
  then show ?thesis using run demo_serves(2) by auto
qed

end
