(* ===== verification/Rollout_Workflow.thy ===== *)
theory Rollout_Workflow
  imports Rollout_Serving
begin

text \<open>
  The rollout of a new binary over all servers (\<open>orchestration/workflow/workflow.go\<close>) and
  the program around it (\<open>orchestration.go\<close>): the precondition on the load balancer,
  the canaries, the concurrent phase behind a semaphore as a step relation, the retries and
  the status.
\<close>

section \<open>State\<close>

datatype end_state = ESUnknown | ESSuccess | ESPreconditionFailure | ESCanaryFailure | ESMaxFailures

record workflow =
  wf_config :: config
  wf_failures :: int
  wf_end :: end_state
  wf_actions :: "actions list"

datatype wf_err =
    PoolHealthErr lb_err
  | ExpectedFound nat nat
  | NotInConfig string
  | NotFull pool_status
  | CanaryFailed string act_err
  | ExceededMax
  | BuildErr act_err

fun build_actions :: "config \<Rightarrow> string list \<Rightarrow> (wf_err, actions list) outcome" where
  "build_actions cfg [] = Ok []"
| "build_actions cfg (b # bs) =
     then_ok (map_err BuildErr (new_actions b cfg))
       (\<lambda>a. then_ok (build_actions cfg bs) (\<lambda>as. Ok (a # as)))"

definition new_workflow :: "config \<Rightarrow> (wf_err, workflow) outcome" where
  "new_workflow cfg =
     then_ok (build_actions cfg (cf_backends cfg))
       (\<lambda>as. Ok \<lparr>wf_config = cfg, wf_failures = 0, wf_end = ESUnknown, wf_actions = as\<rparr>)"

section \<open>The precondition\<close>

definition backend_to_string :: "backend_health \<Rightarrow> string" where
  "backend_to_string b = join_host_port (bh_ip b) (itoa (bh_port b))"

fun all_in_config :: "string list \<Rightarrow> backend_health list \<Rightarrow> (wf_err, unit) outcome" where
  "all_in_config m [] = Ok ()"
| "all_in_config m (hb # hbs) =
     (if backend_to_string hb \<notin> set m then Err (NotInConfig (bh_ip hb)) else all_in_config m hbs)"

definition check_lb_state :: "config \<Rightarrow> (lb_err, pool_health) outcome \<Rightarrow> (wf_err, unit) outcome" where
  "check_lb_state cfg health =
     then_ok (map_err PoolHealthErr health)
       (\<lambda>ph. case ph_status ph of
          PS_EMPTY \<Rightarrow>
            if length (cf_backends cfg) \<noteq> 0
            then Err (ExpectedFound (length (cf_backends cfg)) (length (ph_backends ph))) else Ok ()
        | PS_FULL \<Rightarrow>
            if length (cf_backends cfg) \<noteq> length (ph_backends ph)
            then Err (ExpectedFound (length (cf_backends cfg)) (length (ph_backends ph)))
            else all_in_config (cf_backends cfg) (ph_backends ph)
        | st \<Rightarrow> Err (NotFull st))"

lemma all_in_config_ok: "all_in_config m hbs = Ok () \<longleftrightarrow> backend_to_string ` set hbs \<subseteq> set m"
  by (induction hbs) auto

text \<open>
  C32: The precondition holds exactly if the health query answered and either both the pool
  and the configuration are empty, or the pool is at full health and has as many backends
  as the configuration, all of them configured. When the pool's backends have different
  addresses, the second case means that pool and configuration name exactly the same
  backends and the configuration names none twice.
\<close>

theorem check_lb_state_ok:
  assumes "health = Ok ph" "ph_status ph = PS_FULL" "distinct (map backend_to_string (ph_backends ph))"
  shows "(check_lb_state cfg health = Ok () \<longleftrightarrow>
        distinct (cf_backends cfg) \<and> set (cf_backends cfg) = backend_to_string ` set (ph_backends ph))
    \<and> (\<forall>other. ph_status other \<noteq> PS_FULL \<longrightarrow>
         (check_lb_state cfg (Ok other) = Ok () \<longleftrightarrow> ph_status other = PS_EMPTY \<and> cf_backends cfg = []))"
proof -
  let ?c = "cf_backends cfg" and ?b = "map backend_to_string (ph_backends ph)"
  have ok: "check_lb_state cfg health = Ok () \<longleftrightarrow> length ?c = length ?b \<and> set ?b \<subseteq> set ?c"
    using assms(1,2) by (simp add: check_lb_state_def all_in_config_ok)
  have "length ?c = length ?b \<and> set ?b \<subseteq> set ?c \<longleftrightarrow> distinct ?c \<and> set ?c = set ?b"
  proof
    assume l: "length ?c = length ?b \<and> set ?b \<subseteq> set ?c"
    have "card (set ?b) = length ?b" using assms(3) by (rule distinct_card)
    moreover have "card (set ?c) \<le> length ?c" by (rule card_length)
    moreover have "card (set ?b) \<le> card (set ?c)" using l by (intro card_mono) auto
    ultimately have "card (set ?c) = length ?c" "card (set ?b) = card (set ?c)" using l by auto
    then show "distinct ?c \<and> set ?c = set ?b"
      using l by (metis List.finite_set card_distinct card_subset_eq)
  next
    assume "distinct ?c \<and> set ?c = set ?b"
    then show "length ?c = length ?b \<and> set ?b \<subseteq> set ?c"
      using assms(3) by (metis distinct_card order_refl)
  qed
  moreover have "check_lb_state cfg (Ok other) = Ok () \<longleftrightarrow> ph_status other = PS_EMPTY \<and> cf_backends cfg = []"
    if "ph_status other \<noteq> PS_FULL" for other
    using that by (cases "ph_status other") (auto simp: check_lb_state_def)
  ultimately show ?thesis using ok by simp
qed

theorem check_lb_state_ok_witness:
  "check_lb_state demo_config (Ok \<lparr>ph_status = PS_FULL, ph_backends =
     [\<lparr>bh_ip = ''10.0.0.1'', bh_port = 80, bh_url_path = [], bh_status = BS_HEALTHY\<rparr>]\<rparr>) = Ok ()"
proof -
  let ?b = "\<lparr>bh_ip = ''10.0.0.1'', bh_port = 80, bh_url_path = [], bh_status = BS_HEALTHY\<rparr>"
  let ?ph = "\<lparr>ph_status = PS_FULL, ph_backends = [?b]\<rparr>"
  have "backend_to_string ?b = ''10.0.0.1:80''" by code_simp
  then show ?thesis
    using check_lb_state_ok [of "Ok ?ph" ?ph demo_config, OF refl] by (simp add: demo_config_def)
qed

section \<open>Canaries\<close>

text \<open>The first \<open>n\<close> actions one after the other; the first error ends it.\<close>

fun run_canaries :: "env \<Rightarrow> int \<Rightarrow> actions list \<times> ext list
    \<Rightarrow> (actions list \<times> ext list) \<times> (string \<times> act_err) option" where
  "run_canaries env n ([], h) = (([], h), None)"
| "run_canaries env n (a # as, h) =
     (if 0 < n then
        (case run_actions env (a, h) of
           ((a', h'), Some e) \<Rightarrow> ((a' # as, h'), Some (ac_endpoint a', e))
         | ((a', h'), None) \<Rightarrow>
             (case run_canaries env (n - 1) (as, h') of ((as', h''), r) \<Rightarrow> ((a' # as', h''), r)))
      else ((a # as, h), None))"

section \<open>The concurrent phase\<close>

text \<open>
  The main goroutine puts a token into \<open>limit\<close> (\<open>Sending\<close>), looks at the failures
  (\<open>Checking\<close>) and starts the goroutine of the next action, or stops; then it waits. A
  goroutine runs its action (\<open>active\<close>), counts a failure, and takes a token out
  (\<open>leaving\<close>).
\<close>

datatype phase = Sending | Checking | Waiting | Ended | PanickedAt int

record sched =
  sc_next :: int
  sc_phase :: phase
  slots :: nat
  active :: "int list"
  leaving :: nat
  launched :: "int list"
  succeeded :: "int list"
  failed :: "int list"

definition failures :: "sched \<Rightarrow> int" where
  "failures s = int (length (failed s))"

definition sched_start :: "int \<Rightarrow> sched" where
  "sched_start canary_num =
     \<lparr>sc_next = canary_num, sc_phase = Sending, slots = 0, active = [], leaving = 0,
      launched = [], succeeded = [], failed = []\<rparr>"

inductive sched_step :: "config \<Rightarrow> nat \<Rightarrow> sched \<Rightarrow> sched \<Rightarrow> bool" for cfg :: config and n :: nat where
  send: "sc_phase s = Sending \<Longrightarrow> sc_next s < int n \<Longrightarrow> int (slots s) < cf_concurrency cfg \<Longrightarrow>
     sched_step cfg n s (s\<lparr>sc_phase := Checking, slots := Suc (slots s)\<rparr>)"
| last: "sc_phase s = Sending \<Longrightarrow> \<not> sc_next s < int n \<Longrightarrow> sched_step cfg n s (s\<lparr>sc_phase := Waiting\<rparr>)"
| too_many: "sc_phase s = Checking \<Longrightarrow> failures s > cf_max_failures cfg \<Longrightarrow>
     sched_step cfg n s (s\<lparr>sc_phase := Waiting\<rparr>)"
| launch: "sc_phase s = Checking \<Longrightarrow> \<not> failures s > cf_max_failures cfg \<Longrightarrow>
     sched_step cfg n s (s\<lparr>sc_phase := Sending, active := sc_next s # active s,
       launched := launched s @ [sc_next s], sc_next := sc_next s + 1\<rparr>)"
| index_panic: "(\<forall>j. sc_phase s \<noteq> PanickedAt j) \<Longrightarrow> i \<in> set (active s) \<Longrightarrow> i < 0 \<Longrightarrow>
     sched_step cfg n s (s\<lparr>sc_phase := PanickedAt i\<rparr>)"
| finish_ok: "(\<forall>j. sc_phase s \<noteq> PanickedAt j) \<Longrightarrow> i \<in> set (active s) \<Longrightarrow> 0 \<le> i \<Longrightarrow>
     sched_step cfg n s (s\<lparr>active := remove1 i (active s), leaving := Suc (leaving s),
       succeeded := i # succeeded s\<rparr>)"
| finish_failed: "(\<forall>j. sc_phase s \<noteq> PanickedAt j) \<Longrightarrow> i \<in> set (active s) \<Longrightarrow> 0 \<le> i \<Longrightarrow>
     sched_step cfg n s (s\<lparr>active := remove1 i (active s), leaving := Suc (leaving s),
       failed := i # failed s\<rparr>)"
| release: "(\<forall>j. sc_phase s \<noteq> PanickedAt j) \<Longrightarrow> 0 < leaving s \<Longrightarrow>
     sched_step cfg n s (s\<lparr>leaving := leaving s - 1, slots := slots s - 1\<rparr>)"
| all_done: "sc_phase s = Waiting \<Longrightarrow> active s = [] \<Longrightarrow> sched_step cfg n s (s\<lparr>sc_phase := Ended\<rparr>)"

definition sched_end :: "config \<Rightarrow> sched \<Rightarrow> end_state \<times> wf_err option" where
  "sched_end cfg s =
     (if failures s > cf_max_failures cfg then (ESMaxFailures, Some ExceededMax) else (ESSuccess, None))"

text \<open>Tokens: one for every goroutine that has not released its own and one for the main goroutine.\<close>

definition slots_ok :: "config \<Rightarrow> sched \<Rightarrow> bool" where
  "slots_ok cfg s \<longleftrightarrow>
     length (active s) + leaving s + (if sc_phase s = Checking then 1 else 0) \<le> slots s
     \<and> (sc_phase s = Sending \<longrightarrow> slots s = length (active s) + leaving s)
     \<and> (sc_phase s = Checking \<longrightarrow> slots s = Suc (length (active s) + leaving s))
     \<and> int (slots s) \<le> max 0 (cf_concurrency cfg)"

definition failures_ok :: "config \<Rightarrow> sched \<Rightarrow> bool" where
  "failures_ok cfg s \<longleftrightarrow>
     (launched s \<noteq> [] \<longrightarrow> failures s + int (length (active s)) \<le> cf_max_failures cfg + cf_concurrency cfg)"

definition order_ok :: "config \<Rightarrow> nat \<Rightarrow> sched \<Rightarrow> bool" where
  "order_ok cfg n s \<longleftrightarrow>
     launched s = [cf_canary_num cfg..sc_next s - 1] \<and> cf_canary_num cfg \<le> sc_next s
     \<and> (sc_phase s = Checking \<longrightarrow> sc_next s < int n) \<and> sc_next s \<le> max (cf_canary_num cfg) (int n)"

definition counted_ok :: "sched \<Rightarrow> bool" where
  "counted_ok s \<longleftrightarrow> mset (launched s) = mset (active s) + mset (succeeded s) + mset (failed s)"

definition ending_ok :: "config \<Rightarrow> nat \<Rightarrow> sched \<Rightarrow> bool" where
  "ending_ok cfg n s \<longleftrightarrow>
     (sc_phase s = Waiting \<or> sc_phase s = Ended \<longrightarrow> int n \<le> sc_next s \<or> failures s > cf_max_failures cfg)
     \<and> (sc_phase s = Ended \<longrightarrow> active s = [])"

lemma remove1_counts:
  assumes "i \<in> set A"
  shows "mset A = add_mset i (mset (remove1 i A))" "length A = Suc (length (remove1 i A))"
  using assms length_pos_if_in_set [OF assms] by (simp_all add: length_remove1)

lemma slots_ok_step: "sched_step cfg n s s' \<Longrightarrow> slots_ok cfg s \<Longrightarrow> slots_ok cfg s'"
proof (induction rule: sched_step.induct)
  case (finish_ok s i)
  then show ?case using remove1_counts(2) [OF finish_ok(2)] by (simp add: slots_ok_def)
next
  case (finish_failed s i)
  then show ?case using remove1_counts(2) [OF finish_failed(2)] by (simp add: slots_ok_def)
qed (auto simp: slots_ok_def)

lemma failures_ok_step:
  "sched_step cfg n s s' \<Longrightarrow> slots_ok cfg s \<Longrightarrow> failures_ok cfg s \<Longrightarrow> failures_ok cfg s'"
proof (induction rule: sched_step.induct)
  case (finish_ok s i)
  then show ?case using remove1_counts(2) [OF finish_ok(2)] by (auto simp: failures_ok_def failures_def)
next
  case (finish_failed s i)
  then show ?case using remove1_counts(2) [OF finish_failed(2)] by (auto simp: failures_ok_def failures_def)
next
  case (launch s)
  then show ?case by (auto simp: failures_ok_def failures_def slots_ok_def max_def split: if_splits)
qed (auto simp: failures_ok_def failures_def)

lemma order_ok_step: "sched_step cfg n s s' \<Longrightarrow> order_ok cfg n s \<Longrightarrow> order_ok cfg n s'"
proof (induction rule: sched_step.induct)
  case (launch s)
  then show ?case by (simp add: order_ok_def upto_rec2)
qed (auto simp: order_ok_def)

lemma counted_ok_step: "sched_step cfg n s s' \<Longrightarrow> counted_ok s \<Longrightarrow> counted_ok s'"
proof (induction rule: sched_step.induct)
  case (finish_ok s i)
  have "mset (active s) = add_mset i (mset (remove1 i (active s)))" by (rule remove1_counts [OF finish_ok(2)])
  with finish_ok(4) have "mset (launched s) =
      add_mset i (mset (remove1 i (active s))) + mset (succeeded s) + mset (failed s)"
    by (simp only: counted_ok_def)
  then show ?case by (simp add: counted_ok_def del: mset_remove1)
next
  case (finish_failed s i)
  have "mset (active s) = add_mset i (mset (remove1 i (active s)))" by (rule remove1_counts [OF finish_failed(2)])
  with finish_failed(4) have "mset (launched s) =
      add_mset i (mset (remove1 i (active s))) + mset (succeeded s) + mset (failed s)"
    by (simp only: counted_ok_def)
  then show ?case by (simp add: counted_ok_def del: mset_remove1)
qed (auto simp: counted_ok_def)

lemma ending_ok_step: "sched_step cfg n s s' \<Longrightarrow> ending_ok cfg n s \<Longrightarrow> ending_ok cfg n s'"
  by (induction rule: sched_step.induct) (auto simp: ending_ok_def failures_def)

definition sched_inv :: "config \<Rightarrow> nat \<Rightarrow> sched \<Rightarrow> bool" where
  "sched_inv cfg n s \<longleftrightarrow> slots_ok cfg s \<and> failures_ok cfg s \<and> order_ok cfg n s \<and> counted_ok s \<and> ending_ok cfg n s"

lemma sched_inv_start: "sched_inv cfg n (sched_start (cf_canary_num cfg))"
  by (simp add: sched_inv_def sched_start_def slots_ok_def failures_ok_def order_ok_def counted_ok_def ending_ok_def)

lemma sched_inv_step [inv_intros]: "sched_step cfg n s s' \<Longrightarrow> sched_inv cfg n s \<Longrightarrow> sched_inv cfg n s'"
  by (simp add: sched_inv_def slots_ok_step failures_ok_step order_ok_step counted_ok_step ending_ok_step)

lemma sched_inv_reachable:
  "(sched_step cfg n)\<^sup>*\<^sup>* (sched_start (cf_canary_num cfg)) s \<Longrightarrow> sched_inv cfg n s"
  by (induction rule: rtranclp_induct) (auto intro: sched_inv_start sched_inv_step)

text \<open>What is left to do, counted in steps.\<close>

fun phase_weight :: "phase \<Rightarrow> nat" where
  "phase_weight Sending = 4"
| "phase_weight Checking = 3"
| "phase_weight Waiting = 2"
| "phase_weight Ended = 1"
| "phase_weight (PanickedAt j) = 0"

definition steps_left :: "nat \<Rightarrow> sched \<Rightarrow> nat" where
  "steps_left n s = 4 * nat (int n - sc_next s) + 2 * length (active s) + leaving s + phase_weight (sc_phase s)"

lemma steps_left_less:
  "sched_step cfg n s s' \<Longrightarrow> order_ok cfg n s \<Longrightarrow> steps_left n s' < steps_left n s"
proof (induction rule: sched_step.induct)
  case (launch s)
  then have "nat (int n - sc_next s) = Suc (nat (int n - (sc_next s + 1)))"
    by (simp add: order_ok_def) linarith
  with launch show ?case by (simp add: steps_left_def)
next
  case (index_panic s i)
  then show ?case by (cases "sc_phase s") (simp_all add: steps_left_def)
next
  case (finish_ok s i)
  then show ?case using remove1_counts(2) [OF finish_ok(2)] by (simp add: steps_left_def)
next
  case (finish_failed s i)
  then show ?case using remove1_counts(2) [OF finish_failed(2)] by (simp add: steps_left_def)
qed (simp_all add: steps_left_def)

lemma sched_progress:
  assumes "sched_inv cfg n s" "1 \<le> cf_concurrency cfg" "sc_phase s \<noteq> Ended" "\<forall>j. sc_phase s \<noteq> PanickedAt j"
  shows "\<exists>s'. sched_step cfg n s s'"
proof (cases "active s = [] \<and> leaving s = 0")
  case False
  show ?thesis
  proof (cases "active s")
    case Nil
    with False assms(4) show ?thesis using release by blast
  next
    case (Cons i js)
    then have "i \<in> set (active s)" by simp
    with assms(4) show ?thesis using index_panic finish_ok by (meson linorder_not_less)
  qed
next
  case True
  show ?thesis
  proof (cases "sc_phase s")
    case Sending
    with True assms(1) have "slots s = 0" by (simp add: sched_inv_def slots_ok_def)
    then have slot: "int (slots s) < cf_concurrency cfg" using assms(2) by simp
    show ?thesis
    proof (cases "sc_next s < int n")
      case True
      then show ?thesis using send [OF Sending _ slot] by blast
    next
      case False
      then show ?thesis using last [OF Sending] by blast
    qed
  next
    case Checking
    then show ?thesis using too_many launch by blast
  next
    case Waiting
    then show ?thesis using True all_done by blast
  qed (use assms in auto)
qed

text \<open>
  C6: In every reachable state of the concurrent phase, at most the configured number of
  upgrades run at once, no action is started twice, and once any was started the failures
  counted and the upgrades still running are together at most the failure limit plus the
  concurrency. Since a goroutine is only started while the count is within the limit, this
  bounds the number of failures by the limit plus the concurrency.
\<close>

theorem concurrent_phase_bounds:
  assumes "(sched_step cfg n)\<^sup>*\<^sup>* (sched_start (cf_canary_num cfg)) s" "1 \<le> cf_concurrency cfg"
  shows "int (length (active s)) \<le> cf_concurrency cfg \<and> distinct (launched s)
    \<and> (\<forall>i \<in> set (launched s). cf_canary_num cfg \<le> i \<and> i < max (cf_canary_num cfg) (int n))
    \<and> (launched s \<noteq> [] \<longrightarrow> failures s + int (length (active s)) \<le> cf_max_failures cfg + cf_concurrency cfg)"
  using sched_inv_reachable [OF assms(1)] assms(2)
  by (auto simp: sched_inv_def slots_ok_def failures_ok_def order_ok_def)

theorem concurrent_phase_bounds_witness:
  "\<exists>s. (sched_step demo_config 3)\<^sup>*\<^sup>* (sched_start (cf_canary_num demo_config)) s
     \<and> active s = [1] \<and> int (length (active s)) \<le> cf_concurrency demo_config"
proof -
  let ?s0 = "sched_start (cf_canary_num demo_config)"
  let ?s1 = "?s0\<lparr>sc_phase := Checking, slots := Suc (slots ?s0)\<rparr>"
  let ?s2 = "?s1\<lparr>sc_phase := Sending, active := sc_next ?s1 # active ?s1,
       launched := launched ?s1 @ [sc_next ?s1], sc_next := sc_next ?s1 + 1\<rparr>"
  have "sched_step demo_config 3 ?s0 ?s1"
    by (rule send) (simp_all add: sched_start_def demo_config_def)
  moreover have "sched_step demo_config 3 ?s1 ?s2"
    by (rule launch) (simp_all add: sched_start_def demo_config_def failures_def)
  ultimately have r: "(sched_step demo_config 3)\<^sup>*\<^sup>* ?s0 ?s2" by simp
  have c: "1 \<le> cf_concurrency demo_config" by (simp add: demo_config_def)
  have "active ?s2 = [1]" by (simp add: sched_start_def demo_config_def)
  with concurrent_phase_bounds [OF r c] r show ?thesis by blast
qed

text \<open>
  C7: With a positive concurrency the concurrent phase always ends: every step decreases
  the work left, and only an ended phase (or a crashed one) has no next step. When it ends
  within the failure limit, every action from the canary number on was run exactly once and
  returned; otherwise the workflow reports too many failures.
\<close>

theorem concurrent_phase_ends:
  assumes "(sched_step cfg n)\<^sup>*\<^sup>* (sched_start (cf_canary_num cfg)) s" "1 \<le> cf_concurrency cfg"
  shows "(\<forall>s'. sched_step cfg n s s' \<longrightarrow> steps_left n s' < steps_left n s)
    \<and> (sc_phase s \<noteq> Ended \<and> (\<forall>j. sc_phase s \<noteq> PanickedAt j) \<longrightarrow> (\<exists>s'. sched_step cfg n s s'))
    \<and> (sc_phase s = Ended \<longrightarrow>
         (sched_end cfg s = (ESSuccess, None)
            \<and> mset (succeeded s) + mset (failed s) = mset [cf_canary_num cfg..int n - 1])
         \<or> sched_end cfg s = (ESMaxFailures, Some ExceededMax) \<and> failures s > cf_max_failures cfg)"
proof -
  have i: "sched_inv cfg n s" using sched_inv_reachable [OF assms(1)] .
  then have o: "order_ok cfg n s" by (simp add: sched_inv_def)
  have "mset (succeeded s) + mset (failed s) = mset [cf_canary_num cfg..int n - 1]"
    if "sc_phase s = Ended" "\<not> failures s > cf_max_failures cfg"
  proof -
    have "active s = []" "int n \<le> sc_next s" using i that by (auto simp: sched_inv_def ending_ok_def)
    moreover have "[cf_canary_num cfg..sc_next s - 1] = [cf_canary_num cfg..int n - 1]"
    proof (cases "cf_canary_num cfg \<le> int n")
      case True
      with o \<open>int n \<le> sc_next s\<close> have "sc_next s = int n" by (simp add: order_ok_def)
      then show ?thesis by simp
    next
      case False
      with o have "sc_next s = cf_canary_num cfg" by (simp add: order_ok_def)
      with False show ?thesis by simp
    qed
    ultimately show ?thesis using i by (auto simp: sched_inv_def counted_ok_def order_ok_def)
  qed
  then show ?thesis
    using steps_left_less [OF _ o] sched_progress [OF i assms(2)] by (auto simp: sched_end_def)
qed

theorem concurrent_phase_ends_witness:
  "\<exists>s. (sched_step demo_config 1)\<^sup>*\<^sup>* (sched_start (cf_canary_num demo_config)) s \<and> sc_phase s = Ended
     \<and> sched_end demo_config s = (ESSuccess, None)"
proof -
  let ?s0 = "sched_start (cf_canary_num demo_config)"
  let ?s1 = "?s0\<lparr>sc_phase := Waiting\<rparr>"
  let ?s2 = "?s1\<lparr>sc_phase := Ended\<rparr>"
  have "sched_step demo_config 1 ?s0 ?s1" by (rule last) (simp_all add: sched_start_def demo_config_def)
  moreover have "sched_step demo_config 1 ?s1 ?s2" by (rule all_done) (simp_all add: sched_start_def)
  ultimately have r: "(sched_step demo_config 1)\<^sup>*\<^sup>* ?s0 ?s2" by simp
  have c: "1 \<le> cf_concurrency demo_config" by (simp add: demo_config_def)
  have "\<not> failures ?s2 > cf_max_failures demo_config"
    by (simp add: failures_def sched_start_def demo_config_def)
  with concurrent_phase_ends [OF r c] r show ?thesis by auto
qed

text \<open>A launched action with a negative index stays active until its goroutine panics.\<close>

lemma negative_stays:
  "sched_step cfg n s s' \<Longrightarrow> i \<in> set (active s) \<Longrightarrow> i < 0 \<Longrightarrow>
     i \<in> set (active s') \<and> sc_phase s' \<noteq> Ended \<or> sc_phase s = Ended"
proof (induction rule: sched_step.induct)
  case (finish_ok s j)
  then show ?case by (cases "sc_phase s") (auto simp: in_set_remove1)
next
  case (finish_failed s j)
  then show ?case by (cases "sc_phase s") (auto simp: in_set_remove1)
next
  case (release s)
  then show ?case by (cases "sc_phase s") auto
qed auto

text \<open>
  A configuration with a negative number of canaries and a failure limit that is not
  negative passes the validation, but the concurrent phase can then never end: it starts
  with an action of negative index, whose goroutine can only panic, and some schedule leads
  to that panic.
\<close>

theorem negative_canary_number_never_ends:
  assumes "cf_canary_num cfg < 0" "0 \<le> cf_max_failures cfg" "1 \<le> cf_concurrency cfg"
  shows "(\<forall>s. (sched_step cfg n)\<^sup>*\<^sup>* (sched_start (cf_canary_num cfg)) s \<longrightarrow> sc_phase s \<noteq> Ended)
    \<and> (\<exists>s. (sched_step cfg n)\<^sup>*\<^sup>* (sched_start (cf_canary_num cfg)) s
          \<and> sc_phase s = PanickedAt (cf_canary_num cfg))"
proof -
  let ?c = "cf_canary_num cfg"
  let ?s0 = "sched_start ?c"
  let ?s1 = "?s0\<lparr>sc_phase := Checking, slots := Suc (slots ?s0)\<rparr>"
  let ?s2 = "?s1\<lparr>sc_phase := Sending, active := sc_next ?s1 # active ?s1,
       launched := launched ?s1 @ [sc_next ?s1], sc_next := sc_next ?s1 + 1\<rparr>"
  let ?s3 = "?s2\<lparr>sc_phase := PanickedAt ?c\<rparr>"
  have "sched_step cfg n ?s0 ?s1"
    by (rule send) (use assms in \<open>simp_all add: sched_start_def\<close>)
  moreover have "sched_step cfg n ?s1 ?s2"
    by (rule launch) (use assms in \<open>simp_all add: sched_start_def failures_def\<close>)
  moreover have "sched_step cfg n ?s2 ?s3"
    by (rule index_panic) (use assms in \<open>simp_all add: sched_start_def\<close>)
  ultimately have "(sched_step cfg n)\<^sup>*\<^sup>* ?s0 ?s3"
    by (meson converse_rtranclp_into_rtranclp rtranclp.rtrancl_refl)
  then have panic: "\<exists>s. (sched_step cfg n)\<^sup>*\<^sup>* ?s0 s \<and> sc_phase s = PanickedAt ?c" by force
  have "sc_phase s \<noteq> Ended \<and> (s = ?s0 \<or> s = ?s1 \<or> ?c \<in> set (active s))"
    if "(sched_step cfg n)\<^sup>*\<^sup>* ?s0 s" for s
    using that
  proof (induction rule: rtranclp_induct)
    case base
    then show ?case by (simp add: sched_start_def)
  next
    case (step s s')
    consider "s = ?s0" | "s = ?s1" | "?c \<in> set (active s)" using step.IH by blast
    then show ?case
    proof cases
      case 1
      from step.hyps(2) show ?thesis
        by (cases rule: sched_step.cases) (use 1 assms in \<open>auto simp: sched_start_def\<close>)
    next
      case 2
      from step.hyps(2) show ?thesis
        by (cases rule: sched_step.cases) (use 2 assms in \<open>auto simp: sched_start_def failures_def\<close>)
    next
      case 3
      then show ?thesis using negative_stays [OF step.hyps(2) 3 assms(1)] step.IH by blast
    qed
  qed
  with panic show ?thesis by blast
qed

theorem negative_canary_number_never_ends_witness:
  "\<exists>cfg s. validate_config cfg = Ok () \<and> (sched_step cfg 1)\<^sup>*\<^sup>* (sched_start (cf_canary_num cfg)) s
     \<and> sc_phase s = PanickedAt (- 5)"
proof -
  let ?c = "demo_config\<lparr>cf_canary_num := - 5\<rparr>"
  have "validate_config ?c = Ok ()"
    using demo_addr trim_slash by (simp add: validate_config_ok demo_config_def)
  moreover have "cf_canary_num ?c = - 5" "0 \<le> cf_max_failures ?c" "1 \<le> cf_concurrency ?c"
    by (simp_all add: demo_config_def)
  ultimately show ?thesis using negative_canary_number_never_ends [of ?c 1] by fastforce
qed

section \<open>A whole run\<close>

text \<open>\<open>Status\<close>: the actions that carry an error, by their place in the list of actions.\<close>

definition status_failures :: "workflow \<Rightarrow> nat list" where
  "status_failures w = filter (\<lambda>i. ac_err (wf_actions w ! i) \<noteq> None) [0..<length (wf_actions w)]"

text \<open>
  The actions after the goroutines of the concurrent phase: each that was launched is the
  result of one run, whatever the outside answered to it, and the others are unchanged.
\<close>

definition results_in :: "sched \<Rightarrow> actions list \<Rightarrow> actions list \<Rightarrow> bool" where
  "results_in s as as' \<longleftrightarrow>
     length as' = length as
     \<and> (\<forall>i < length as.
          if int i \<in> set (launched s)
          then (\<exists>env h h' r. run_actions env (as ! i, h) = ((as' ! i, h'), r) \<and> (r \<noteq> None \<longleftrightarrow> int i \<in> set (failed s)))
          else as' ! i = as ! i)"

inductive wf_run :: "env \<Rightarrow> (lb_err, pool_health) outcome \<Rightarrow> workflow \<times> ext list
    \<Rightarrow> workflow \<times> wf_err option \<Rightarrow> bool" for env health where
  precondition: "check_lb_state (wf_config w) health = Err e \<Longrightarrow>
     wf_run env health (w, h) (w\<lparr>wf_end := ESPreconditionFailure\<rparr>, Some e)"
| canary: "check_lb_state (wf_config w) health = Ok () \<Longrightarrow>
     run_canaries env (cf_canary_num (wf_config w)) (wf_actions w, h) = ((as, h'), Some (ep, e)) \<Longrightarrow>
     wf_run env health (w, h) (w\<lparr>wf_actions := as, wf_end := ESCanaryFailure\<rparr>, Some (CanaryFailed ep e))"
| rollout: "check_lb_state (wf_config w) health = Ok () \<Longrightarrow>
     run_canaries env (cf_canary_num (wf_config w)) (wf_actions w, h) = ((as, h'), None) \<Longrightarrow>
     (sched_step (wf_config w) (length as))\<^sup>*\<^sup>* (sched_start (cf_canary_num (wf_config w))) s \<Longrightarrow>
     sc_phase s = Ended \<Longrightarrow> results_in s as as' \<Longrightarrow> sched_end (wf_config w) s = (es, r) \<Longrightarrow>
     wf_run env health (w, h)
       (w\<lparr>wf_actions := as', wf_failures := wf_failures w + failures s, wf_end := es\<rparr>, r)"

lemma run_actions_err:
  "run_actions env (a, h) = ((a', h'), r) \<Longrightarrow>
     ac_err a' = (case r of None \<Rightarrow> ac_err a | Some e \<Rightarrow> Some e) \<and> ac_endpoint a' = ac_endpoint a"
  by (auto simp: run_actions_def Let_def same_setup_def split: if_splits option.splits dest!: run_from_frame)

lemma results_in_err:
  assumes "results_in s as as'" "i < length as" "ac_err (as ! i) = None" "set (failed s) \<subseteq> set (launched s)"
  shows "ac_err (as' ! i) \<noteq> None \<longleftrightarrow> int i \<in> set (failed s)"
proof (cases "int i \<in> set (launched s)")
  case True
  then obtain env h h' r where "run_actions env (as ! i, h) = ((as' ! i, h'), r)"
      "r \<noteq> None \<longleftrightarrow> int i \<in> set (failed s)"
    using assms(1,2) unfolding results_in_def by metis
  then show ?thesis using run_actions_err [of env "as ! i" h "as' ! i" h' r] assms(3) by (cases r) simp_all
next
  case False
  then have "as' ! i = as ! i" using assms(1,2) by (simp add: results_in_def)
  then show ?thesis using False assms(3,4) by auto
qed

lemma run_canaries_ok:
  "run_canaries env n (as, h) = ((as', h'), None) \<Longrightarrow> map ac_err as' = map ac_err as"
proof (induction env n "(as, h)" arbitrary: as h as' h' rule: run_canaries.induct)
  case (1 env n h)
  then show ?case by simp
next
  case (2 env n a as h)
  show ?case
  proof (cases "0 < n")
    case False
    then show ?thesis using "2.prems" by auto
  next
    case True
    obtain b k r where run: "run_actions env (a, h) = ((b, k), r)" by (metis prod.exhaust)
    then have r: "r = None" using "2.prems" True by (cases r) auto
    obtain as1 h1 q where rest: "run_canaries env (n - 1) (as, k) = ((as1, h1), q)" by (metis prod.exhaust)
    have q: "q = None" "as' = b # as1" using "2.prems" True run r rest by auto
    have "map ac_err as1 = map ac_err as"
      using "2.hyps" [OF True run [symmetric] refl r] rest q(1) by simp
    then show ?thesis using run_actions_err [OF run] r q(2) by simp
  qed
qed

lemma failed_indices:
  assumes "sched_inv cfg n s" "0 \<le> cf_canary_num cfg" "cf_canary_num cfg \<le> int n"
  shows "distinct (failed s)" "\<forall>i \<in> set (failed s). 0 \<le> i \<and> i < int n" "set (failed s) \<subseteq> set (launched s)"
proof -
  have l: "mset (launched s) = mset (active s) + mset (succeeded s) + mset (failed s)"
    "launched s = [cf_canary_num cfg..sc_next s - 1]" "sc_next s \<le> int n"
    using assms by (auto simp: sched_inv_def counted_ok_def order_ok_def)
  have "count (mset (failed s)) a \<le> count (mset (launched s)) a" for a by (simp add: l(1))
  moreover have "count (mset (launched s)) a \<le> 1" for a
    using distinct_count_atmost_1 [of "launched s"] by (simp add: l(2))
  ultimately have "count (mset (failed s)) a \<le> 1" for a by (meson order_trans)
  then show "distinct (failed s)"
    unfolding distinct_count_atmost_1 by (metis count_eq_zero_iff le_antisym less_one linorder_not_less set_mset_mset)
  show sub: "set (failed s) \<subseteq> set (launched s)" using l(1) by (metis Un_iff set_mset_mset set_mset_union subsetI)
  show "\<forall>i \<in> set (failed s). 0 \<le> i \<and> i < int n" using sub l(2,3) assms(2) by auto
qed

lemma length_filter_upt: "length (filter P [0..<n]) = card {i. i < n \<and> P i}"
proof -
  have "card (set (filter P [0..<n])) = length (filter P [0..<n])" by (rule distinct_card) simp
  moreover have "set (filter P [0..<n]) = {i. i < n \<and> P i}" by auto
  ultimately show ?thesis by simp
qed

lemma card_failed:
  assumes "distinct fs" and "\<forall>i \<in> set fs. 0 \<le> i \<and> i < int n"
  shows "length (filter (\<lambda>i. int i \<in> set fs) [0..<n]) = length fs"
proof -
  have "int ` {i. i < n \<and> int i \<in> set fs} = set fs"
  proof (intro equalityI subsetI)
    fix i assume i: "i \<in> set fs"
    with assms(2) have b: "0 \<le> i" "i < int n" by simp_all
    then have "nat i < n" "int (nat i) = i" by linarith+
    with i show "i \<in> int ` {i. i < n \<and> int i \<in> set fs}"
      by (intro image_eqI [of _ _ "nat i"]) simp_all
  qed auto
  moreover have "card {i. i < n \<and> int i \<in> set fs} = card (int ` {i. i < n \<and> int i \<in> set fs})"
    by (simp add: card_image)
  ultimately show ?thesis using assms(1) by (simp add: length_filter_upt distinct_card)
qed


text \<open>A rollout of one server, which is its own canary.\<close>

definition demo_wf :: workflow where
  "demo_wf = \<lparr>wf_config = demo_config, wf_failures = 0, wf_end = ESUnknown, wf_actions = [demo_act]\<rparr>"

definition demo_health :: pool_health where
  "demo_health = \<lparr>ph_status = PS_FULL, ph_backends =
     [\<lparr>bh_ip = ''10.0.0.1'', bh_port = 80, bh_url_path = [], bh_status = BS_HEALTHY\<rparr>]\<rparr>"

lemma demo_wf_run: "\<exists>as. length as = 1 \<and> wf_run demo_env (Ok demo_health) (demo_wf, [])
     (demo_wf\<lparr>wf_actions := as, wf_failures := 0, wf_end := ESSuccess\<rparr>, None)"
proof -
  obtain as h' r where can: "run_canaries demo_env 1 ([demo_act], []) = ((as, h'), r)" by (metis prod.exhaust)
  obtain a k q where run: "run_actions demo_env (demo_act, []) = ((a, k), q)" by (metis prod.exhaust)
  have "q = None" using demo_run run by simp
  then have as: "as = [a]" "r = None" using can run by simp_all
  obtain s where s: "(sched_step demo_config 1)\<^sup>*\<^sup>* (sched_start (cf_canary_num demo_config)) s"
      "sc_phase s = Ended" "failed s = []" "launched s = []"
  proof -
    let ?s0 = "sched_start (cf_canary_num demo_config)"
    let ?s1 = "?s0\<lparr>sc_phase := Waiting\<rparr>"
    let ?s2 = "?s1\<lparr>sc_phase := Ended\<rparr>"
    have "sched_step demo_config 1 ?s0 ?s1" by (rule last) (simp_all add: sched_start_def demo_config_def)
    moreover have "sched_step demo_config 1 ?s1 ?s2" by (rule all_done) (simp_all add: sched_start_def)
    ultimately have "(sched_step demo_config 1)\<^sup>*\<^sup>* ?s0 ?s2" by simp
    then show ?thesis by (rule that) (simp_all add: sched_start_def)
  qed
  have "check_lb_state demo_config (Ok demo_health) = Ok ()" by code_simp
  then have "wf_run demo_env (Ok demo_health) (demo_wf, [])
      (demo_wf\<lparr>wf_actions := as, wf_failures := wf_failures demo_wf + failures s, wf_end := ESSuccess\<rparr>, None)"
    using can as s by (intro rollout [where s = s and as = as])
      (simp_all add: demo_wf_def results_in_def sched_end_def failures_def demo_config_def)
  then show ?thesis using as s(3) by (intro exI [of _ as]) (simp add: failures_def demo_wf_def)
qed


section \<open>Retries\<close>

text \<open>
  The goroutines of \<open>RetryFailed\<close> share the loop variable: each reads it when it runs, so
  the goroutine started in round k reads a value from k up to the number of failures.
\<close>

definition retry_reads :: "nat \<Rightarrow> nat list \<Rightarrow> bool" where
  "retry_reads n rs \<longleftrightarrow> length rs = n \<and> (\<forall>k < n. k \<le> rs ! k \<and> rs ! k \<le> n)"

fun retry_loop :: "env \<Rightarrow> nat list \<Rightarrow> nat list \<Rightarrow> workflow \<times> ext list
    \<Rightarrow> (workflow \<times> ext list) \<times> (wf_err, unit) outcome" where
  "retry_loop env fs [] (w, h) = ((w, h), Ok ())"
| "retry_loop env fs (r # rs) (w, h) =
     (if r < length fs then
        (case run_actions env (wf_actions w ! (fs ! r), h) of
           ((a, h'), e) \<Rightarrow>
             retry_loop env fs rs
               (w\<lparr>wf_actions := (wf_actions w)[fs ! r := a],
                  wf_failures := (if e = None then wf_failures w - 1 else wf_failures w)\<rparr>, h'))
      else ((w, h), Panics IndexOutOfRange))"

definition retry_failed :: "env \<Rightarrow> nat list \<Rightarrow> workflow \<times> ext list
    \<Rightarrow> (workflow \<times> ext list) \<times> (wf_err, unit) outcome" where
  "retry_failed env rs c =
     (if wf_end (fst c) \<noteq> ESSuccess
      then (c, Panics (PanicMsg ''retrlyFailed cannot be called unless the workflow was a success''))
      else retry_loop env (status_failures (fst c)) rs c)"

text \<open>The three rounds of \<open>main\<close>; the result says whether it stopped before the last one.\<close>

fun main_retries :: "env \<Rightarrow> nat list list \<Rightarrow> workflow \<times> ext list
    \<Rightarrow> (workflow \<times> ext list) \<times> (wf_err, bool) outcome" where
  "main_retries env [] c = (c, Ok False)"
| "main_retries env (rs # rss) c =
     (case retry_failed env rs c of
        (c', Ok _) \<Rightarrow> if status_failures (fst c') = [] then (c', Ok True) else main_retries env rss c'
      | (c', Err e) \<Rightarrow> (c', Err e)
      | (c', Panics p) \<Rightarrow> (c', Panics p)
      | (c', Blocked) \<Rightarrow> (c', Blocked))"

lemma retry_loop_errs:
  "retry_loop env fs rs (w, h) = ((w', h'), oc) \<Longrightarrow>
     length (wf_actions w') = length (wf_actions w) \<and> wf_end w' = wf_end w
     \<and> (\<forall>i < length (wf_actions w). ac_err (wf_actions w ! i) \<noteq> None \<longrightarrow> ac_err (wf_actions w' ! i) \<noteq> None)"
proof (induction rs arbitrary: w h)
  case Nil
  then show ?case by simp
next
  case (Cons r rs)
  show ?case
  proof (cases "r < length fs")
    case False
    then show ?thesis using Cons.prems by auto
  next
    case True
    obtain a k e where run: "run_actions env (wf_actions w ! (fs ! r), h) = ((a, k), e)" by (metis prod.exhaust)
    let ?w = "w\<lparr>wf_actions := (wf_actions w)[fs ! r := a],
        wf_failures := (if e = None then wf_failures w - 1 else wf_failures w)\<rparr>"
    have "retry_loop env fs rs (?w, k) = ((w', h'), oc)" using Cons.prems True run by simp
    note IH = Cons.IH [OF this]
    have "ac_err (wf_actions ?w ! i) \<noteq> None" if "i < length (wf_actions w)" "ac_err (wf_actions w ! i) \<noteq> None" for i
      using that run_actions_err [OF run] by (cases "i = fs ! r") (auto split: option.splits)
    with IH show ?thesis by simp
  qed
qed

lemma retry_failed_keeps:
  assumes "retry_failed env rs (w, h) = ((w', h'), oc)"
  shows "set (status_failures w) \<subseteq> set (status_failures w')" "wf_end w' = wf_end w"
  using assms retry_loop_errs [of env "status_failures w" rs w h w' h' oc]
  by (auto simp: retry_failed_def status_failures_def split: if_splits)

lemma main_retries_keep:
  "main_retries env rss (w, h) = ((w', h'), oc) \<Longrightarrow> status_failures w \<noteq> [] \<Longrightarrow>
     set (status_failures w) \<subseteq> set (status_failures w') \<and> oc \<noteq> Ok True"
proof (induction rss arbitrary: w h)
  case Nil
  then show ?case by auto
next
  case (Cons rs rss)
  obtain w1 h1 r where one: "retry_failed env rs (w, h) = ((w1, h1), r)" by (metis prod.exhaust)
  note keep = retry_failed_keeps(1) [OF one]
  then have ne: "status_failures w1 \<noteq> []" using Cons.prems(2) by auto
  show ?case
  proof (cases "r = Ok ()")
    case True
    then have "main_retries env rss (w1, h1) = ((w', h'), oc)" using Cons.prems(1) one ne by simp
    from Cons.IH [OF this ne] keep show ?thesis by blast
  next
    case False
    then show ?thesis using Cons.prems(1) one keep by (cases r) auto
  qed
qed

lemma full_reads:
  assumes "retry_reads n rs" "{..<n} \<subseteq> set rs"
  shows "rs = [0..<n]"
proof -
  have len: "length rs = n" and lo: "\<And>k. k < n \<Longrightarrow> k \<le> rs ! k" using assms(1) by (auto simp: retry_reads_def)
  have "rs ! k = k" if "k < n" for k
    using that
  proof (induction k rule: less_induct)
    case (less k)
    then obtain j where j: "j < n" "rs ! j = k"
      using assms(2) len by (metis in_set_conv_nth lessThan_iff subsetD)
    with lo have "j \<le> k" by auto
    moreover have "j \<noteq> i" if "i < k" for i using less.IH [OF that] that j less.prems by auto
    ultimately have "j = k" by (meson nat_neq_iff linorder_not_less)
    with j show ?case by simp
  qed
  then show ?thesis using len by (intro nth_equalityI) simp_all
qed

text \<open>
  C0: The retries of \<open>main\<close> never clear a failure: an action that is listed as failed
  before a round is listed after it, so with a failed action \<open>main\<close> never stops early and
  reports it after the last round even if its retry succeeded. Moreover a round retries
  every failed action without a panic only if each goroutine reads the loop variable before
  the loop moves on; any other timing skips an action, or indexes past the end.
\<close>

theorem retries_never_clear_failures:
  assumes "status_failures w \<noteq> []" "main_retries env rss (w, h) = ((w', h'), oc)"
    and "retry_reads (length (status_failures w)) rs" "rs \<noteq> [0..<length (status_failures w)]"
  shows "set (status_failures w) \<subseteq> set (status_failures w') \<and> oc \<noteq> Ok True
    \<and> ((\<exists>k < length (status_failures w). k \<notin> set rs) \<or> length (status_failures w) \<in> set rs)"
proof -
  have "\<not> {..<length (status_failures w)} \<subseteq> set rs" using full_reads [OF assms(3)] assms(4) by blast
  then show ?thesis using main_retries_keep [OF assms(2,1)] by auto
qed

theorem retries_never_clear_failures_witness:
  "\<exists>w w' h' oc. main_retries demo_env [[0], [0], [0]] (w, []) = ((w', h'), oc)
     \<and> oc \<noteq> Ok True \<and> 0 \<in> set (status_failures w')"
proof -
  define w where "w = demo_wf\<lparr>wf_actions := [demo_act\<lparr>ac_err := Some CopyFailed\<rparr>], wf_end := ESSuccess\<rparr>"
  have f: "status_failures w = [0]" by (simp add: w_def status_failures_def)
  obtain w' h' oc where run: "main_retries demo_env [[0], [0], [0]] (w, []) = ((w', h'), oc)" by (metis prod.exhaust)
  have ne: "status_failures w \<noteq> []" by (simp add: f)
  have reads: "retry_reads (length (status_failures w)) [1]" "[1] \<noteq> [0..<length (status_failures w)]"
    by (simp_all add: f retry_reads_def)
  from retries_never_clear_failures [OF ne run reads] run f show ?thesis by auto
qed

section \<open>The pool of the rollout\<close>

text \<open>
  \<open>main\<close> makes sure that the load balancer has the pool \<open>/\<close>, whatever pattern the
  configuration names.
\<close>

definition main_checks :: client_checks where
  "main_checks = \<lparr>cc_checks = [ClientStatusCheck ''/healthz'' [''ok'', ''OK'']], cc_interval = 5000000000\<rparr>"

definition ensure_pool :: "net_env \<Rightarrow> load_balancer \<Rightarrow> load_balancer \<times> (lb_err, unit) outcome" where
  "ensure_pool env l =
     (case client_pool_health ''/'' False False l of
        Ok _ \<Rightarrow> (l, Ok ())
      | _ \<Rightarrow> client_add_pool env ''/'' 1 main_checks l)"

lemma main_checks_pb: "checks_to_pb main_checks = ([StatusCheckPB ''/healthz'' [''ok'', ''OK'']], 5)"
  by code_simp

lemma ensure_pool_ok:
  assumes "lb_inv l"
  shows "snd (ensure_pool env l) = Ok () \<and> lb_inv (fst (ensure_pool env l))
    \<and> map_of (pools (fst (ensure_pool env l))) ''/'' \<noteq> None"
proof (cases "map_of (pools l) ''/''")
  case (Some p)
  then show ?thesis
    using assms by (simp add: ensure_pool_def client_pool_health_def grpc_pool_health_def lb_pool_health_def)
next
  case None
  then have e: "ensure_pool env l = client_add_pool env ''/'' 1 main_checks l"
    by (simp add: ensure_pool_def client_pool_health_def grpc_pool_health_def lb_pool_health_def)
  let ?r = "grpc_add_pool env \<lparr>apr_pattern = ''/'', apr_pool_type = 1,
      apr_checks = Some ([StatusCheckPB ''/healthz'' [''ok'', ''OK'']], 5)\<rparr> l"
  have "map_of (mux l) ''/'' = None" using assms None by (simp add: lb_inv_def)
  then have "snd ?r = Ok () \<and> map_of (pools (fst ?r)) ''/'' \<noteq> None"
    using None by (simp add: grpc_add_pool_def trim_slash status_check_def lb_add_pool_def mux_handle_def Let_def)
  moreover have "lb_inv (fst ?r)" using assms by (rule lb_inv_grpc_add_pool)
  ultimately show ?thesis unfolding e client_add_pool_def main_checks_pb by blast
qed

end
