(* ===== verification/Pet_Storage.thy ===== *)
theory Pet_Storage
  imports Go_Prelude "HOL-Library.Product_Lexorder"
begin

text \<open>
  What the storages of the pet store share (\<open>petstore/server/storage/storage.go\<close>): pets,
  their validation, and the conversion of a birthday to a time. A \<open>time.Time\<close> at midnight
  UTC is its year, month and day, ordered lexicographically.
\<close>

section \<open>Dates\<close>

record date =
  d_year :: int
  d_month :: int
  d_day :: int

datatype go_time = Midnight (t_year: int) (t_month: int) (t_day: int)

instantiation go_time :: linorder
begin

definition less_eq_go_time :: "go_time \<Rightarrow> go_time \<Rightarrow> bool" where
  "a \<le> b \<longleftrightarrow> (t_year a, t_month a, t_day a) \<le> (t_year b, t_month b, t_day b)"

definition less_go_time :: "go_time \<Rightarrow> go_time \<Rightarrow> bool" where
  "a < b \<longleftrightarrow> (t_year a, t_month a, t_day a) < (t_year b, t_month b, t_day b)"

instance
proof
  fix a b c :: go_time
  show "(a < b) = (a \<le> b \<and> \<not> b \<le> a)" by (auto simp: less_eq_go_time_def less_go_time_def)
  show "a \<le> a" by (simp add: less_eq_go_time_def)
  show "a \<le> b \<Longrightarrow> b \<le> c \<Longrightarrow> a \<le> c" unfolding less_eq_go_time_def by (rule order_trans)
  show "a \<le> b \<Longrightarrow> b \<le> a \<Longrightarrow> a = b"
    unfolding less_eq_go_time_def by (drule (1) antisym) (simp add: go_time.expand)
  show "a \<le> b \<or> b \<le> a" unfolding less_eq_go_time_def by (rule linear)
qed

end

definition is_leap :: "int \<Rightarrow> bool" where
  "is_leap y \<longleftrightarrow> y mod 4 = 0 \<and> (y mod 100 \<noteq> 0 \<or> y mod 400 = 0)"

definition days_in :: "int \<Rightarrow> int \<Rightarrow> int" where
  "days_in y m =
     (if m = 2 then (if is_leap y then 29 else 28)
      else if m = 4 \<or> m = 6 \<or> m = 9 \<or> m = 11 then 30 else 31)"

text \<open>
  \<open>time.Date\<close> for a month from 1 to 12 and a day from 1 to 31: a day the month does not
  have is carried into the next month.
\<close>

definition go_date :: "int \<Rightarrow> int \<Rightarrow> int \<Rightarrow> go_time" where
  "go_date y m d =
     (if d \<le> days_in y m then Midnight y m d
      else if m = 12 then Midnight (y + 1) 1 (d - days_in y m)
      else Midnight y (m + 1) (d - days_in y m))"

text \<open>The zero value of \<open>time.Time\<close>.\<close>

definition zero_time :: go_time where
  "zero_time = Midnight 1 1 1"

section \<open>Pets\<close>

record pet =
  p_id :: string
  p_name :: string
  p_type :: int
  p_birthday :: "date option"

datatype pet_err =
    IdMissing
  | IdSet
  | NoName
  | UnknownType
  | BadMonth int
  | BadDay int
  | NoSuchDay int int
  | BadBirthday string pet_err
  | IdPresent string
  | IdAbsent string
  | SearchUnknownType
  | StartNil
  | EndNil
  | StartBad pet_err
  | EndBad pet_err
  | SendFailed
  | Cancelled
  | BadSampler
  | BadRatio

definition birthday_to_time :: "date option \<Rightarrow> (pet_err, go_time) outcome" where
  "birthday_to_time bd =
     (case bd of
        None \<Rightarrow> Panics NilDeref
      | Some d \<Rightarrow>
          if d_month d < 1 \<or> d_month d > 12 then Err (BadMonth (d_month d))
          else if d_day d < 1 \<or> d_day d > 31 then Err (BadDay (d_day d))
          else (let t = go_date (d_year d) (d_month d) (d_day d)
                in if t_month t \<noteq> d_month d then Err (NoSuchDay (d_month d) (d_day d)) else Ok t))"

text \<open>\<open>ValidatePet\<close> trims the name of the pet it is given, also when it then fails.\<close>

definition validate_pet :: "bool \<Rightarrow> pet \<Rightarrow> pet \<times> (pet_err, unit) outcome" where
  "validate_pet for_update p =
     (if for_update \<and> p_id p = [] then (p, Err IdMissing)
      else if \<not> for_update \<and> p_id p \<noteq> [] then (p, Err IdSet)
      else let p1 = p\<lparr>p_name := trim_space (p_name p)\<rparr>
           in (p1,
               if p_name p1 = [] then Err NoName
               else if p_type p1 = 0 then Err UnknownType
               else then_ok (map_err (BadBirthday (p_name p1)) (birthday_to_time (p_birthday p1)))
                      (\<lambda>_. Ok ())))"

definition valid_date :: "date \<Rightarrow> bool" where
  "valid_date d \<longleftrightarrow> 1 \<le> d_month d \<and> d_month d \<le> 12 \<and> 1 \<le> d_day d \<and> d_day d \<le> days_in (d_year d) (d_month d)"

definition date_of :: "go_time \<Rightarrow> date" where
  "date_of t = \<lparr>d_year = t_year t, d_month = t_month t, d_day = t_day t\<rparr>"

lemma days_in_bounds: "28 \<le> days_in y m" "days_in y m \<le> 31"
  by (simp_all add: days_in_def)

lemma days_le_31: "x \<le> days_in y m \<Longrightarrow> x \<le> 31"
  using days_in_bounds(2) [of y m] by linarith

lemma birthday_to_time_Ok:
  "birthday_to_time bd = Ok t \<longleftrightarrow> (\<exists>d. bd = Some d \<and> valid_date d \<and> t = Midnight (d_year d) (d_month d) (d_day d))"
  by (auto simp: birthday_to_time_def valid_date_def go_date_def Let_def
      split: option.splits if_splits dest: days_le_31)

lemma validate_pet_Ok:
  "snd (validate_pet u p) = Ok () \<longleftrightarrow>
     (if u then p_id p \<noteq> [] else p_id p = []) \<and> trim_space (p_name p) \<noteq> [] \<and> p_type p \<noteq> 0
     \<and> (\<exists>d. p_birthday p = Some d \<and> valid_date d)"
  by (auto simp: validate_pet_def Let_def then_ok_eq_Ok map_err_eq_Ok birthday_to_time_Ok)

text \<open>
  C33: A birthday converts exactly if it is a real date of the Gregorian calendar, into the
  time of that very day, so different birthdays stay different and the birthday can be read
  back; a missing birthday is not refused but crashes. A pet is accepted exactly if its id
  is set for an update and not set otherwise, its trimmed name is not empty, its type is
  known and its birthday is a real date.
\<close>

theorem pet_validation:
  assumes "valid_date d"
  shows "birthday_to_time (Some d) = Ok (Midnight (d_year d) (d_month d) (d_day d))
    \<and> date_of (Midnight (d_year d) (d_month d) (d_day d)) = d
    \<and> (\<forall>d' t. birthday_to_time (Some d') = Ok t \<longrightarrow> valid_date d' \<and> date_of t = d')
    \<and> birthday_to_time None = Panics NilDeref
    \<and> (\<forall>u p. snd (validate_pet u p) = Ok () \<longleftrightarrow>
         (if u then p_id p \<noteq> [] else p_id p = []) \<and> trim_space (p_name p) \<noteq> [] \<and> p_type p \<noteq> 0
         \<and> (\<exists>b. p_birthday p = Some b \<and> valid_date b))"
  using assms
  by (auto simp: birthday_to_time_Ok validate_pet_Ok date_of_def birthday_to_time_def [of None])

theorem pet_validation_witness:
  "birthday_to_time (Some \<lparr>d_year = 2020, d_month = 2, d_day = 29\<rparr>) = Ok (Midnight 2020 2 29)
   \<and> is_ok (birthday_to_time (Some \<lparr>d_year = 2021, d_month = 2, d_day = 29\<rparr>)) = False"
proof -
  have v: "valid_date \<lparr>d_year = 2020, d_month = 2, d_day = 29\<rparr>"
    by (simp add: valid_date_def days_in_def is_leap_def)
  have "is_ok (birthday_to_time (Some \<lparr>d_year = 2021, d_month = 2, d_day = 29\<rparr>)) = False" by code_simp
  with pet_validation [OF v] show ?thesis by simp
qed

end
