(* ===== verification/Pet_Mem.thy ===== *)
theory Pet_Mem
  imports Pet_Storage
begin

text \<open>
  The in-memory storage of the pet store (\<open>petstore/server/storage/mem/mem.go\<close>): pets by id,
  three indexes (names, types and a tree of birthdays), the read-write lock, and the search,
  which asks the indexes concurrently and counts in how many answers an id occurs.

  The tree is the package \<open>llrb\<close>, which is not part of the repository: a record of its
  operations, which compare the stored sets through the key function they are given. The
  sets of pets with one birthday are mutable maps, so the tree holds addresses of them.
  Logging of events is left out.
\<close>

section \<open>The tree\<close>

record 't llrb =
  t_empty :: 't
  t_items :: "'t \<Rightarrow> nat list"
  t_get :: "(nat \<Rightarrow> go_time) \<Rightarrow> go_time \<Rightarrow> 't \<Rightarrow> nat option"
  t_insert :: "(nat \<Rightarrow> go_time) \<Rightarrow> nat \<Rightarrow> 't \<Rightarrow> 't"
  t_delete :: "(nat \<Rightarrow> go_time) \<Rightarrow> go_time \<Rightarrow> 't \<Rightarrow> 't"
  t_range :: "(nat \<Rightarrow> go_time) \<Rightarrow> go_time \<Rightarrow> go_time \<Rightarrow> 't \<Rightarrow> nat list option"

definition in_order :: "(nat \<Rightarrow> go_time) \<Rightarrow> nat list \<Rightarrow> bool" where
  "in_order key as \<longleftrightarrow> sorted (map key as) \<and> distinct (map key as)"

text \<open>
  The documented behaviour of the package: an ordered set under \<open>Compare\<close>; \<open>DoRange\<close>
  visits the half-open range in order and panics on an inverted range unless the tree is
  empty (\<open>None\<close>).
\<close>

definition llrb_laws :: "'t llrb \<Rightarrow> bool" where
  "llrb_laws tr \<longleftrightarrow>
     t_items tr (t_empty tr) = []
     \<and> (\<forall>key t. in_order key (t_items tr t) \<longrightarrow>
          (\<forall>k. t_get tr key k t = find (\<lambda>a. key a = k) (t_items tr t))
          \<and> (\<forall>a. key a \<notin> key ` set (t_items tr t) \<longrightarrow>
               in_order key (t_items tr (t_insert tr key a t))
               \<and> set (t_items tr (t_insert tr key a t)) = insert a (set (t_items tr t)))
          \<and> (\<forall>k. t_items tr (t_delete tr key k t) = filter (\<lambda>a. key a \<noteq> k) (t_items tr t))
          \<and> (\<forall>x y. t_range tr key x y t =
               (if t_items tr t = [] then Some []
                else if y < x then None
                else Some (filter (\<lambda>a. x \<le> key a \<and> key a < y) (t_items tr t)))))"

section \<open>State\<close>

record 't mem =
  birthday :: 't
  bsets :: "nat \<Rightarrow> (string, pet) gomap"
  next_set :: nat
  names :: "(string, (string, pet) gomap) gomap"
  ids :: "(string, pet) gomap"
  types :: "(int, (string, pet) gomap) gomap"
  leaked :: nat
  writer_waits :: bool

text \<open>The comparisons ignore the error of the conversion, whose time is then the zero time.\<close>

definition date_time :: "date option \<Rightarrow> go_time" where
  "date_time d = (case birthday_to_time d of Ok t \<Rightarrow> t | _ \<Rightarrow> zero_time)"

definition btime :: "pet \<Rightarrow> go_time" where
  "btime p = date_time (p_birthday p)"

text \<open>What \<open>Compare\<close> reads of a stored set: the birthday of any of its pets.\<close>

definition set_key :: "(nat \<Rightarrow> (string, pet) gomap) \<Rightarrow> nat \<Rightarrow> go_time" where
  "set_key bs a = (case bs a of [] \<Rightarrow> zero_time | x # _ \<Rightarrow> btime (snd x))"

text \<open>
  A comparison reads two birthdays and panics on a nil one. A lookup in a tree that is not
  empty compares with the root; a tree that holds a nil birthday holds nothing else.
\<close>

definition no_birthday :: "(nat \<Rightarrow> (string, pet) gomap) \<Rightarrow> nat \<Rightarrow> bool" where
  "no_birthday bs a = (case bs a of [] \<Rightarrow> True | x # _ \<Rightarrow> p_birthday (snd x) = None)"

definition compare_panics :: "'t llrb \<Rightarrow> date option \<Rightarrow> 't mem \<Rightarrow> bool" where
  "compare_panics tr d s \<longleftrightarrow>
     t_items tr (birthday s) \<noteq> []
     \<and> (d = None \<or> list_ex (no_birthday (bsets s)) (t_items tr (birthday s)))"

definition new_mem :: "'t llrb \<Rightarrow> 't mem" where
  "new_mem tr = \<lparr>birthday = t_empty tr, bsets = (\<lambda>_. []), next_set = 0, names = [], ids = [], types = [],
     leaked = 0, writer_waits = False\<rparr>"

section \<open>Adding, updating and deleting\<close>

definition index_put :: "'k \<Rightarrow> pet \<Rightarrow> ('k, (string, pet) gomap) gomap \<Rightarrow> ('k, (string, pet) gomap) gomap" where
  "index_put k p m =
     (case map_of m k of
        Some v \<Rightarrow> gput k (gput (p_id p) p v) m
      | None \<Rightarrow> gput k [(p_id p, p)] m)"

definition index_del :: "'k \<Rightarrow> string \<Rightarrow> ('k, (string, pet) gomap) gomap \<Rightarrow> ('k, (string, pet) gomap) gomap" where
  "index_del k i m =
     (case map_of m k of
        Some v \<Rightarrow> if length v = 1 then gdel k m else gput k (gdel i v) m
      | None \<Rightarrow> m)"

definition birthday_put :: "'t llrb \<Rightarrow> pet \<Rightarrow> 't mem \<Rightarrow> 't mem" where
  "birthday_put tr p s =
     (case t_get tr (set_key (bsets s)) (btime p) (birthday s) of
        None \<Rightarrow>
          (let a = next_set s; bs = (bsets s)(a := [(p_id p, p)])
           in s\<lparr>bsets := bs, next_set := Suc a, birthday := t_insert tr (set_key bs) a (birthday s)\<rparr>)
      | Some a \<Rightarrow> s\<lparr>bsets := (bsets s)(a := gput (p_id p) p (bsets s a))\<rparr>)"

definition birthday_del :: "'t llrb \<Rightarrow> pet \<Rightarrow> 't mem \<Rightarrow> 't mem" where
  "birthday_del tr p s =
     (case t_get tr (set_key (bsets s)) (btime p) (birthday s) of
        None \<Rightarrow> s
      | Some a \<Rightarrow>
          (let s1 = (if length (bsets s a) = 1
                     then s\<lparr>birthday := t_delete tr (set_key (bsets s)) (btime p) (birthday s)\<rparr> else s)
           in s1\<lparr>bsets := (bsets s1)(a := gdel (p_id p) (bsets s1 a))\<rparr>))"

fun populate :: "'t llrb \<Rightarrow> pet list \<Rightarrow> 't mem \<Rightarrow> 't mem \<times> (pet_err, unit) outcome" where
  "populate tr [] s = (s, Ok ())"
| "populate tr (p # ps) s =
     (let s1 = s\<lparr>ids := gput (p_id p) p (ids s), names := index_put (p_name p) p (names s),
                 types := index_put (p_type p) p (types s)\<rparr>
      in if compare_panics tr (p_birthday p) s1 then (s1, Panics NilDeref)
         else populate tr ps (birthday_put tr p s1))"

fun delete_all :: "'t llrb \<Rightarrow> string list \<Rightarrow> 't mem \<Rightarrow> 't mem \<times> (pet_err, unit) outcome" where
  "delete_all tr [] s = (s, Ok ())"
| "delete_all tr (i # is) s =
     (case map_of (ids s) i of
        None \<Rightarrow> delete_all tr is s
      | Some p \<Rightarrow>
          (let s1 = s\<lparr>ids := gdel i (ids s), names := index_del (p_name p) i (names s),
                      types := index_del (p_type p) i (types s)\<rparr>
           in if compare_panics tr (p_birthday p) s1 then (s1, Panics NilDeref)
              else delete_all tr is (birthday_del tr p s1)))"

text \<open>
  The lock. A read lock that is never released (\<open>leaked\<close>) lets other readers in, until a
  writer waits; then everybody waits.
\<close>

definition with_lock :: "('t mem \<Rightarrow> 't mem \<times> (pet_err, unit) outcome) \<Rightarrow> 't mem
    \<Rightarrow> 't mem \<times> (pet_err, unit) outcome" where
  "with_lock f s = (if leaked s > 0 then (s\<lparr>writer_waits := True\<rparr>, Blocked) else f s)"

definition mem_add :: "'t llrb \<Rightarrow> pet list \<Rightarrow> 't mem \<Rightarrow> 't mem \<times> (pet_err, unit) outcome" where
  "mem_add tr ps s =
     (if writer_waits s then (s, Blocked)
      else (case find (\<lambda>p. map_of (ids s) (p_id p) \<noteq> None) ps of
              Some p \<Rightarrow> (s\<lparr>leaked := Suc (leaked s)\<rparr>, Err (IdPresent (p_id p)))
            | None \<Rightarrow> with_lock (populate tr ps) s))"

definition mem_update :: "'t llrb \<Rightarrow> pet list \<Rightarrow> 't mem \<Rightarrow> 't mem \<times> (pet_err, unit) outcome" where
  "mem_update tr ps s =
     (if writer_waits s then (s, Blocked)
      else (case find (\<lambda>p. map_of (ids s) (p_id p) = None) ps of
              Some p \<Rightarrow> (s\<lparr>leaked := Suc (leaked s)\<rparr>, Err (IdAbsent (p_id p)))
            | None \<Rightarrow> with_lock (populate tr ps) s))"

definition mem_delete :: "'t llrb \<Rightarrow> string list \<Rightarrow> 't mem \<Rightarrow> 't mem \<times> (pet_err, unit) outcome" where
  "mem_delete tr is s =
     (if writer_waits s then (s, Blocked) else with_lock (delete_all tr is) s)"

section \<open>Searching\<close>

record search_req =
  sr_names :: "string list"
  sr_types :: "int list"
  sr_range :: "(date option \<times> date option) option"

definition index_ids :: "('k, (string, pet) gomap) gomap \<Rightarrow> 'k list \<Rightarrow> string list" where
  "index_ids m ks = concat (map (\<lambda>k. case map_of m k of None \<Rightarrow> [] | Some v \<Rightarrow> map fst v) ks)"

definition by_names :: "'t mem \<Rightarrow> search_req \<Rightarrow> string list" where
  "by_names s f = index_ids (names s) (sr_names f)"

definition by_types :: "'t mem \<Rightarrow> search_req \<Rightarrow> string list" where
  "by_types s f = index_ids (types s) (sr_types f)"

definition by_birthdays :: "'t llrb \<Rightarrow> 't mem \<Rightarrow> search_req \<Rightarrow> (pet_err, string list) outcome" where
  "by_birthdays tr s f =
     (case sr_range f of
        None \<Rightarrow> Ok []
      | Some (st, en) \<Rightarrow>
          if t_items tr (birthday s) = [] then Ok []
          else if st = None \<or> compare_panics tr en s then Panics NilDeref
          else (case t_range tr (set_key (bsets s))
                       (date_time st) (date_time en) (birthday s) of
                  None \<Rightarrow> Panics (PanicMsg ''llrb: inverted range'')
                | Some as \<Rightarrow> Ok (concat (map (\<lambda>a. map (\<lambda>x. p_id (snd x)) (bsets s a)) as))))"

definition filters :: "search_req \<Rightarrow> nat" where
  "filters f = (if sr_names f \<noteq> [] then 1 else 0) + (if sr_types f \<noteq> [] then 1 else 0)
     + (if sr_range f \<noteq> None then 1 else 0)"

text \<open>The collector: an id is passed on when its count reaches the number of filters.\<close>

fun collect :: "nat \<Rightarrow> string list \<Rightarrow> (string \<Rightarrow> nat) \<Rightarrow> string list" where
  "collect k [] m = []"
| "collect k (i # is) m =
     (let c = Suc (m i) in (if c = k then [i] else []) @ collect k is (m(i := c)))"

definition return_all :: "'t mem \<Rightarrow> pet option list" where
  "return_all s = map (\<lambda>x. Some (snd x)) (ids s)"

text \<open>
  A search that is not cancelled: \<open>arrive\<close> is the order in which the answers of the three
  indexes reach the collector. An item is what \<open>ids\<close> holds for the id, possibly nil.
\<close>

definition search_pets :: "'t llrb \<Rightarrow> (string list list \<Rightarrow> string list list) \<Rightarrow> search_req \<Rightarrow> 't mem
    \<Rightarrow> (pet_err, pet option list) outcome" where
  "search_pets tr arrive f s =
     (if filters f = 0 then Ok (return_all s)
      else then_ok (by_birthdays tr s f)
        (\<lambda>bs. Ok (map (\<lambda>i. map_of (ids s) i)
           (collect (filters f) (concat (arrive [by_names s f, by_types s f, bs])) (\<lambda>_. 0)))))"

text \<open>
  \<open>SearchPets\<close> behind the lock. With \<open>taken = Some k\<close> the reader of the channel goes away
  after k items. The channel has one place, so a filtered search that has more than one
  item left waits in its send for ever, with the read lock held; a search without filters
  gives up when its context is done.
\<close>

definition mem_search :: "'t llrb \<Rightarrow> (string list list \<Rightarrow> string list list) \<Rightarrow> nat option \<Rightarrow> search_req
    \<Rightarrow> 't mem \<Rightarrow> 't mem \<times> (pet_err, pet option list) outcome" where
  "mem_search tr arrive taken f s =
     (if writer_waits s then (s, Blocked)
      else (case search_pets tr arrive f s of
              Ok items \<Rightarrow>
                (case taken of
                   None \<Rightarrow> (s, Ok items)
                 | Some k \<Rightarrow>
                     (if filters f > 0 \<and> length items > Suc k then s\<lparr>leaked := Suc (leaked s)\<rparr> else s,
                      Ok (take k items)))
            | oc \<Rightarrow> (s, oc)))"

section \<open>Well-formed states\<close>

text \<open>
  An index relates keys, ids and pets. The two maps and the tree of birthdays are such
  indexes; writing and deleting a pet acts on all of them in the same way.
\<close>

definition in_index :: "('k, (string, pet) gomap) gomap \<Rightarrow> 'k \<Rightarrow> string \<Rightarrow> pet \<Rightarrow> bool" where
  "in_index m k i p \<longleftrightarrow> (\<exists>v. map_of m k = Some v \<and> map_of v i = Some p)"

definition index_ok :: "('k, (string, pet) gomap) gomap \<Rightarrow> bool" where
  "index_ok m \<longleftrightarrow> (\<forall>k v. map_of m k = Some v \<longrightarrow> gmap_ok v \<and> v \<noteq> [])"

definition in_tree :: "'t llrb \<Rightarrow> 't mem \<Rightarrow> go_time \<Rightarrow> string \<Rightarrow> pet \<Rightarrow> bool" where
  "in_tree tr s t i p \<longleftrightarrow>
     (\<exists>a \<in> set (t_items tr (birthday s)). set_key (bsets s) a = t \<and> map_of (bsets s a) i = Some p)"

definition in_set :: "go_time \<Rightarrow> string \<times> pet \<Rightarrow> bool" where
  "in_set t x \<longleftrightarrow> p_id (snd x) = fst x \<and> btime (snd x) = t \<and> p_birthday (snd x) \<noteq> None"

definition set_ok :: "(nat \<Rightarrow> (string, pet) gomap) \<Rightarrow> nat \<Rightarrow> bool" where
  "set_ok bs a \<longleftrightarrow>
     bs a \<noteq> [] \<and> gmap_ok (bs a) \<and> (\<forall>x \<in> set (bs a). in_set (set_key bs a) x)"

definition tree_ok :: "'t llrb \<Rightarrow> 't mem \<Rightarrow> bool" where
  "tree_ok tr s \<longleftrightarrow>
     in_order (set_key (bsets s)) (t_items tr (birthday s))
     \<and> (\<forall>a \<in> set (t_items tr (birthday s)). a < next_set s \<and> set_ok (bsets s) a)"

definition put_rel :: "'k \<Rightarrow> pet \<Rightarrow> ('k \<Rightarrow> string \<Rightarrow> pet \<Rightarrow> bool) \<Rightarrow> 'k \<Rightarrow> string \<Rightarrow> pet \<Rightarrow> bool" where
  "put_rel k p H k' i q \<longleftrightarrow> (if k' = k \<and> i = p_id p then q = p else H k' i q)"

definition del_rel :: "'k \<Rightarrow> string \<Rightarrow> ('k \<Rightarrow> string \<Rightarrow> pet \<Rightarrow> bool) \<Rightarrow> 'k \<Rightarrow> string \<Rightarrow> pet \<Rightarrow> bool" where
  "del_rel k i H k' i' q \<longleftrightarrow> H k' i' q \<and> \<not> (k' = k \<and> i' = i)"

lemma in_index_put: "in_index (index_put k p m) = put_rel k p (in_index m)"
  by (auto simp: fun_eq_iff in_index_def index_put_def put_rel_def split: option.splits)

lemma gput_nonempty [simp]: "gput k v m \<noteq> []"
  by (cases m) auto

lemma index_ok_put: "index_ok m \<Longrightarrow> index_ok (index_put k p m)"
  by (auto simp: index_ok_def index_put_def gmap_ok_def [of "[_]"] split: option.splits)

lemma gdel_nonempty:
  assumes "gmap_ok v" "v \<noteq> []" "length v \<noteq> 1"
  shows "gdel i v \<noteq> []"
proof -
  obtain x y r where v: "v = x # y # r" using assms by (cases v rule: remdups_adj.cases) auto
  with assms(1) have "fst x \<noteq> fst y" by (simp add: gmap_ok_def)
  then show ?thesis using v by auto
qed

lemma in_index_del:
  assumes "index_ok m" "in_index m k i p"
  shows "in_index (index_del k i m) = del_rel k i (in_index m)" "index_ok (index_del k i m)"
proof -
  obtain v where v: "map_of m k = Some v" "map_of v i = Some p" using assms(2) by (auto simp: in_index_def)
  have ok: "gmap_ok v" "v \<noteq> []" using assms(1) v(1) by (auto simp: index_ok_def)
  show "in_index (index_del k i m) = del_rel k i (in_index m)"
  proof (cases "length v = 1")
    case True
    have "v = [(i, p)]" using gmap_ok_length_1 [OF True v(2)] .
    with True v(1) show ?thesis
      by (auto simp: fun_eq_iff in_index_def index_del_def del_rel_def)
  next
    case False
    then show ?thesis using v(1)
      by (auto simp: fun_eq_iff in_index_def index_del_def del_rel_def)
  qed
  show "index_ok (index_del k i m)"
    using assms(1) v(1) ok gdel_nonempty [OF ok, of i]
    by (auto simp: index_ok_def index_del_def)
qed

end
