(* ===== verification/Pet_Index.thy ===== *)
theory Pet_Index
  imports Pet_Mem
begin

text \<open>
  The invariant of the in-memory storage: its three indexes, the tree of birthdays among
  them, relate keys, ids and pets, and every operation keeps them well formed.
\<close>

section \<open>The laws of the tree, one by one\<close>

lemma llrb_get:
  "llrb_laws tr \<Longrightarrow> in_order key (t_items tr t) \<Longrightarrow> t_get tr key k t = find (\<lambda>a. key a = k) (t_items tr t)"
  unfolding llrb_laws_def by blast

lemma llrb_insert:
  "llrb_laws tr \<Longrightarrow> in_order key (t_items tr t) \<Longrightarrow> key a \<notin> key ` set (t_items tr t) \<Longrightarrow>
     in_order key (t_items tr (t_insert tr key a t))
     \<and> set (t_items tr (t_insert tr key a t)) = insert a (set (t_items tr t))"
  unfolding llrb_laws_def by blast

lemma llrb_delete:
  "llrb_laws tr \<Longrightarrow> in_order key (t_items tr t) \<Longrightarrow>
     t_items tr (t_delete tr key k t) = filter (\<lambda>a. key a \<noteq> k) (t_items tr t)"
  unfolding llrb_laws_def by blast

lemma llrb_range:
  "llrb_laws tr \<Longrightarrow> in_order key (t_items tr t) \<Longrightarrow>
     t_range tr key x y t =
       (if t_items tr t = [] then Some [] else if y < x then None
        else Some (filter (\<lambda>a. x \<le> key a \<and> key a < y) (t_items tr t)))"
  unfolding llrb_laws_def by blast

section \<open>The tree of birthdays as an index\<close>

lemma find_in_order:
  "in_order key as \<Longrightarrow> find (\<lambda>a. key a = k) as = Some a \<longleftrightarrow> a \<in> set as \<and> key a = k"
  by (induction as) (auto simp: in_order_def)

lemma find_in_order_None: "find (\<lambda>a. key a = k) as = None \<longleftrightarrow> k \<notin> key ` set as"
  by (auto simp: find_None_iff)

lemma in_order_cong: "(\<And>a. a \<in> set as \<Longrightarrow> key a = key' a) \<Longrightarrow> in_order key as = in_order key' as"
  by (metis in_order_def map_eq_conv)

lemma in_order_inj: "in_order key as \<Longrightarrow> a \<in> set as \<Longrightarrow> b \<in> set as \<Longrightarrow> key a = key b \<Longrightarrow> a = b"
  by (auto simp: in_order_def distinct_map inj_on_def)

lemma set_key_other: "b \<noteq> a \<Longrightarrow> set_key (bs(a := v)) b = set_key bs b"
  by (simp add: set_key_def)

lemma set_ok_other: "b \<noteq> a \<Longrightarrow> set_ok (bs(a := v)) b = set_ok bs b"
  by (simp add: set_ok_def set_key_other cong: ball_cong)

lemma set_gput: "x \<in> set (gput i p m) \<Longrightarrow> x = (i, p) \<or> x \<in> set m"
  by (induction m) (auto split: if_splits)

lemma set_gdel: "x \<in> set (gdel i m) \<Longrightarrow> x \<in> set m"
  by (induction m) (auto split: if_splits)

lemma set_key_upd: "v \<noteq> [] \<Longrightarrow> \<forall>x \<in> set v. in_set t x \<Longrightarrow> set_key (bs(a := v)) a = t"
  by (cases v) (auto simp: set_key_def in_set_def)

lemma set_ok_upd:
  "v \<noteq> [] \<Longrightarrow> gmap_ok v \<Longrightarrow> \<forall>x \<in> set v. in_set t x \<Longrightarrow> set_ok (bs(a := v)) a"
  using set_key_upd [of v t bs a] by (simp add: set_ok_def)

lemma set_ok_put:
  assumes ok: "set_ok bs a" and t: "btime p = set_key bs a" and bd: "p_birthday p \<noteq> None"
  shows "set_key (bs(a := gput (p_id p) p (bs a))) a = set_key bs a
    \<and> set_ok (bs(a := gput (p_id p) p (bs a))) a"
proof -
  have new: "in_set (set_key bs a) (p_id p, p)" by (simp add: in_set_def t bd)
  have "\<forall>x \<in> set (bs a). in_set (set_key bs a) x" using ok unfolding set_ok_def by blast
  then have all: "\<forall>x \<in> set (gput (p_id p) p (bs a)). in_set (set_key bs a) x"
    using new set_gput by fast
  have "gmap_ok (gput (p_id p) p (bs a))" using ok unfolding set_ok_def by blast
  with set_key_upd [OF gput_nonempty all] set_ok_upd [OF gput_nonempty _ all] show ?thesis by blast
qed

lemma set_ok_del:
  assumes ok: "set_ok bs a" and len: "length (bs a) \<noteq> 1"
  shows "set_key (bs(a := gdel i (bs a))) a = set_key bs a \<and> set_ok (bs(a := gdel i (bs a))) a"
proof -
  have g: "gmap_ok (bs a)" "bs a \<noteq> []" using ok unfolding set_ok_def by blast+
  have ne: "gdel i (bs a) \<noteq> []" by (rule gdel_nonempty [OF g len])
  have "\<forall>x \<in> set (bs a). in_set (set_key bs a) x" using ok unfolding set_ok_def by blast
  then have all: "\<forall>x \<in> set (gdel i (bs a)). in_set (set_key bs a) x" using set_gdel by fast
  have "gmap_ok (gdel i (bs a))" using g by blast
  with set_key_upd [OF ne all] set_ok_upd [OF ne _ all] show ?thesis by blast
qed

lemma birthday_put_frame [simp]:
  "names (birthday_put tr p s) = names s" "ids (birthday_put tr p s) = ids s"
  "types (birthday_put tr p s) = types s" "leaked (birthday_put tr p s) = leaked s"
  "writer_waits (birthday_put tr p s) = writer_waits s"
  by (auto simp: birthday_put_def Let_def split: option.splits)

lemma birthday_del_frame [simp]:
  "names (birthday_del tr p s) = names s" "ids (birthday_del tr p s) = ids s"
  "types (birthday_del tr p s) = types s" "leaked (birthday_del tr p s) = leaked s"
  "writer_waits (birthday_del tr p s) = writer_waits s"
  by (auto simp: birthday_del_def Let_def split: option.splits)

lemma in_tree_at:
  assumes ord: "in_order (set_key (bsets s)) (t_items tr (birthday s))"
    and a: "a \<in> set (t_items tr (birthday s))"
  shows "in_tree tr s (set_key (bsets s) a) i q \<longleftrightarrow> map_of (bsets s a) i = Some q"
  using in_order_inj [OF ord _ a] a unfolding in_tree_def by blast

lemma in_tree_upd:
  assumes ord: "in_order (set_key (bsets s)) (t_items tr (birthday s))"
    and a: "a \<in> set (t_items tr (birthday s))"
    and key: "\<And>b. set_key ((bsets s)(a := v)) b = set_key (bsets s) b"
  shows "in_tree tr (s\<lparr>bsets := (bsets s)(a := v)\<rparr>) t i q \<longleftrightarrow>
    (if t = set_key (bsets s) a then map_of v i = Some q else in_tree tr s t i q)"
proof (cases "t = set_key (bsets s) a")
  case True
  have "in_tree tr (s\<lparr>bsets := (bsets s)(a := v)\<rparr>) (set_key ((bsets s)(a := v)) a) i q
      \<longleftrightarrow> map_of (((bsets s)(a := v)) a) i = Some q"
    using in_tree_at [of "s\<lparr>bsets := (bsets s)(a := v)\<rparr>" tr a i q] ord a
    by (simp add: key [abs_def])
  then show ?thesis using True by (simp add: key)
next
  case False
  then have "b \<noteq> a" if "set_key (bsets s) b = t" for b using that by blast
  then show ?thesis using False by (auto simp: in_tree_def key)
qed

text \<open>The set of the birthday is in the tree, or a new one is inserted.\<close>

lemma birthday_put_old:
  assumes laws: "llrb_laws tr" and ok: "tree_ok tr s" and bd: "p_birthday p \<noteq> None"
    and Some: "find (\<lambda>a. set_key (bsets s) a = btime p) (t_items tr (birthday s)) = Some a"
  shows "tree_ok tr (birthday_put tr p s)
    \<and> in_tree tr (birthday_put tr p s) = put_rel (btime p) p (in_tree tr s)"
proof -
  let ?key = "set_key (bsets s)" and ?as = "t_items tr (birthday s)"
  have ord: "in_order ?key ?as" using ok by (simp add: tree_ok_def)
  have get: "t_get tr ?key (btime p) (birthday s) = find (\<lambda>a. ?key a = btime p) ?as"
    using llrb_get [OF laws ord] .
  have a: "a \<in> set ?as" "?key a = btime p" using Some find_in_order [OF ord] by blast+
  let ?bs = "(bsets s)(a := gput (p_id p) p (bsets s a))"
  have s': "birthday_put tr p s = s\<lparr>bsets := ?bs\<rparr>" by (simp add: birthday_put_def get Some)
  have sa: "set_ok (bsets s) a" using ok a by (simp add: tree_ok_def)
  note put = set_ok_put [OF sa a(2) [symmetric] bd, THEN conjunct1] set_ok_put [OF sa a(2) [symmetric] bd, THEN conjunct2]
  have key: "set_key ?bs b = ?key b" for b using put(1) set_key_other by (cases "b = a") auto
  have "set_ok ?bs b" if "set_ok (bsets s) b" for b using put(2) that set_ok_other by (cases "b = a") auto
  then have "tree_ok tr (birthday_put tr p s)"
    using ok by (simp add: s' tree_ok_def key [abs_def])
  moreover have "in_tree tr (birthday_put tr p s) = put_rel (btime p) p (in_tree tr s)"
  proof (intro ext)
    fix t i q
    show "in_tree tr (birthday_put tr p s) t i q = put_rel (btime p) p (in_tree tr s) t i q"
      using in_tree_upd [OF ord a(1) key] in_tree_at [OF ord a(1)] a(2)
      by (auto simp: s' put_rel_def)
  qed
  ultimately show ?thesis by blast
qed

lemma birthday_put_new:
  assumes laws: "llrb_laws tr" and ok: "tree_ok tr s" and bd: "p_birthday p \<noteq> None"
    and None: "find (\<lambda>a. set_key (bsets s) a = btime p) (t_items tr (birthday s)) = None"
  shows "tree_ok tr (birthday_put tr p s)
    \<and> in_tree tr (birthday_put tr p s) = put_rel (btime p) p (in_tree tr s)"
proof -
  let ?key = "set_key (bsets s)" and ?as = "t_items tr (birthday s)"
  have ord: "in_order ?key ?as" using ok by (simp add: tree_ok_def)
  have get: "t_get tr ?key (btime p) (birthday s) = find (\<lambda>a. ?key a = btime p) ?as"
    using llrb_get [OF laws ord] .
  let ?a = "next_set s"
  let ?bs = "(bsets s)(?a := [(p_id p, p)])"
  have fresh: "?a \<notin> set ?as" using ok by (auto simp: tree_ok_def)
  have key: "set_key ?bs b = ?key b" if "b \<in> set ?as" for b
    using fresh that by (intro set_key_other) auto
  have ka: "set_key ?bs ?a = btime p" by (simp add: set_key_def)
  have ord': "in_order (set_key ?bs) ?as" using ord in_order_cong [OF key] by simp
  have new: "set_key ?bs ?a \<notin> set_key ?bs ` set ?as"
    using None find_in_order_None [of ?key "btime p" ?as] ka key by (auto simp: image_iff)
  let ?t = "t_insert tr (set_key ?bs) ?a (birthday s)"
  have ins: "in_order (set_key ?bs) (t_items tr ?t)" "set (t_items tr ?t) = insert ?a (set ?as)"
    using llrb_insert [OF laws ord' new] by blast+
  have s': "birthday_put tr p s = s\<lparr>bsets := ?bs, next_set := Suc ?a, birthday := ?t\<rparr>"
    by (simp add: birthday_put_def get None Let_def)
  have "set_ok ?bs ?a" by (rule set_ok_upd [where t = "btime p"]) (simp_all add: gmap_ok_def in_set_def bd)
  moreover have "set_ok ?bs b" if "b \<in> set ?as" for b
    using ok that fresh set_ok_other [of b ?a] by (auto simp: tree_ok_def)
  ultimately have "tree_ok tr (birthday_put tr p s)"
    using ok ins by (auto simp: s' tree_ok_def less_SucI)
  moreover have "in_tree tr (birthday_put tr p s) = put_rel (btime p) p (in_tree tr s)"
  proof (intro ext)
    fix t i q
    have notin: "btime p \<notin> ?key ` set ?as" using None by (rule find_in_order_None [THEN iffD1])
    have "\<not> in_tree tr s (btime p) i' q'" for i' q'
      using notin by (metis imageI in_tree_def)
    moreover have "in_tree tr (birthday_put tr p s) t i q \<longleftrightarrow>
        (t = btime p \<and> i = p_id p \<and> q = p) \<or> in_tree tr s t i q"
    proof -
      have "(\<exists>b \<in> set ?as. set_key ?bs b = t \<and> map_of (?bs b) i = Some q) \<longleftrightarrow> in_tree tr s t i q"
        unfolding in_tree_def using fresh key by (intro bex_cong refl) auto
      then have "in_tree tr (birthday_put tr p s) t i q \<longleftrightarrow>
          (set_key ?bs ?a = t \<and> map_of (?bs ?a) i = Some q) \<or> in_tree tr s t i q"
        by (simp add: s' in_tree_def [of tr "s\<lparr>bsets := _, next_set := _, birthday := _\<rparr>"] ins(2)
            del: fun_upd_apply)
      then show ?thesis by (auto simp: ka)
    qed
    ultimately show "in_tree tr (birthday_put tr p s) t i q = put_rel (btime p) p (in_tree tr s) t i q"
      by (auto simp: put_rel_def)
  qed
  ultimately show ?thesis by blast
qed

lemma birthday_put_ok:
  assumes laws: "llrb_laws tr" and ok: "tree_ok tr s" and bd: "p_birthday p \<noteq> None"
  shows "tree_ok tr (birthday_put tr p s)
    \<and> in_tree tr (birthday_put tr p s) = put_rel (btime p) p (in_tree tr s)"
  using birthday_put_old [OF assms] birthday_put_new [OF assms]
  by (cases "find (\<lambda>a. set_key (bsets s) a = btime p) (t_items tr (birthday s))") blast+

text \<open>The set of the birthday has this pet alone and leaves the tree, or only loses the pet.\<close>

lemma birthday_del_last:
  assumes laws: "llrb_laws tr" and ok: "tree_ok tr s"
    and a: "a \<in> set (t_items tr (birthday s))" "set_key (bsets s) a = btime p" "map_of (bsets s a) (p_id p) = Some q"
    and True: "length (bsets s a) = 1"
  shows "tree_ok tr (birthday_del tr p s)
    \<and> in_tree tr (birthday_del tr p s) = del_rel (btime p) (p_id p) (in_tree tr s)"
proof -
  let ?key = "set_key (bsets s)" and ?as = "t_items tr (birthday s)"
  have ord: "in_order ?key ?as" using ok by (simp add: tree_ok_def)
  have "find (\<lambda>a. ?key a = btime p) ?as = Some a" using find_in_order [OF ord] a by blast
  then have get: "t_get tr ?key (btime p) (birthday s) = Some a" by (simp only: llrb_get [OF laws ord])
  have sa: "set_ok (bsets s) a" using ok a by (simp add: tree_ok_def)
  have only: "b = a" if "b \<in> set ?as" "?key b = btime p" for b
    using in_order_inj [OF ord that(1) a(1)] that(2) a(2) by simp
  let ?bs = "(bsets s)(a := gdel (p_id p) (bsets s a))"
  let ?t = "t_delete tr ?key (btime p) (birthday s)"
  have s': "birthday_del tr p s = s\<lparr>birthday := ?t, bsets := ?bs\<rparr>"
    by (simp add: birthday_del_def get True Let_def)
  have items: "t_items tr ?t = filter (\<lambda>b. ?key b \<noteq> btime p) ?as" using llrb_delete [OF laws ord] .
  have na: "b \<noteq> a" if "b \<in> set (t_items tr ?t)" for b using that a(2) by (auto simp: items)
  have key: "set_key ?bs b = ?key b" if "b \<in> set (t_items tr ?t)" for b
    using na [OF that] by (rule set_key_other)
  have "in_order ?key (t_items tr ?t)"
    using ord by (simp add: items in_order_def distinct_map_filter sorted_filter)
  then have "in_order (set_key ?bs) (t_items tr ?t)" using in_order_cong [OF key] by simp
  moreover have "set_ok ?bs b" if "b \<in> set (t_items tr ?t)" for b
    using ok that na [OF that] set_ok_other [of b a] by (auto simp: tree_ok_def items)
  ultimately have "tree_ok tr (birthday_del tr p s)"
    using ok by (simp add: s' tree_ok_def) (simp add: items)
  moreover have "in_tree tr (birthday_del tr p s) = del_rel (btime p) (p_id p) (in_tree tr s)"
  proof (intro ext)
    fix t i r
    have one: "bsets s a = [(p_id p, q)]" using gmap_ok_length_1 [OF True a(3)] .
    have "in_tree tr (birthday_del tr p s) t i r \<longleftrightarrow> (\<exists>b \<in> set (t_items tr ?t). ?key b = t \<and> map_of (bsets s b) i = Some r)"
      using key na by (auto simp: s' in_tree_def)
    also have "\<dots> \<longleftrightarrow> in_tree tr s t i r \<and> t \<noteq> btime p" by (auto simp: items in_tree_def)
    also have "\<dots> \<longleftrightarrow> del_rel (btime p) (p_id p) (in_tree tr s) t i r"
      using in_tree_at [OF ord a(1)] a(2) one by (auto simp: del_rel_def split: if_splits)
    finally show "in_tree tr (birthday_del tr p s) t i r = del_rel (btime p) (p_id p) (in_tree tr s) t i r" .
  qed
  ultimately show ?thesis by blast
qed

lemma birthday_del_one:
  assumes laws: "llrb_laws tr" and ok: "tree_ok tr s"
    and a: "a \<in> set (t_items tr (birthday s))" "set_key (bsets s) a = btime p" "map_of (bsets s a) (p_id p) = Some q"
    and False: "length (bsets s a) \<noteq> 1"
  shows "tree_ok tr (birthday_del tr p s)
    \<and> in_tree tr (birthday_del tr p s) = del_rel (btime p) (p_id p) (in_tree tr s)"
proof -
  let ?key = "set_key (bsets s)" and ?as = "t_items tr (birthday s)"
  have ord: "in_order ?key ?as" using ok by (simp add: tree_ok_def)
  have "find (\<lambda>a. ?key a = btime p) ?as = Some a" using find_in_order [OF ord] a by blast
  then have get: "t_get tr ?key (btime p) (birthday s) = Some a" by (simp only: llrb_get [OF laws ord])
  have sa: "set_ok (bsets s) a" using ok a by (simp add: tree_ok_def)
  have only: "b = a" if "b \<in> set ?as" "?key b = btime p" for b
    using in_order_inj [OF ord that(1) a(1)] that(2) a(2) by simp
  let ?bs = "(bsets s)(a := gdel (p_id p) (bsets s a))"
  have s': "birthday_del tr p s = s\<lparr>bsets := ?bs\<rparr>"
    using False by (simp add: birthday_del_def get Let_def)
  note del = set_ok_del [OF sa False, of "p_id p", THEN conjunct1] set_ok_del [OF sa False, of "p_id p", THEN conjunct2]
  have key: "set_key ?bs b = ?key b" for b using del(1) set_key_other by (cases "b = a") auto
  have "set_ok ?bs b" if "set_ok (bsets s) b" for b using del(2) that set_ok_other by (cases "b = a") auto
  then have "tree_ok tr (birthday_del tr p s)"
    using ok by (simp add: s' tree_ok_def key [abs_def])
  moreover have "in_tree tr (birthday_del tr p s) = del_rel (btime p) (p_id p) (in_tree tr s)"
  proof (intro ext)
    fix t i r
    show "in_tree tr (birthday_del tr p s) t i r = del_rel (btime p) (p_id p) (in_tree tr s) t i r"
      using in_tree_upd [OF ord a(1) key] in_tree_at [OF ord a(1)] a(2)
      by (auto simp: s' del_rel_def)
  qed
  ultimately show ?thesis by blast
qed

lemma birthday_del_ok:
  assumes "llrb_laws tr" and "tree_ok tr s" and p: "in_tree tr s (btime p) (p_id p) q"
  shows "tree_ok tr (birthday_del tr p s)
    \<and> in_tree tr (birthday_del tr p s) = del_rel (btime p) (p_id p) (in_tree tr s)"
proof -
  obtain a where "a \<in> set (t_items tr (birthday s))" "set_key (bsets s) a = btime p"
    "map_of (bsets s a) (p_id p) = Some q"
    using p by (auto simp: in_tree_def)
  then show ?thesis
    using birthday_del_last [OF assms(1,2)] birthday_del_one [OF assms(1,2)] by blast
qed

section \<open>Indexes that hold the stored pets\<close>

text \<open>
  An index is linked to the pets by id when it has every pet under its key, and exact when
  it has nothing else. An update links the new pet and does not unlink the old one, so it
  keeps the first and not the second.
\<close>

definition linked :: "('k \<Rightarrow> string \<Rightarrow> pet \<Rightarrow> bool) \<Rightarrow> (pet \<Rightarrow> 'k) \<Rightarrow> (string \<rightharpoonup> pet) \<Rightarrow> bool" where
  "linked H key m \<longleftrightarrow> (\<forall>i p. m i = Some p \<longrightarrow> H (key p) i p)"

definition exact :: "('k \<Rightarrow> string \<Rightarrow> pet \<Rightarrow> bool) \<Rightarrow> (pet \<Rightarrow> 'k) \<Rightarrow> (string \<rightharpoonup> pet) \<Rightarrow> bool" where
  "exact H key m \<longleftrightarrow> (\<forall>k i p. H k i p \<longleftrightarrow> m i = Some p \<and> key p = k)"

lemma linked_put: "linked H key m \<Longrightarrow> linked (put_rel (key p) p H) key (m(p_id p \<mapsto> p))"
  by (simp add: linked_def put_rel_def)

lemma linked_del: "linked H key m \<Longrightarrow> m i = Some p \<Longrightarrow> linked (del_rel (key p) i H) key (m(i := None))"
  by (simp add: linked_def del_rel_def)

lemma exact_put:
  "exact H key m \<Longrightarrow> m (p_id p) = None \<Longrightarrow> exact (put_rel (key p) p H) key (m(p_id p \<mapsto> p))"
  by (auto simp: exact_def put_rel_def)

lemma exact_del: "exact H key m \<Longrightarrow> m i = Some p \<Longrightarrow> exact (del_rel (key p) i H) key (m(i := None))"
  by (auto simp: exact_def del_rel_def)

definition pets_ok :: "(string, pet) gomap \<Rightarrow> bool" where
  "pets_ok m \<longleftrightarrow> gmap_ok m \<and> (\<forall>i p. map_of m i = Some p \<longrightarrow> p_id p = i \<and> p_birthday p \<noteq> None)"

definition mem_shape :: "'t llrb \<Rightarrow> 't mem \<Rightarrow> bool" where
  "mem_shape tr s \<longleftrightarrow> pets_ok (ids s) \<and> index_ok (names s) \<and> index_ok (types s) \<and> tree_ok tr s"

definition mem_linked :: "'t llrb \<Rightarrow> 't mem \<Rightarrow> bool" where
  "mem_linked tr s \<longleftrightarrow>
     linked (in_index (names s)) p_name (map_of (ids s))
     \<and> linked (in_index (types s)) p_type (map_of (ids s))
     \<and> linked (in_tree tr s) btime (map_of (ids s))"

definition mem_exact :: "'t llrb \<Rightarrow> 't mem \<Rightarrow> bool" where
  "mem_exact tr s \<longleftrightarrow>
     exact (in_index (names s)) p_name (map_of (ids s))
     \<and> exact (in_index (types s)) p_type (map_of (ids s))
     \<and> exact (in_tree tr s) btime (map_of (ids s))"

definition mem_inv :: "'t llrb \<Rightarrow> 't mem \<Rightarrow> bool" where
  "mem_inv tr s \<longleftrightarrow> mem_shape tr s \<and> mem_linked tr s"

lemma tree_ok_birthday:
  assumes "tree_ok tr s" "a \<in> set (t_items tr (birthday s))"
  shows "\<not> no_birthday (bsets s) a"
proof -
  have ok: "set_ok (bsets s) a" using assms unfolding tree_ok_def by blast
  then obtain x r where x: "bsets s a = x # r" unfolding set_ok_def by (cases "bsets s a") auto
  with ok have "in_set (set_key (bsets s) a) x" unfolding set_ok_def by simp
  then show ?thesis by (simp add: no_birthday_def x in_set_def)
qed

lemma no_compare_panic: "tree_ok tr s \<Longrightarrow> d \<noteq> None \<Longrightarrow> \<not> compare_panics tr d s"
  using tree_ok_birthday by (fastforce simp: compare_panics_def list_ex_iff)

lemma mem_inv_new:
  assumes "llrb_laws tr"
  shows "mem_inv tr (new_mem tr)" "mem_exact tr (new_mem tr)"
proof -
  have [simp]: "t_items tr (t_empty tr) = []" using assms unfolding llrb_laws_def by blast
  show "mem_inv tr (new_mem tr)"
    by (simp add: mem_inv_def mem_shape_def mem_linked_def new_mem_def pets_ok_def index_ok_def
        tree_ok_def linked_def in_order_def)
  show "mem_exact tr (new_mem tr)"
    by (simp add: mem_exact_def new_mem_def exact_def in_index_def in_tree_def)
qed

section \<open>Every operation keeps the indexes linked\<close>

text \<open>One round of the loop of \<open>populate\<close>, and of \<open>DeletePets\<close>.\<close>

definition put_maps :: "pet \<Rightarrow> 't mem \<Rightarrow> 't mem" where
  "put_maps p s = s\<lparr>ids := gput (p_id p) p (ids s), names := index_put (p_name p) p (names s),
     types := index_put (p_type p) p (types s)\<rparr>"

definition del_maps :: "string \<Rightarrow> pet \<Rightarrow> 't mem \<Rightarrow> 't mem" where
  "del_maps i p s = s\<lparr>ids := gdel i (ids s), names := index_del (p_name p) i (names s),
     types := index_del (p_type p) i (types s)\<rparr>"

lemma put_maps_frame [simp]:
  "birthday (put_maps p s) = birthday s" "bsets (put_maps p s) = bsets s"
  "next_set (put_maps p s) = next_set s" "leaked (put_maps p s) = leaked s"
  "writer_waits (put_maps p s) = writer_waits s" "ids (put_maps p s) = gput (p_id p) p (ids s)"
  "names (put_maps p s) = index_put (p_name p) p (names s)"
  "types (put_maps p s) = index_put (p_type p) p (types s)"
  by (simp_all add: put_maps_def)

lemma del_maps_frame [simp]:
  "birthday (del_maps i p s) = birthday s" "bsets (del_maps i p s) = bsets s"
  "next_set (del_maps i p s) = next_set s" "leaked (del_maps i p s) = leaked s"
  "writer_waits (del_maps i p s) = writer_waits s" "ids (del_maps i p s) = gdel i (ids s)"
  "names (del_maps i p s) = index_del (p_name p) i (names s)"
  "types (del_maps i p s) = index_del (p_type p) i (types s)"
  by (simp_all add: del_maps_def)

lemma tree_frame:
  assumes "birthday s' = birthday s" "bsets s' = bsets s" "next_set s' = next_set s"
  shows "tree_ok tr s' = tree_ok tr s" "in_tree tr s' = in_tree tr s"
    "compare_panics tr d s' = compare_panics tr d s"
  by (simp_all add: tree_ok_def in_tree_def [abs_def] compare_panics_def assms)

lemma pets_ok_put: "pets_ok m \<Longrightarrow> p_birthday p \<noteq> None \<Longrightarrow> pets_ok (gput (p_id p) p m)"
  by (simp add: pets_ok_def)

lemma pets_ok_del: "pets_ok m \<Longrightarrow> pets_ok (gdel i m)"
  by (simp add: pets_ok_def)

lemma put_round:
  assumes laws: "llrb_laws tr" and inv: "mem_inv tr s" and bd: "p_birthday p \<noteq> None"
  defines "s1 \<equiv> put_maps p s"
  shows "\<not> compare_panics tr (p_birthday p) s1"
    and "mem_inv tr (birthday_put tr p s1)"
    and "mem_exact tr s \<Longrightarrow> map_of (ids s) (p_id p) = None \<Longrightarrow> mem_exact tr (birthday_put tr p s1)"
proof -
  have shape: "mem_shape tr s" and link: "mem_linked tr s" using inv by (simp_all add: mem_inv_def)
  have t: "tree_ok tr s" using shape by (simp add: mem_shape_def)
  have t1: "tree_ok tr s1" and in1: "in_tree tr s1 = in_tree tr s"
    using t tree_frame [of s1 s tr] by (simp_all add: s1_def)
  show "\<not> compare_panics tr (p_birthday p) s1" by (rule no_compare_panic [OF t1 bd])
  note put = birthday_put_ok [OF laws t1 bd]
  have "mem_shape tr (birthday_put tr p s1)"
    using shape put by (simp add: mem_shape_def s1_def pets_ok_put [OF _ bd] index_ok_put)
  moreover have "mem_linked tr (birthday_put tr p s1)"
    using link put by (simp add: mem_linked_def in1 in_index_put linked_put) (simp add: s1_def in_index_put linked_put)
  ultimately show "mem_inv tr (birthday_put tr p s1)" by (simp add: mem_inv_def)
  show "mem_exact tr (birthday_put tr p s1)"
    if "mem_exact tr s" "map_of (ids s) (p_id p) = None"
    using that put by (simp add: mem_exact_def in1) (simp add: s1_def in_index_put exact_put)
qed

lemma del_round:
  assumes laws: "llrb_laws tr" and inv: "mem_inv tr s" and p: "map_of (ids s) i = Some p"
  defines "s1 \<equiv> del_maps i p s"
  shows "\<not> compare_panics tr (p_birthday p) s1"
    and "mem_inv tr (birthday_del tr p s1)"
    and "mem_exact tr s \<Longrightarrow> mem_exact tr (birthday_del tr p s1)"
proof -
  have shape: "mem_shape tr s" and link: "mem_linked tr s" using inv by (simp_all add: mem_inv_def)
  have t: "tree_ok tr s" using shape by (simp add: mem_shape_def)
  have t1: "tree_ok tr s1" and in1: "in_tree tr s1 = in_tree tr s"
    using t tree_frame [of s1 s tr] by (simp_all add: s1_def)
  have pi: "p_id p = i" and bd: "p_birthday p \<noteq> None" using shape p by (auto simp: mem_shape_def pets_ok_def)
  show "\<not> compare_panics tr (p_birthday p) s1" by (rule no_compare_panic [OF t1 bd])
  have here: "in_index (names s) (p_name p) i p" "in_index (types s) (p_type p) i p"
    "in_tree tr s1 (btime p) (p_id p) p"
    using link p by (simp_all add: mem_linked_def linked_def in1 pi)
  have ix: "index_ok (names s)" "index_ok (types s)" using shape by (simp_all add: mem_shape_def)
  note dn = in_index_del [OF ix(1) here(1)] and dt = in_index_del [OF ix(2) here(2)]
    and del = birthday_del_ok [OF laws t1 here(3)]
  have "mem_shape tr (birthday_del tr p s1)"
    using shape del dn(2) dt(2) by (simp add: mem_shape_def s1_def pets_ok_del)
  moreover have "mem_linked tr (birthday_del tr p s1)"
    using link del by (simp add: mem_linked_def in1) (simp add: s1_def dn(1) dt(1) linked_del p pi)
  ultimately show "mem_inv tr (birthday_del tr p s1)" by (simp add: mem_inv_def)
  show "mem_exact tr (birthday_del tr p s1)" if "mem_exact tr s"
    using that del by (simp add: mem_exact_def in1) (simp add: s1_def dn(1) dt(1) exact_del p pi)
qed

end
