(* ===== verification/Pet_Refine.thy ===== *)
theory Pet_Refine
  imports Pet_Index
begin

text \<open>
  The contract of a storage, the interface \<open>Data\<close> of \<open>petstore/server/storage/storage.go\<close>,
  over an abstract map from ids to pets, and the proof that the in-memory storage meets it;
  what a refused batch does to the lock of the storage.
\<close>

section \<open>Whole batches\<close>

fun add_pets :: "pet list \<Rightarrow> (string \<rightharpoonup> pet) \<Rightarrow> (string \<rightharpoonup> pet)" where
  "add_pets [] m = m"
| "add_pets (p # ps) m = add_pets ps (m(p_id p \<mapsto> p))"

lemma add_pets_other: "i \<notin> p_id ` set ps \<Longrightarrow> add_pets ps m i = m i"
  by (induction ps arbitrary: m) auto

lemma add_pets_in: "distinct (map p_id ps) \<Longrightarrow> p \<in> set ps \<Longrightarrow> add_pets ps m (p_id p) = Some p"
  by (induction ps arbitrary: m) (auto simp: add_pets_other)

lemma dom_add_pets: "dom (add_pets ps m) = p_id ` set ps \<union> dom m"
  by (induction ps arbitrary: m) auto

definition same_locks :: "'t mem \<Rightarrow> 't mem \<Rightarrow> bool" where
  "same_locks s s' \<longleftrightarrow> leaked s' = leaked s \<and> writer_waits s' = writer_waits s"

lemma same_locks_refl [simp]: "same_locks s s"
  by (simp add: same_locks_def)

lemma same_locks_trans: "same_locks s s' \<Longrightarrow> same_locks s' s'' \<Longrightarrow> same_locks s s''"
  by (simp add: same_locks_def)

lemma same_locks_round [simp]:
  "same_locks s (birthday_put tr p (put_maps p s))" "same_locks s (birthday_del tr p (del_maps i p s))"
  by (simp_all add: same_locks_def)

lemma populate_Cons:
  "populate tr (p # ps) s =
     (if compare_panics tr (p_birthday p) (put_maps p s) then (put_maps p s, Panics NilDeref)
      else populate tr ps (birthday_put tr p (put_maps p s)))"
  by (simp add: put_maps_def Let_def)

lemma delete_all_Cons:
  "map_of (ids s) i = Some p \<Longrightarrow>
   delete_all tr (i # is) s =
     (if compare_panics tr (p_birthday p) (del_maps i p s) then (del_maps i p s, Panics NilDeref)
      else delete_all tr is (birthday_del tr p (del_maps i p s)))"
  by (simp add: del_maps_def Let_def)

lemma populate_ok:
  assumes laws: "llrb_laws tr"
  shows "mem_inv tr s \<Longrightarrow> \<forall>p \<in> set ps. p_birthday p \<noteq> None \<Longrightarrow>
    \<exists>s'. populate tr ps s = (s', Ok ()) \<and> mem_inv tr s' \<and> same_locks s s'
      \<and> map_of (ids s') = add_pets ps (map_of (ids s))
      \<and> (mem_exact tr s \<and> distinct (map p_id ps) \<and> (\<forall>p \<in> set ps. map_of (ids s) (p_id p) = None)
          \<longrightarrow> mem_exact tr s')"
proof (induction ps arbitrary: s)
  case Nil
  then show ?case by simp
next
  case (Cons p ps)
  let ?s = "birthday_put tr p (put_maps p s)"
  have bd: "p_birthday p \<noteq> None" and bds: "\<forall>p \<in> set ps. p_birthday p \<noteq> None"
    using Cons.prems(2) by simp_all
  note round = put_round [OF laws Cons.prems(1) bd]
  from Cons.IH [OF round(2) bds] obtain s' where s':
    "populate tr ps ?s = (s', Ok ())" "mem_inv tr s'" "same_locks ?s s'"
    "map_of (ids s') = add_pets ps (map_of (ids ?s))"
    "mem_exact tr ?s \<and> distinct (map p_id ps) \<and> (\<forall>p \<in> set ps. map_of (ids ?s) (p_id p) = None) \<longrightarrow> mem_exact tr s'"
    by blast
  have "same_locks s s'" using same_locks_trans [OF same_locks_round(1) s'(3)] .
  moreover have "mem_exact tr s'"
    if "mem_exact tr s" "distinct (map p_id (p # ps))" "\<forall>q \<in> set (p # ps). map_of (ids s) (p_id q) = None"
    using s'(5) round(3) that by (auto simp: image_iff)
  ultimately show ?case
    using s'(1,2,4) round(1) by (intro exI [of _ s']) (simp add: populate_Cons del: populate.simps)
qed

lemma delete_all_ok:
  assumes laws: "llrb_laws tr"
  shows "mem_inv tr s \<Longrightarrow>
    \<exists>s'. delete_all tr is s = (s', Ok ()) \<and> mem_inv tr s' \<and> same_locks s s'
      \<and> map_of (ids s') = (map_of (ids s)) |` (- set is) \<and> (mem_exact tr s \<longrightarrow> mem_exact tr s')"
proof (induction "is" arbitrary: s)
  case Nil
  then show ?case by simp
next
  case (Cons i ixs)
  show ?case
  proof (cases "map_of (ids s) i")
    case None
    then have "(map_of (ids s)) |` (- set (i # ixs)) = (map_of (ids s)) |` (- set ixs)"
      by (auto simp: fun_eq_iff restrict_map_def)
    then show ?thesis using Cons.IH [OF Cons.prems] None by simp
  next
    case (Some p)
    let ?s = "birthday_del tr p (del_maps i p s)"
    note round = del_round [OF laws Cons.prems Some]
    from Cons.IH [OF round(2)] obtain s' where s':
      "delete_all tr ixs ?s = (s', Ok ())" "mem_inv tr s'" "same_locks ?s s'"
      "map_of (ids s') = (map_of (ids ?s)) |` (- set ixs)" "mem_exact tr ?s \<longrightarrow> mem_exact tr s'"
      by blast
    have "same_locks s s'" using same_locks_trans [OF same_locks_round(2) s'(3)] .
    moreover have "(map_of (ids ?s)) |` (- set ixs) = (map_of (ids s)) |` (- set (i # ixs))"
      by (auto simp: fun_eq_iff restrict_map_def)
    ultimately show ?thesis
      using s' round(1,3) by (intro exI [of _ s']) (simp add: delete_all_Cons [OF Some] del: delete_all.simps)
  qed
qed

section \<open>The contract of a storage\<close>

text \<open>
  \<open>free\<close> says that no lock is held by a call that has returned; \<open>exactly\<close> that a search
  looks at the stored pets and nothing else.
\<close>

locale storage_data =
  fixes add :: "pet list \<Rightarrow> 's \<Rightarrow> 's \<times> (pet_err, unit) outcome"
    and update :: "pet list \<Rightarrow> 's \<Rightarrow> 's \<times> (pet_err, unit) outcome"
    and remove :: "string list \<Rightarrow> 's \<Rightarrow> 's \<times> (pet_err, unit) outcome"
    and inv :: "'s \<Rightarrow> bool" and free :: "'s \<Rightarrow> bool" and exactly :: "'s \<Rightarrow> bool"
    and stored :: "'s \<Rightarrow> string \<rightharpoonup> pet"
  assumes add_new:
    "inv s \<Longrightarrow> free s \<Longrightarrow> \<forall>p \<in> set ps. p_birthday p \<noteq> None \<Longrightarrow> \<forall>p \<in> set ps. stored s (p_id p) = None \<Longrightarrow>
       \<exists>s'. add ps s = (s', Ok ()) \<and> inv s' \<and> free s' \<and> stored s' = add_pets ps (stored s)
         \<and> (exactly s \<and> distinct (map p_id ps) \<longrightarrow> exactly s')"
    and update_old:
    "inv s \<Longrightarrow> free s \<Longrightarrow> \<forall>p \<in> set ps. p_birthday p \<noteq> None \<Longrightarrow> \<forall>p \<in> set ps. stored s (p_id p) \<noteq> None \<Longrightarrow>
       \<exists>s'. update ps s = (s', Ok ()) \<and> inv s' \<and> free s' \<and> stored s' = add_pets ps (stored s)"
    and remove_any:
    "inv s \<Longrightarrow> free s \<Longrightarrow>
       \<exists>s'. remove is s = (s', Ok ()) \<and> inv s' \<and> free s' \<and> stored s' = (stored s) |` (- set is)
         \<and> (exactly s \<longrightarrow> exactly s')"
    and add_old:
    "inv s \<Longrightarrow> free s \<Longrightarrow> \<exists>p \<in> set ps. stored s (p_id p) \<noteq> None \<Longrightarrow>
       \<exists>s' e. add ps s = (s', Err e) \<and> stored s' = stored s"
    and update_new:
    "inv s \<Longrightarrow> free s \<Longrightarrow> \<exists>p \<in> set ps. stored s (p_id p) = None \<Longrightarrow>
       \<exists>s' e. update ps s = (s', Err e) \<and> stored s' = stored s"
begin

lemma refused_whole:
  assumes "inv s" "free s"
  shows "\<exists>p \<in> set ps. stored s (p_id p) \<noteq> None \<Longrightarrow> stored (fst (add ps s)) = stored s \<and> \<not> is_ok (snd (add ps s))"
    and "\<exists>p \<in> set ps. stored s (p_id p) = None \<Longrightarrow> stored (fst (update ps s)) = stored s \<and> \<not> is_ok (snd (update ps s))"
  using add_old [OF assms] update_new [OF assms] by fastforce+

lemma add_then_remove:
  assumes "inv s" "free s" "\<forall>p \<in> set ps. p_birthday p \<noteq> None" "\<forall>p \<in> set ps. stored s (p_id p) = None"
  shows "\<exists>s1 s2. add ps s = (s1, Ok ()) \<and> remove (map p_id ps) s1 = (s2, Ok ())
    \<and> inv s2 \<and> free s2 \<and> stored s2 = stored s"
proof -
  obtain s1 where s1: "add ps s = (s1, Ok ())" "inv s1" "free s1" "stored s1 = add_pets ps (stored s)"
    using add_new [OF assms] by blast
  obtain s2 where s2: "remove (map p_id ps) s1 = (s2, Ok ())" "inv s2" "free s2"
    "stored s2 = (stored s1) |` (- set (map p_id ps))"
    using remove_any [OF s1(2,3)] by blast
  have "stored s2 = stored s"
  proof
    fix i
    have "stored s i = None" if "i \<in> p_id ` set ps" using that assms(4) by auto
    then show "stored s2 i = stored s i"
      by (cases "i \<in> p_id ` set ps") (simp_all add: s2(4) s1(4) restrict_map_def add_pets_other)
  qed
  then show ?thesis using s1(1) s2 by blast
qed

text \<open>After an update of a stored batch, what is stored under each id is the new pet.\<close>

lemma add_then_update:
  assumes "inv s" "free s" "\<forall>p \<in> set ps. p_birthday p \<noteq> None" "\<forall>p \<in> set ps. stored s (p_id p) = None"
    and "\<forall>p \<in> set qs. p_birthday p \<noteq> None" "set (map p_id qs) = set (map p_id ps)" "distinct (map p_id qs)"
  shows "\<exists>s1 s2. add ps s = (s1, Ok ()) \<and> update qs s1 = (s2, Ok ()) \<and> inv s2 \<and> free s2
    \<and> dom (stored s2) = dom (stored s1) \<and> (\<forall>q \<in> set qs. stored s2 (p_id q) = Some q)"
proof -
  obtain s1 where s1: "add ps s = (s1, Ok ())" "inv s1" "free s1" "stored s1 = add_pets ps (stored s)"
    using add_new [OF assms(1-4)] by blast
  have "p_id q \<in> dom (stored s1)" if "q \<in> set qs" for q
    using that assms(6) by (auto simp: s1(4) dom_add_pets)
  then have old: "\<forall>q \<in> set qs. stored s1 (p_id q) \<noteq> None" by blast
  obtain s2 where s2: "update qs s1 = (s2, Ok ())" "inv s2" "free s2" "stored s2 = add_pets qs (stored s1)"
    using update_old [OF s1(2,3) assms(5) old] by blast
  have "dom (stored s2) = dom (stored s1)"
    using assms(6) by (auto simp: s2(4) s1(4) dom_add_pets)
  moreover have "\<forall>q \<in> set qs. stored s2 (p_id q) = Some q"
    using assms(7) by (simp add: s2(4) add_pets_in)
  ultimately show ?thesis using s1(1) s2 by blast
qed

end

section \<open>The in-memory storage meets the contract\<close>

definition mem_free :: "'t mem \<Rightarrow> bool" where
  "mem_free s \<longleftrightarrow> leaked s = 0 \<and> \<not> writer_waits s"

definition mem_good :: "'t llrb \<Rightarrow> 't mem \<Rightarrow> bool" where
  "mem_good tr s \<longleftrightarrow> llrb_laws tr \<and> mem_inv tr s"

definition stored_pets :: "'t mem \<Rightarrow> string \<rightharpoonup> pet" where
  "stored_pets s = map_of (ids s)"

lemma find_None_all: "\<forall>x \<in> set xs. \<not> P x \<Longrightarrow> find P xs = None"
  by (simp add: find_None_iff)

lemma find_Some_ex: "\<exists>x \<in> set xs. P x \<Longrightarrow> \<exists>y. find P xs = Some y \<and> y \<in> set xs \<and> P y"
  by (induction xs) auto

lemma same_locks_free: "same_locks s s' \<Longrightarrow> mem_free s' = mem_free s"
  by (simp add: same_locks_def mem_free_def)

lemma mem_write_ok:
  assumes good: "mem_good tr s" and free: "mem_free s" and bd: "\<forall>p \<in> set ps. p_birthday p \<noteq> None"
  obtains s' where "with_lock (populate tr ps) s = (s', Ok ())" "mem_good tr s'" "mem_free s'"
    "stored_pets s' = add_pets ps (stored_pets s)"
    "mem_exact tr s \<and> distinct (map p_id ps) \<and> (\<forall>p \<in> set ps. stored_pets s (p_id p) = None) \<longrightarrow> mem_exact tr s'"
proof -
  have laws: "llrb_laws tr" and inv: "mem_inv tr s" using good by (simp_all add: mem_good_def)
  obtain s' where s': "populate tr ps s = (s', Ok ())" "mem_inv tr s'" "same_locks s s'"
    "map_of (ids s') = add_pets ps (map_of (ids s))"
    "mem_exact tr s \<and> distinct (map p_id ps) \<and> (\<forall>p \<in> set ps. map_of (ids s) (p_id p) = None) \<longrightarrow> mem_exact tr s'"
    using populate_ok [OF laws inv bd] by blast
  have "with_lock (populate tr ps) s = (s', Ok ())"
    using free s'(1) by (simp add: with_lock_def mem_free_def)
  moreover have "mem_free s'" using free same_locks_free [OF s'(3)] by simp
  ultimately show thesis
    using that [of s'] s' laws by (simp add: mem_good_def stored_pets_def)
qed

lemma mem_refused:
  assumes "mem_free s"
  shows "\<exists>p \<in> set ps. stored_pets s (p_id p) \<noteq> None \<Longrightarrow>
      \<exists>e. mem_add tr ps s = (s\<lparr>leaked := 1\<rparr>, Err e)"
    and "\<exists>p \<in> set ps. stored_pets s (p_id p) = None \<Longrightarrow>
      \<exists>e. mem_update tr ps s = (s\<lparr>leaked := 1\<rparr>, Err e)"
  using assms find_Some_ex [of ps "\<lambda>p. map_of (ids s) (p_id p) \<noteq> None"]
    find_Some_ex [of ps "\<lambda>p. map_of (ids s) (p_id p) = None"]
  by (auto simp: mem_add_def mem_update_def mem_free_def stored_pets_def)

interpretation ms: storage_data "mem_add tr" "mem_update tr" "mem_delete tr" "mem_good tr" mem_free
    "mem_exact tr" stored_pets for tr :: "'t llrb"
proof
  fix s :: "'t mem" and ps :: "pet list" and ixs :: "string list"
  assume good: "mem_good tr s" and free: "mem_free s"
  have w: "\<not> writer_waits s" using free by (simp add: mem_free_def)
  show "\<exists>s'. mem_add tr ps s = (s', Ok ()) \<and> mem_good tr s' \<and> mem_free s' \<and> stored_pets s' = add_pets ps (stored_pets s)
      \<and> (mem_exact tr s \<and> distinct (map p_id ps) \<longrightarrow> mem_exact tr s')"
    if bd: "\<forall>p \<in> set ps. p_birthday p \<noteq> None" and new: "\<forall>p \<in> set ps. stored_pets s (p_id p) = None"
  proof -
    have "mem_add tr ps s = with_lock (populate tr ps) s"
      using w new by (simp add: mem_add_def stored_pets_def find_None_all)
    then show ?thesis using mem_write_ok [OF good free bd] new by metis
  qed
  show "\<exists>s'. mem_update tr ps s = (s', Ok ()) \<and> mem_good tr s' \<and> mem_free s' \<and> stored_pets s' = add_pets ps (stored_pets s)"
    if bd: "\<forall>p \<in> set ps. p_birthday p \<noteq> None" and old: "\<forall>p \<in> set ps. stored_pets s (p_id p) \<noteq> None"
  proof -
    have "mem_update tr ps s = with_lock (populate tr ps) s"
      using w old by (simp add: mem_update_def stored_pets_def find_None_all)
    then show ?thesis using mem_write_ok [OF good free bd] by metis
  qed
  show "\<exists>s'. mem_delete tr ixs s = (s', Ok ()) \<and> mem_good tr s' \<and> mem_free s'
      \<and> stored_pets s' = (stored_pets s) |` (- set ixs) \<and> (mem_exact tr s \<longrightarrow> mem_exact tr s')"
  proof -
    have laws: "llrb_laws tr" and inv: "mem_inv tr s" using good by (simp_all add: mem_good_def)
    obtain s' where s': "delete_all tr ixs s = (s', Ok ())" "mem_inv tr s'" "same_locks s s'"
      "map_of (ids s') = (map_of (ids s)) |` (- set ixs)" "mem_exact tr s \<longrightarrow> mem_exact tr s'"
      using delete_all_ok [OF laws inv] by blast
    have "mem_delete tr ixs s = (s', Ok ())"
      using w free s'(1) by (simp add: mem_delete_def with_lock_def mem_free_def)
    then show ?thesis using s' laws free same_locks_free [OF s'(3)] by (simp add: mem_good_def stored_pets_def)
  qed
  show "\<exists>s' e. mem_add tr ps s = (s', Err e) \<and> stored_pets s' = stored_pets s"
    if "\<exists>p \<in> set ps. stored_pets s (p_id p) \<noteq> None"
    using mem_refused(1) [OF free that, of tr] by (auto simp: stored_pets_def)
  show "\<exists>s' e. mem_update tr ps s = (s', Err e) \<and> stored_pets s' = stored_pets s"
    if "\<exists>p \<in> set ps. stored_pets s (p_id p) = None"
    using mem_refused(2) [OF free that, of tr] by (auto simp: stored_pets_def)
qed

text \<open>A tree that keeps the documented laws, for concrete instances: a sorted list.\<close>

definition list_llrb :: "nat list llrb" where
  "list_llrb = \<lparr>t_empty = [], t_items = (\<lambda>t. t), t_get = (\<lambda>key k t. find (\<lambda>a. key a = k) t),
     t_insert = insort_key, t_delete = (\<lambda>key k t. filter (\<lambda>a. key a \<noteq> k) t),
     t_range = (\<lambda>key x y t. if t = [] then Some [] else if y < x then None
       else Some (filter (\<lambda>a. x \<le> key a \<and> key a < y) t))\<rparr>"

lemma in_order_insort:
  assumes "in_order key as" "key a \<notin> key ` set as"
  shows "in_order key (insort_key key a as)"
proof -
  have s: "sorted (map key (insort_key key a as))" using assms(1) by (simp add: in_order_def sorted_insort_key)
  have "mset (insort_key key a as) = add_mset a (mset as)" by simp
  then have "mset (map key (insort_key key a as)) = mset (key a # map key as)" by (metis image_mset_add_mset mset.simps(2) mset_map)
  moreover have "distinct (key a # map key as)" using assms by (simp add: in_order_def)
  ultimately have "distinct (map key (insort_key key a as))" by (metis distinct_count_atmost_1 mset_eq_setD)
  with s show ?thesis by (simp add: in_order_def)
qed

lemma list_llrb_laws: "llrb_laws list_llrb"
  unfolding llrb_laws_def
  by (simp add: list_llrb_def in_order_insort set_insort_key)

definition some_pet :: "string \<Rightarrow> string \<Rightarrow> pet" where
  "some_pet i n = \<lparr>p_id = i, p_name = n, p_type = 1,
     p_birthday = Some \<lparr>d_year = 2020, d_month = 5, d_day = 17\<rparr>\<rparr>"

lemma some_pet_simps [simp]: "p_id (some_pet i n) = i" "p_name (some_pet i n) = n" "p_type (some_pet i n) = 1"
  "p_birthday (some_pet i n) = Some \<lparr>d_year = 2020, d_month = 5, d_day = 17\<rparr>"
  by (simp_all add: some_pet_def)

lemma demo_store: "mem_good list_llrb (new_mem list_llrb)" "mem_free (new_mem list_llrb)"
  "mem_exact list_llrb (new_mem list_llrb)"
  using mem_inv_new [OF list_llrb_laws] list_llrb_laws
  by (simp_all add: mem_good_def mem_free_def new_mem_def)

text \<open>
  C2: The in-memory storage implements a map from ids to pets. With a tree that keeps its
  documented laws, starting from the empty storage and as long as no lock has leaked: adding
  pets with new ids and updating pets with stored ids succeed and overwrite the map at these
  ids, deleting removes exactly the given ids and ignores unknown ones, and a batch of which
  one id is already stored (or not stored, for an update) is refused as a whole without any
  change of the pets. All indexes stay well formed and linked to the pets.
\<close>

theorem storage_refines_map:
  assumes "mem_good tr s" and "mem_free s" and "\<forall>p \<in> set ps. p_birthday p \<noteq> None"
  shows "((\<forall>p \<in> set ps. stored_pets s (p_id p) = None) \<longrightarrow>
      (\<exists>s'. mem_add tr ps s = (s', Ok ()) \<and> mem_good tr s' \<and> mem_free s'
        \<and> stored_pets s' = add_pets ps (stored_pets s)))
    \<and> ((\<forall>p \<in> set ps. stored_pets s (p_id p) \<noteq> None) \<longrightarrow>
      (\<exists>s'. mem_update tr ps s = (s', Ok ()) \<and> mem_good tr s' \<and> mem_free s'
        \<and> stored_pets s' = add_pets ps (stored_pets s)))
    \<and> (\<exists>s'. mem_delete tr is s = (s', Ok ()) \<and> mem_good tr s' \<and> mem_free s'
        \<and> stored_pets s' = (stored_pets s) |` (- set is))
    \<and> ((\<exists>p \<in> set ps. stored_pets s (p_id p) \<noteq> None) \<longrightarrow>
      stored_pets (fst (mem_add tr ps s)) = stored_pets s \<and> \<not> is_ok (snd (mem_add tr ps s)))
    \<and> ((\<exists>p \<in> set ps. stored_pets s (p_id p) = None) \<longrightarrow>
      stored_pets (fst (mem_update tr ps s)) = stored_pets s \<and> \<not> is_ok (snd (mem_update tr ps s)))
    \<and> mem_good tr (new_mem tr) \<and> mem_free (new_mem tr)"
proof (intro conjI impI)
  have "llrb_laws tr" using assms(1) by (simp add: mem_good_def)
  then show "mem_good tr (new_mem tr)" using mem_inv_new(1) by (simp add: mem_good_def)
  show "mem_free (new_mem tr)" by (simp add: mem_free_def new_mem_def)
qed (use ms.add_new [OF assms] ms.update_old [OF assms] ms.remove_any [OF assms(1,2), of "is"]
       ms.refused_whole [OF assms(1,2)] in blast)+

theorem storage_refines_map_witness:
  "let p = some_pet ''a'' ''Rex''; s = fst (mem_add list_llrb [p] (new_mem list_llrb))
   in snd (mem_add list_llrb [p] (new_mem list_llrb)) = Ok () \<and> stored_pets s ''a'' = Some p
     \<and> stored_pets (fst (mem_delete list_llrb [''b'', ''a''] s)) = Map.empty"
proof -
  let ?p = "some_pet ''a'' ''Rex''"
  have none: "stored_pets (new_mem list_llrb) = Map.empty" by (simp add: stored_pets_def new_mem_def)
  have bd: "\<forall>p \<in> set [?p]. p_birthday p \<noteq> None" by simp
  obtain s where s: "mem_add list_llrb [?p] (new_mem list_llrb) = (s, Ok ())" "mem_good list_llrb s" "mem_free s"
    "stored_pets s = [''a'' \<mapsto> ?p]"
    using storage_refines_map [OF demo_store(1,2) bd] by (auto simp: none)
  have "\<forall>p \<in> set []. p_birthday p \<noteq> None" by simp
  from storage_refines_map [OF s(2,3) this, of "[''b'', ''a'']"]
  have "stored_pets (fst (mem_delete list_llrb [''b'', ''a''] s)) = Map.empty"
    by (auto simp: s(4) fun_eq_iff restrict_map_def)
  then show ?thesis by (simp add: s Let_def)
qed

section \<open>The lock after a refused batch\<close>

datatype mem_call =
    AddCall "pet list"
  | UpdateCall "pet list"
  | DeleteCall "string list"
  | SearchCall search_req

fun as_items :: "'s \<times> (pet_err, unit) outcome \<Rightarrow> 's \<times> (pet_err, pet option list) outcome" where
  "as_items (s, oc) = (s, then_ok oc (\<lambda>_. Ok []))"

fun mem_step :: "'t llrb \<Rightarrow> (string list list \<Rightarrow> string list list) \<Rightarrow> mem_call \<Rightarrow> 't mem
    \<Rightarrow> 't mem \<times> (pet_err, pet option list) outcome" where
  "mem_step tr arr (AddCall ps) s = as_items (mem_add tr ps s)"
| "mem_step tr arr (UpdateCall ps) s = as_items (mem_update tr ps s)"
| "mem_step tr arr (DeleteCall is) s = as_items (mem_delete tr is s)"
| "mem_step tr arr (SearchCall f) s = mem_search tr arr None f s"

interpretation ml: locked_object "mem_step tr arr" writer_waits "\<lambda>_ _. True" for tr :: "'t llrb" and arr
proof
  fix s :: "'t mem" and x
  assume "writer_waits s"
  then show "mem_step tr arr x s = (s, Blocked)"
    by (cases x) (simp_all add: mem_add_def mem_update_def mem_delete_def mem_search_def)
qed

lemma leaked_writer:
  assumes "leaked s > 0"
  shows "mem_delete tr is s = (if writer_waits s then s else s\<lparr>writer_waits := True\<rparr>, Blocked)"
  using assms by (simp add: mem_delete_def with_lock_def)

text \<open>
  C0: One refused batch is the end of the storage. A call of \<open>AddPets\<close> with an id that is
  already stored returns an error without releasing its read lock. Searches still get
  their answers, but the next deletion never returns, and from then on no call of any kind
  returns.
\<close>

theorem refused_batch_blocks_storage:
  assumes "mem_free s" and "p \<in> set ps" and "stored_pets s (p_id p) \<noteq> None"
  shows "\<exists>s1 e. mem_add tr ps s = (s1, Err e)
    \<and> snd (mem_search tr arr None f s1) = snd (mem_search tr arr None f s)
    \<and> (\<exists>s2. mem_delete tr is s1 = (s2, Blocked)
        \<and> run_ops (mem_step tr arr) calls s2 = (s2, replicate (length calls) Blocked))"
proof -
  obtain e where e: "mem_add tr ps s = (s\<lparr>leaked := 1\<rparr>, Err e)"
    using mem_refused(1) [OF assms(1), of ps tr] assms(2,3) by blast
  have w: "\<not> writer_waits s" using assms(1) by (simp add: mem_free_def)
  have "search_pets tr arr f (s\<lparr>leaked := 1\<rparr>) = search_pets tr arr f s"
    by (simp add: search_pets_def by_birthdays_def by_names_def by_types_def compare_panics_def
        return_all_def split: option.splits)
  then have "snd (mem_search tr arr None f (s\<lparr>leaked := 1\<rparr>)) = snd (mem_search tr arr None f s)"
    using w by (simp add: mem_search_def split: outcome.splits)
  moreover have "mem_delete tr is (s\<lparr>leaked := 1\<rparr>) = (s\<lparr>leaked := 1, writer_waits := True\<rparr>, Blocked)"
    using leaked_writer [of "s\<lparr>leaked := 1\<rparr>" tr "is"] w by simp
  moreover have "run_ops (mem_step tr arr) calls (s\<lparr>leaked := 1, writer_waits := True\<rparr>)
      = (s\<lparr>leaked := 1, writer_waits := True\<rparr>, replicate (length calls) Blocked)"
    by (rule ml.stuck_run) simp_all
  ultimately show ?thesis using e by blast
qed

theorem refused_batch_blocks_storage_witness:
  "let s = fst (mem_add list_llrb [some_pet ''a'' ''Rex''] (new_mem list_llrb));
       s1 = fst (mem_add list_llrb [some_pet ''a'' ''Tom''] s)
   in snd (mem_delete list_llrb [] s1) = Blocked"
proof -
  let ?p = "some_pet ''a'' ''Rex''" and ?q = "some_pet ''a'' ''Tom''"
  have none: "stored_pets (new_mem list_llrb) = Map.empty" by (simp add: stored_pets_def new_mem_def)
  obtain s where s: "mem_add list_llrb [?p] (new_mem list_llrb) = (s, Ok ())" "mem_free s"
    "stored_pets s = [''a'' \<mapsto> ?p]"
    using ms.add_new [OF demo_store(1,2), of "[?p]"] by (auto simp: none)
  have "?q \<in> set [?q]" "stored_pets s (p_id ?q) \<noteq> None" by (simp_all add: s(3))
  from refused_batch_blocks_storage [OF s(2) this, of list_llrb "\<lambda>x. x"
      "\<lparr>sr_names = [], sr_types = [], sr_range = None\<rparr>" "[]" "[]"]
  show ?thesis by (auto simp: s(1))
qed

end
