(* ===== verification/Pet_Search.thy ===== *)
theory Pet_Search
  imports Pet_Refine
begin

text \<open>
  Searches of the in-memory storage: what the collector passes on, when the answer is
  exactly the matching pets, and the ways in which it is not or does not come.
\<close>

section \<open>The collector counts\<close>

lemma count_collect:
  "count_list (collect k is m) i = (if m i < k \<and> k \<le> m i + count_list is i then 1 else 0)"
  by (induction "is" arbitrary: m) (auto simp: Let_def)

lemma count_list_mset: "count_list xs x = count (mset xs) x"
  by (induction xs) auto

lemma distinct_count_list: "(\<And>x. count_list xs x \<le> 1) \<Longrightarrow> distinct xs"
  by (simp add: count_list_mset distinct_count_atmost_1 le_Suc_eq)

lemma set_count_list: "x \<in> set xs \<longleftrightarrow> 0 < count_list xs x"
  by (metis count_list_0_iff gr0I less_numeral_extra(3))

lemma distinct_collect: "distinct (collect k is m)"
  by (rule distinct_count_list) (simp add: count_collect)

lemma set_collect: "i \<in> set (collect k is m) \<longleftrightarrow> m i < k \<and> k \<le> m i + count_list is i"
  by (simp add: set_count_list count_collect)

lemma count_concat_perm:
  assumes "mset ys = mset xs"
  shows "count_list (concat ys) i = count_list (concat xs) i"
proof -
  have "mset (concat zs) = sum_mset (image_mset mset (mset zs))" for zs :: "'a list list"
    by (simp add: mset_concat sum_mset_sum_list [symmetric])
  then show ?thesis by (simp only: count_list_mset assms)
qed

lemma count_distinct: "distinct xs \<Longrightarrow> count_list xs x = (if x \<in> set xs then 1 else 0)"
  by (induction xs) auto

lemma count_concat_unique:
  assumes "distinct xs" and "\<And>a. a \<in> set xs \<Longrightarrow> count_list (g a) i = (if Q a then 1 else 0)"
    and "\<And>a b. a \<in> set xs \<Longrightarrow> b \<in> set xs \<Longrightarrow> Q a \<Longrightarrow> Q b \<Longrightarrow> a = b"
  shows "count_list (concat (map g xs)) i = (if \<exists>a \<in> set xs. Q a then 1 else 0)"
  using assms
proof (induction xs)
  case Nil
  then show ?case by simp
next
  case (Cons x xs)
  have "count_list (concat (map g xs)) i = (if \<exists>a \<in> set xs. Q a then 1 else 0)"
    by (rule Cons.IH) (use Cons.prems in auto)
  moreover have "\<not> (\<exists>a \<in> set xs. Q a)" if "Q x" using Cons.prems(1,3) that by fastforce
  ultimately show ?case using Cons.prems(2) [of x] by simp
qed

section \<open>The answers of the three indexes\<close>

lemma count_index_ids:
  assumes "index_ok m" "exact (in_index m) key st" "distinct ks"
  shows "count_list (index_ids m ks) i = (if \<exists>p. st i = Some p \<and> key p \<in> set ks then 1 else 0)"
proof -
  have ex: "(\<exists>p. in_index m k i p) \<longleftrightarrow> (\<exists>p. st i = Some p \<and> key p = k)" for k
    using assms(2) by (simp add: exact_def)
  have one: "count_list (case map_of m k of None \<Rightarrow> [] | Some v \<Rightarrow> map fst v) i
      = (if \<exists>p. in_index m k i p then 1 else 0)" for k
  proof (cases "map_of m k")
    case None
    then show ?thesis by (simp add: in_index_def)
  next
    case (Some v)
    then have "distinct (map fst v)" using assms(1) by (simp add: index_ok_def gmap_ok_def)
    moreover have "i \<in> fst ` set v \<longleftrightarrow> (\<exists>p. in_index m k i p)"
      using Some map_of_None_iff_key [of v i] by (auto simp: in_index_def)
    ultimately show ?thesis using Some by (simp add: count_distinct)
  qed
  have "count_list (index_ids m ks) i = (if \<exists>k \<in> set ks. \<exists>p. in_index m k i p then 1 else 0)"
    unfolding index_ids_def by (rule count_concat_unique [OF assms(3) one]) (auto simp: ex)
  moreover have "(\<exists>k \<in> set ks. \<exists>p. in_index m k i p) \<longleftrightarrow> (\<exists>p. st i = Some p \<and> key p \<in> set ks)"
    by (auto simp: ex)
  ultimately show ?thesis by simp
qed

text \<open>The sets of the tree with a birthday from \<open>x\<close> on and before \<open>y\<close>.\<close>

definition range_ids :: "'t llrb \<Rightarrow> 't mem \<Rightarrow> go_time \<Rightarrow> go_time \<Rightarrow> string list" where
  "range_ids tr s x y =
     concat (map (\<lambda>a. map (\<lambda>z. p_id (snd z)) (bsets s a))
       (filter (\<lambda>a. x \<le> set_key (bsets s) a \<and> set_key (bsets s) a < y) (t_items tr (birthday s))))"

lemma map_p_id:
  assumes "set_ok bs a"
  shows "map (\<lambda>z. p_id (snd z)) (bs a) = map fst (bs a)"
  using assms by (auto simp: set_ok_def in_set_def)

lemma count_range_ids:
  assumes ok: "tree_ok tr s" and ex: "exact (in_tree tr s) btime st"
  shows "count_list (range_ids tr s x y) i = (if \<exists>p. st i = Some p \<and> x \<le> btime p \<and> btime p < y then 1 else 0)"
proof -
  let ?key = "set_key (bsets s)" and ?as = "t_items tr (birthday s)"
  let ?in = "\<lambda>a. \<exists>p. map_of (bsets s a) i = Some p"
  let ?r = "filter (\<lambda>a. x \<le> ?key a \<and> ?key a < y) ?as"
  have ord: "in_order ?key ?as" using ok by (simp add: tree_ok_def)
  have at: "?in a \<longleftrightarrow> (\<exists>p. st i = Some p \<and> btime p = ?key a)" if "a \<in> set ?as" for a
    using in_tree_at [OF ord that] ex by (simp add: exact_def)
  have d: "distinct ?r" using ord by (simp add: in_order_def distinct_map)
  have one: "count_list (map (\<lambda>z. p_id (snd z)) (bsets s a)) i = (if ?in a then 1 else 0)" if "a \<in> set ?r" for a
  proof -
    have sa: "set_ok (bsets s) a" using ok that by (simp add: tree_ok_def)
    then have "distinct (map fst (bsets s a))" by (simp add: set_ok_def gmap_ok_def)
    moreover have "i \<in> fst ` set (bsets s a) \<longleftrightarrow> ?in a"
      using map_of_None_iff_key [of "bsets s a" i] by auto
    ultimately show ?thesis by (simp add: map_p_id [OF sa] count_distinct)
  qed
  have inj: "a = b" if "a \<in> set ?r" "b \<in> set ?r" "?in a" "?in b" for a b
    using at [of a] at [of b] in_order_inj [OF ord, of a b] that by auto
  have "count_list (range_ids tr s x y) i = (if \<exists>a \<in> set ?r. ?in a then 1 else 0)"
    unfolding range_ids_def by (rule count_concat_unique [OF d one inj])
  moreover have "(\<exists>a \<in> set ?r. ?in a) \<longleftrightarrow> (\<exists>p. st i = Some p \<and> x \<le> btime p \<and> btime p < y)"
  proof
    assume "\<exists>a \<in> set ?r. ?in a"
    then show "\<exists>p. st i = Some p \<and> x \<le> btime p \<and> btime p < y" using at by fastforce
  next
    assume "\<exists>p. st i = Some p \<and> x \<le> btime p \<and> btime p < y"
    then obtain p where p: "st i = Some p" "x \<le> btime p" "btime p < y" by blast
    then have "in_tree tr s (btime p) i p" using ex by (simp add: exact_def)
    then obtain a where "a \<in> set ?as" "?key a = btime p" "map_of (bsets s a) i = Some p"
      unfolding in_tree_def by blast
    with p show "\<exists>a \<in> set ?r. ?in a" by (intro bexI [of _ a]) auto
  qed
  ultimately show ?thesis by simp
qed

lemma by_birthdays_range:
  assumes laws: "llrb_laws tr" and ok: "tree_ok tr s" and f: "sr_range f = Some (Some a, Some b)"
    and le: "date_time (Some a) \<le> date_time (Some b)"
  shows "by_birthdays tr s f = Ok (range_ids tr s (date_time (Some a)) (date_time (Some b)))"
proof -
  have ord: "in_order (set_key (bsets s)) (t_items tr (birthday s))" using ok by (simp add: tree_ok_def)
  have "\<not> compare_panics tr (Some b) s" by (rule no_compare_panic [OF ok]) simp
  then show ?thesis
    using le by (simp add: by_birthdays_def f range_ids_def llrb_range [OF laws ord] not_less)
qed

section \<open>When a search is exact\<close>

definition wants :: "search_req \<Rightarrow> pet \<Rightarrow> bool" where
  "wants f p \<longleftrightarrow>
     (sr_names f \<noteq> [] \<longrightarrow> p_name p \<in> set (sr_names f))
     \<and> (sr_types f \<noteq> [] \<longrightarrow> p_type p \<in> set (sr_types f))
     \<and> (case sr_range f of None \<Rightarrow> True
        | Some (a, b) \<Rightarrow> date_time a \<le> btime p \<and> btime p < date_time b)"

definition good_range :: "search_req \<Rightarrow> bool" where
  "good_range f \<longleftrightarrow>
     (case sr_range f of None \<Rightarrow> True
      | Some (a, b) \<Rightarrow> a \<noteq> None \<and> b \<noteq> None \<and> date_time a \<le> date_time b)"

lemma counts_of_search:
  assumes laws: "llrb_laws tr" and inv: "mem_inv tr s" and ex: "mem_exact tr s"
    and d: "distinct (sr_names f)" "distinct (sr_types f)" and r: "good_range f" and fs: "filters f \<noteq> 0"
  shows "\<exists>bs. by_birthdays tr s f = Ok bs \<and>
    (\<forall>i. filters f \<le> count_list (concat [by_names s f, by_types s f, bs]) i
      \<longleftrightarrow> (\<exists>p. map_of (ids s) i = Some p \<and> wants f p))"
proof -
  let ?st = "map_of (ids s)"
  have shape: "index_ok (names s)" "index_ok (types s)" "tree_ok tr s"
    using inv by (simp_all add: mem_inv_def mem_shape_def)
  have exs: "exact (in_index (names s)) p_name ?st" "exact (in_index (types s)) p_type ?st"
    "exact (in_tree tr s) btime ?st" using ex by (simp_all add: mem_exact_def)
  note n = count_index_ids [OF shape(1) exs(1) d(1), folded by_names_def]
    and t = count_index_ids [OF shape(2) exs(2) d(2), folded by_types_def]
  show ?thesis
  proof (cases "sr_range f")
    case None
    then have b: "by_birthdays tr s f = Ok []" by (simp add: by_birthdays_def)
    have "filters f \<le> count_list (concat [by_names s f, by_types s f, []]) i \<longleftrightarrow> (\<exists>p. ?st i = Some p \<and> wants f p)" for i
      using fs by (cases "?st i") (auto simp: n t wants_def filters_def None)
    with b show ?thesis by blast
  next
    case (Some ab)
    then obtain a b where ab: "sr_range f = Some (Some a, Some b)" "date_time (Some a) \<le> date_time (Some b)"
      using r by (cases ab) (auto simp: good_range_def)
    note bd = by_birthdays_range [OF laws shape(3) ab]
      and c = count_range_ids [OF shape(3) exs(3), of "date_time (Some a)" "date_time (Some b)"]
    have "filters f \<le> count_list (concat [by_names s f, by_types s f,
        range_ids tr s (date_time (Some a)) (date_time (Some b))]) i \<longleftrightarrow> (\<exists>p. ?st i = Some p \<and> wants f p)" for i
      by (cases "?st i") (auto simp: n t c wants_def filters_def ab(1))
    with bd show ?thesis by blast
  qed
qed

lemma search_exact_aux:
  assumes good: "mem_good tr s" and ex: "mem_exact tr s"
    and d: "distinct (sr_names f)" "distinct (sr_types f)" and r: "good_range f"
    and arr: "\<And>xs. mset (arrive xs) = mset xs"
  shows "\<exists>items. search_pets tr arrive f s = Ok items \<and> distinct items
    \<and> set items = {Some p | i p. stored_pets s i = Some p \<and> wants f p}"
proof -
  have laws: "llrb_laws tr" and inv: "mem_inv tr s" using good by (simp_all add: mem_good_def)
  have pets: "gmap_ok (ids s)" "\<And>i p. map_of (ids s) i = Some p \<Longrightarrow> p_id p = i"
    using inv by (simp_all add: mem_inv_def mem_shape_def pets_ok_def)
  have inj: "inj_on (\<lambda>i. map_of (ids s) i) (dom (map_of (ids s)))"
    by (rule inj_onI) (metis domD pets(2))
  show ?thesis
  proof (cases "filters f = 0")
    case True
    then have w: "wants f p" for p
      by (cases "sr_range f") (simp_all add: filters_def wants_def split: if_splits)
    have eq: "map fst (ids s) = map (p_id \<circ> snd) (ids s)"
      using pets by (auto simp: set_gmap_iff [symmetric])
    then have "distinct (map (p_id \<circ> snd) (ids s))" using pets(1) by (simp only: gmap_ok_def eq)
    then have "distinct (map (\<lambda>x. Some (snd x)) (ids s))" by (auto simp: distinct_map inj_on_def)
    moreover have "set (map (\<lambda>x. Some (snd x)) (ids s)) = {Some p | i p. stored_pets s i = Some p}"
      using set_gmap_iff [OF pets(1)] by (force simp: stored_pets_def)
    ultimately show ?thesis using True w by (simp add: search_pets_def return_all_def)
  next
    case False
    obtain bs where bs: "by_birthdays tr s f = Ok bs"
      "\<And>i. filters f \<le> count_list (concat [by_names s f, by_types s f, bs]) i
        \<longleftrightarrow> (\<exists>p. map_of (ids s) i = Some p \<and> wants f p)"
      using counts_of_search [OF laws inv ex d r False] by blast
    let ?c = "collect (filters f) (concat (arrive [by_names s f, by_types s f, bs])) (\<lambda>_. 0)"
    have c: "i \<in> set ?c \<longleftrightarrow> (\<exists>p. map_of (ids s) i = Some p \<and> wants f p)" for i
      using False bs(2) [of i] by (simp only: set_collect count_concat_perm [OF arr]) simp
    then have "inj_on (\<lambda>i. map_of (ids s) i) (set ?c)" by (intro inj_on_subset [OF inj]) auto
    then have "distinct (map (\<lambda>i. map_of (ids s) i) ?c)" by (simp add: distinct_map distinct_collect)
    moreover have "set (map (\<lambda>i. map_of (ids s) i) ?c) = {Some p | i p. stored_pets s i = Some p \<and> wants f p}"
      unfolding set_map stored_pets_def
    proof (intro set_eqI iffI)
      fix x assume "x \<in> (\<lambda>i. map_of (ids s) i) ` set ?c"
      then obtain i where "x = map_of (ids s) i" "i \<in> set ?c" by blast
      then show "x \<in> {Some p | i p. map_of (ids s) i = Some p \<and> wants f p}" using c [of i] by fastforce
    next
      fix x assume "x \<in> {Some p | i p. map_of (ids s) i = Some p \<and> wants f p}"
      then obtain i p where i: "x = Some p" "map_of (ids s) i = Some p" "wants f p" by blast
      show "x \<in> (\<lambda>i. map_of (ids s) i) ` set ?c"
        by (rule image_eqI [where x = i]) (use i in \<open>auto simp: c\<close>)
    qed
    ultimately show ?thesis using False by (simp add: search_pets_def bs(1))
  qed
qed

text \<open>
  C12: Searching. On a storage that was filled by additions and emptied by deletions only
  (its indexes are exact), a search whose lists of names and types have no duplicates and
  whose date range has two dates in order answers, in whatever order the indexes are heard,
  with every stored pet that passes all the filters given, each once, and with nothing else.
  The range includes its start and excludes its end.
\<close>

theorem search_exact:
  assumes good: "mem_good tr s" and ex: "mem_exact tr s"
    and d: "distinct (sr_names f)" "distinct (sr_types f)" and r: "good_range f"
    and arr: "\<And>xs. mset (arrive xs) = mset xs"
  shows "\<exists>items. search_pets tr arrive f s = Ok items \<and> distinct items
    \<and> set items = {Some p | i p. stored_pets s i = Some p \<and> wants f p}"
  by (rule search_exact_aux [OF assms])

text \<open>A search for one name.\<close>

definition by_name :: "string \<Rightarrow> search_req" where
  "by_name n = \<lparr>sr_names = [n], sr_types = [], sr_range = None\<rparr>"

lemma by_name_simps [simp]:
  "sr_names (by_name n) = [n]" "sr_types (by_name n) = []" "sr_range (by_name n) = None"
  "filters (by_name n) = 1" "good_range (by_name n)" "wants (by_name n) p \<longleftrightarrow> p_name p = n"
  by (simp_all add: by_name_def filters_def good_range_def wants_def)

theorem search_exact_witness:
  "let p = some_pet ''a'' ''Rex''; s = fst (mem_add list_llrb [p, some_pet ''b'' ''Tom''] (new_mem list_llrb))
   in \<exists>items. search_pets list_llrb rev (by_name ''Rex'') s = Ok items \<and> set items = {Some p}"
proof -
  let ?p = "some_pet ''a'' ''Rex''" and ?q = "some_pet ''b'' ''Tom''"
  have none: "stored_pets (new_mem list_llrb) = Map.empty" by (simp add: stored_pets_def new_mem_def)
  obtain s where s: "mem_add list_llrb [?p, ?q] (new_mem list_llrb) = (s, Ok ())" "mem_good list_llrb s"
    "stored_pets s = [''a'' \<mapsto> ?p, ''b'' \<mapsto> ?q]" "mem_exact list_llrb s"
    using ms.add_new [OF demo_store(1,2), of "[?p, ?q]"] demo_store(3) by (auto simp: none)
  have d: "distinct (sr_names (by_name ''Rex''))" "distinct (sr_types (by_name ''Rex''))" by simp_all
  have "{Some p | i p. stored_pets s i = Some p \<and> wants (by_name ''Rex'') p} = {Some ?p}"
    by (auto simp: s(3) split: if_splits)
  then show ?thesis using search_exact [OF s(2,4) d, of rev] by (auto simp: s(1))
qed

section \<open>Answers that are not exact\<close>

lemma in_index_ids: "in_index m k i p \<Longrightarrow> k \<in> set ks \<Longrightarrow> i \<in> set (index_ids m ks)"
  using map_of_SomeD [of _ i p] by (force simp: index_ids_def in_index_def)

lemma search_names_hit:
  assumes "in_index (names s) n i p" and "\<And>xs. mset (arrive xs) = mset xs"
  shows "\<exists>items. search_pets tr arrive (by_name n) s = Ok items \<and> map_of (ids s) i \<in> set items"
proof -
  have "i \<in> set (by_names s (by_name n))" using in_index_ids [OF assms(1)] by (simp add: by_names_def)
  then have "0 < count_list (by_names s (by_name n)) i" by (simp add: set_count_list)
  then have "i \<in> set (collect 1 (concat (arrive [by_names s (by_name n), by_types s (by_name n), []])) (\<lambda>_. 0))"
    by (simp only: set_collect count_concat_perm [OF assms(2)]) simp
  then show ?thesis by (simp add: search_pets_def by_birthdays_def)
qed

lemma update_one:
  assumes "mem_good tr s" "mem_free s" "stored_pets s (p_id q) \<noteq> None" "p_birthday q \<noteq> None"
  shows "mem_update tr [q] s = (birthday_put tr q (put_maps q s), Ok ())"
proof -
  have "\<not> compare_panics tr (p_birthday q) (put_maps q s)"
    using put_round(1) [of tr s q] assms(1,4) unfolding mem_good_def by blast
  then show ?thesis using assms(2,3)
    by (simp add: mem_update_def with_lock_def mem_free_def stored_pets_def populate_Cons del: populate.simps(2))
qed

lemma delete_one:
  assumes "mem_good tr s" "mem_free s" "stored_pets s i = Some q"
  shows "mem_delete tr [i] s = (birthday_del tr q (del_maps i q s), Ok ())"
proof -
  have "\<not> compare_panics tr (p_birthday q) (del_maps i q s)"
    using del_round(1) [of tr s i q] assms(1,3) unfolding mem_good_def stored_pets_def by blast
  then show ?thesis using assms(2,3)
    by (simp add: mem_delete_def with_lock_def mem_free_def stored_pets_def delete_all_Cons del: delete_all.simps(2))
qed

text \<open>
  An update does not take the old pet out of the indexes. After an update that gives a
  stored pet another name, a search for the old name still finds it and answers with the
  renamed pet; after the pet is then deleted, the search for its old name answers with a
  nil pet.
\<close>

theorem renamed_pet_found_by_old_name:
  assumes good: "mem_good tr s" and free: "mem_free s" and old: "stored_pets s (p_id q) = Some p"
    and bd: "p_birthday q \<noteq> None" and ne: "p_name q \<noteq> p_name p"
    and arr: "\<And>xs. mset (arrive xs) = mset xs"
  shows "\<exists>s1 s2 items1 items2. mem_update tr [q] s = (s1, Ok ()) \<and> mem_delete tr [p_id q] s1 = (s2, Ok ())
    \<and> search_pets tr arrive (by_name (p_name p)) s1 = Ok items1 \<and> Some q \<in> set items1
    \<and> search_pets tr arrive (by_name (p_name p)) s2 = Ok items2 \<and> None \<in> set items2"
proof -
  define s1 where "s1 = birthday_put tr q (put_maps q s)"
  define s2 where "s2 = birthday_del tr q (del_maps (p_id q) q s1)"
  have u: "mem_update tr [q] s = (s1, Ok ())"
    unfolding s1_def by (rule update_one [OF good free _ bd]) (simp add: old)
  have "\<forall>p \<in> set [q]. p_birthday p \<noteq> None" "\<forall>p \<in> set [q]. stored_pets s (p_id p) \<noteq> None"
    using bd old by simp_all
  from ms.update_old [OF good free this] have s1: "mem_good tr s1" "mem_free s1"
    "stored_pets s1 = (stored_pets s)(p_id q \<mapsto> q)" by (auto simp: u)
  have d: "mem_delete tr [p_id q] s1 = (s2, Ok ())"
    unfolding s2_def by (rule delete_one [OF s1(1,2)]) (simp add: s1(3))
  have ix: "index_ok (names s1)" and new: "in_index (names s1) (p_name q) (p_id q) q"
    using s1 by (simp_all add: mem_good_def mem_inv_def mem_shape_def mem_linked_def linked_def stored_pets_def)
  have "in_index (names s) (p_name p) (p_id q) p"
    using good old by (simp add: mem_good_def mem_inv_def mem_linked_def linked_def stored_pets_def)
  then have h1: "in_index (names s1) (p_name p) (p_id q) p"
    using ne by (simp add: s1_def in_index_put put_rel_def)
  then have h2: "in_index (names s2) (p_name p) (p_id q) p"
    using ne in_index_del(1) [OF ix new] by (simp add: s2_def del_rel_def)
  have "map_of (ids s1) (p_id q) = Some q" "map_of (ids s2) (p_id q) = None"
    using s1(3) by (simp_all add: stored_pets_def s2_def)
  then show ?thesis
    using u d search_names_hit [OF h1 arr, of tr] search_names_hit [OF h2 arr, of tr] by metis
qed

theorem renamed_pet_found_by_old_name_witness:
  "let s = fst (mem_add list_llrb [some_pet ''a'' ''Rex''] (new_mem list_llrb));
       s1 = fst (mem_update list_llrb [some_pet ''a'' ''Tom''] s)
   in \<exists>items. search_pets list_llrb rev (by_name ''Rex'') s1 = Ok items \<and> Some (some_pet ''a'' ''Tom'') \<in> set items"
proof -
  let ?p = "some_pet ''a'' ''Rex''" and ?q = "some_pet ''a'' ''Tom''"
  have none: "stored_pets (new_mem list_llrb) = Map.empty" by (simp add: stored_pets_def new_mem_def)
  obtain s where s: "mem_add list_llrb [?p] (new_mem list_llrb) = (s, Ok ())" "mem_good list_llrb s" "mem_free s"
    "stored_pets s = [''a'' \<mapsto> ?p]"
    using ms.add_new [OF demo_store(1,2), of "[?p]"] by (auto simp: none)
  have "stored_pets s (p_id ?q) = Some ?p" "p_birthday ?q \<noteq> None" "p_name ?q \<noteq> p_name ?p"
    by (simp_all add: s(4))
  from renamed_pet_found_by_old_name [OF s(2,3) this, of rev] show ?thesis
    by (auto simp: s(1))
qed

text \<open>
  A value that occurs twice in a filter is counted twice. With a name given twice and a
  type, a search answers also with a pet of that name that has another type.
\<close>

theorem duplicate_filter_value:
  assumes good: "mem_good tr s" and p: "stored_pets s i = Some p" and t: "p_type p \<noteq> t"
    and arr: "\<And>xs. mset (arrive xs) = mset xs"
  shows "\<exists>items. search_pets tr arrive \<lparr>sr_names = [p_name p, p_name p], sr_types = [t], sr_range = None\<rparr> s = Ok items
    \<and> Some p \<in> set items \<and> \<not> wants \<lparr>sr_names = [p_name p, p_name p], sr_types = [t], sr_range = None\<rparr> p"
proof -
  let ?f = "\<lparr>sr_names = [p_name p, p_name p], sr_types = [t], sr_range = None\<rparr>"
  have "in_index (names s) (p_name p) i p"
    using good p by (simp add: mem_good_def mem_inv_def mem_linked_def linked_def stored_pets_def)
  then have "i \<in> set (index_ids (names s) [p_name p])" by (rule in_index_ids) simp
  then have "2 \<le> count_list (by_names s ?f) i"
    using set_count_list [of i "index_ids (names s) [p_name p]"] by (simp add: by_names_def index_ids_def)
  moreover have "filters ?f = 2" by (simp add: filters_def)
  ultimately have "i \<in> set (collect (filters ?f) (concat (arrive [by_names s ?f, by_types s ?f, []])) (\<lambda>_. 0))"
    by (simp only: set_collect count_concat_perm [OF arr]) simp
  moreover have "filters ?f \<noteq> 0" by (simp add: filters_def)
  ultimately show ?thesis
    using p t by (auto simp: search_pets_def by_birthdays_def stored_pets_def wants_def
        intro!: image_eqI [where x = i])
qed

theorem duplicate_filter_value_witness:
  "let p = some_pet ''a'' ''Rex''; s = fst (mem_add list_llrb [p] (new_mem list_llrb))
   in \<exists>items. search_pets list_llrb (\<lambda>x. x) \<lparr>sr_names = [''Rex'', ''Rex''], sr_types = [2], sr_range = None\<rparr> s = Ok items
     \<and> Some p \<in> set items"
proof -
  let ?p = "some_pet ''a'' ''Rex''"
  have none: "stored_pets (new_mem list_llrb) = Map.empty" by (simp add: stored_pets_def new_mem_def)
  obtain s where s: "mem_add list_llrb [?p] (new_mem list_llrb) = (s, Ok ())" "mem_good list_llrb s"
    "stored_pets s = [''a'' \<mapsto> ?p]"
    using ms.add_new [OF demo_store(1,2), of "[?p]"] by (auto simp: none)
  have "stored_pets s ''a'' = Some ?p" "p_type ?p \<noteq> 2" "p_name ?p = ''Rex''" by (simp_all add: s(3))
  then show ?thesis using duplicate_filter_value [OF s(2), of "''a''" ?p 2 "\<lambda>x. x"] by (auto simp: s(1))
qed

section \<open>Searches that crash or never release the lock\<close>

lemma inverted_range_panics:
  assumes good: "mem_good tr s" and p: "stored_pets s \<noteq> Map.empty"
    and f: "sr_range f = Some (Some a, Some b)" and lt: "date_time (Some b) < date_time (Some a)"
  shows "search_pets tr arrive f s = Panics (PanicMsg ''llrb: inverted range'')"
proof -
  have laws: "llrb_laws tr" and ok: "tree_ok tr s" and l: "linked (in_tree tr s) btime (map_of (ids s))"
    using good by (simp_all add: mem_good_def mem_inv_def mem_shape_def mem_linked_def)
  obtain i p where "map_of (ids s) i = Some p" using p by (auto simp: stored_pets_def fun_eq_iff)
  then have "in_tree tr s (btime p) i p" using l by (simp add: linked_def)
  then have ne: "t_items tr (birthday s) \<noteq> []" unfolding in_tree_def by fastforce
  have ord: "in_order (set_key (bsets s)) (t_items tr (birthday s))" using ok by (simp add: tree_ok_def)
  have "\<not> compare_panics tr (Some b) s" by (rule no_compare_panic [OF ok]) simp
  then have "by_birthdays tr s f = Panics (PanicMsg ''llrb: inverted range'')"
    using lt ne by (simp add: by_birthdays_def f llrb_range [OF laws ord])
  then show ?thesis by (simp add: search_pets_def filters_def f)
qed

text \<open>
  A client that stops reading the answer of a filtered search while more than one item
  is left to be sent leaves the read lock taken: the next deletion never returns, and then
  no call of the storage does.
\<close>

theorem abandoned_search_blocks_storage:
  assumes "\<not> writer_waits s" and "filters f > 0" and "search_pets tr arrive f s = Ok items"
    and "length items > Suc k"
  shows "\<exists>s1 s2. mem_search tr arrive (Some k) f s = (s1, Ok (take k items))
    \<and> mem_delete tr is s1 = (s2, Blocked)
    \<and> run_ops (mem_step tr arr) calls s2 = (s2, replicate (length calls) Blocked)"
proof -
  let ?s1 = "s\<lparr>leaked := Suc (leaked s)\<rparr>"
  have "mem_search tr arrive (Some k) f s = (?s1, Ok (take k items))"
    using assms by (simp add: mem_search_def)
  moreover have "mem_delete tr is ?s1 = (?s1\<lparr>writer_waits := True\<rparr>, Blocked)"
    using leaked_writer [of ?s1 tr "is"] assms(1) by simp
  moreover have "run_ops (mem_step tr arr) calls (?s1\<lparr>writer_waits := True\<rparr>)
      = (?s1\<lparr>writer_waits := True\<rparr>, replicate (length calls) Blocked)"
    by (rule ml.stuck_run) simp_all
  ultimately show ?thesis by blast
qed

lemma two_items:
  obtains s items where "mem_good list_llrb s" "mem_free s"
    "search_pets list_llrb rev (by_name ''Rex'') s = Ok items" "length items = 2"
proof -
  let ?p = "some_pet ''a'' ''Rex''" and ?q = "some_pet ''b'' ''Rex''"
  have none: "stored_pets (new_mem list_llrb) = Map.empty" by (simp add: stored_pets_def new_mem_def)
  obtain s where s: "mem_good list_llrb s" "mem_free s" "mem_exact list_llrb s"
    "stored_pets s = [''a'' \<mapsto> ?p, ''b'' \<mapsto> ?q]"
    using ms.add_new [OF demo_store(1,2), of "[?p, ?q]"] demo_store(3) by (auto simp: none)
  have laws: "llrb_laws list_llrb" and inv: "mem_inv list_llrb s" using s(1) by (simp_all add: mem_good_def)
  obtain bs where bs: "by_birthdays list_llrb s (by_name ''Rex'') = Ok bs"
    "\<And>i. 1 \<le> count_list (concat [by_names s (by_name ''Rex''), by_types s (by_name ''Rex''), bs]) i
      \<longleftrightarrow> (\<exists>p. map_of (ids s) i = Some p \<and> p_name p = ''Rex'')"
    using counts_of_search [OF laws inv s(3), of "by_name ''Rex''"] by auto
  let ?xs = "[by_names s (by_name ''Rex''), by_types s (by_name ''Rex''), bs]"
  let ?c = "collect 1 (concat (rev ?xs)) (\<lambda>_. 0)"
  have "i \<in> set ?c \<longleftrightarrow> i \<in> {''a'', ''b''}" for i
  proof -
    have "i \<in> set ?c \<longleftrightarrow> 1 \<le> count_list (concat ?xs) i"
      using count_concat_perm [of "rev ?xs" ?xs i] by (simp only: set_collect mset_rev) simp
    also have "\<dots> \<longleftrightarrow> i \<in> {''a'', ''b''}"
      using bs(2) [of i] s(4) by (simp only: stored_pets_def) auto
    finally show ?thesis .
  qed
  then have "set ?c = {''a'', ''b''}" by blast
  then have "card (set ?c) = 2" by simp
  then have "length ?c = 2" using distinct_card [OF distinct_collect [of 1 "concat (rev ?xs)" "\<lambda>_. 0"]] by simp
  moreover have "search_pets list_llrb rev (by_name ''Rex'') s = Ok (map (map_of (ids s)) ?c)"
    using bs(1) by (simp add: search_pets_def)
  ultimately show thesis using that [OF s(1,2)] by simp
qed

theorem abandoned_search_blocks_storage_witness:
  "\<exists>s s1. mem_good list_llrb s \<and> fst (mem_search list_llrb rev (Some 0) (by_name ''Rex'') s) = s1
     \<and> snd (mem_delete list_llrb [] s1) = Blocked"
proof -
  obtain s items where s: "mem_good list_llrb s" "mem_free s"
    "search_pets list_llrb rev (by_name ''Rex'') s = Ok items" "length items = 2" by (rule two_items)
  have h: "\<not> writer_waits s" "filters (by_name ''Rex'') > 0" "length items > Suc 0"
    using s(2,4) by (simp_all add: mem_free_def)
  from abandoned_search_blocks_storage [OF h(1,2) s(3) h(3), of "[]" "\<lambda>x. x" "[]"] s(1)
  show ?thesis by auto
qed

end
