(* ===== verification/Pet_Telemetry.thy ===== *)
theory Pet_Telemetry
  imports Go_Prelude "HOL-Library.List_Lexorder" "HOL-Library.Char_ord" Complex_Main
begin

text \<open>
  The telemetry of the pet store: the sampler and the exporter of traces
  (\<open>telemetry/tracing\<close>), the table of metrics (\<open>telemetry/metrics/metrics.go\<close>) and the
  flags of the program that set them up (\<open>petstore/petstore.go\<close>).
\<close>

section \<open>Floating point numbers\<close>

text \<open>A float64 as far as comparisons see it.\<close>

datatype go_float = NaN | NegInf | Fin rat | PosInf

fun float_le :: "go_float \<Rightarrow> rat \<Rightarrow> bool" where
  "float_le NaN r = False"
| "float_le NegInf r = True"
| "float_le (Fin q) r = (q \<le> r)"
| "float_le PosInf r = False"

fun float_gt :: "go_float \<Rightarrow> rat \<Rightarrow> bool" where
  "float_gt NaN r = False"
| "float_gt NegInf r = False"
| "float_gt (Fin q) r = (q > r)"
| "float_gt PosInf r = True"

section \<open>The sampler\<close>

text \<open>The samplers of the OpenTelemetry library the program chooses from.\<close>

datatype child_sampler = NeverSample | AlwaysSample | TraceIDRatio go_float

record span_context =
  sc_valid :: bool
  sc_remote :: bool
  sc_sampled :: bool
  sc_state :: string

record sampling_params =
  parent :: span_context
  incoming :: "string list option"
  trace_id :: string

datatype decision = RecordAndSample string | ByChild child_sampler

text \<open>\<open>child\<close> is the sampler stored last; \<open>incoming\<close> holds the keys of the gRPC metadata.\<close>

definition should_sample :: "child_sampler \<Rightarrow> sampling_params \<Rightarrow> decision" where
  "should_sample child p =
     (if sc_valid (parent p) \<and> sc_remote (parent p) \<and> sc_sampled (parent p)
      then RecordAndSample (sc_state (parent p))
      else if sc_valid (parent p) \<and> sc_sampled (parent p) then RecordAndSample (sc_state (parent p))
      else (case incoming p of
              None \<Rightarrow> ByChild child
            | Some md \<Rightarrow>
                if ''trace'' \<in> set md then RecordAndSample (sc_state (parent p)) else ByChild child))"

definition new_sampler :: "child_sampler option \<Rightarrow> (string, child_sampler) outcome" where
  "new_sampler c = (case c of None \<Rightarrow> Err ''child cannot == nil'' | Some s \<Rightarrow> Ok s)"

definition switch_sampler :: "child_sampler option \<Rightarrow> child_sampler \<Rightarrow> child_sampler \<times> (string, unit) outcome" where
  "switch_sampler c s =
     (case c of
        None \<Rightarrow> (s, Panics (PanicMsg ''cannot call Switch() with a nil Sampler''))
      | Some s' \<Rightarrow> (s', Ok ()))"

text \<open>
  The sampler records for itself exactly when the parent's context is valid and sampled
  or the gRPC metadata has the key trace, with the parent's state; in every other case,
  a parent with a valid trace id that is not sampled among them, the child that was stored
  last decides, so switching the child matters exactly in these cases.
\<close>

theorem sampler_decides:
  "(should_sample child p = RecordAndSample (sc_state (parent p)) \<longleftrightarrow>
      (sc_valid (parent p) \<and> sc_sampled (parent p)) \<or> (\<exists>md. incoming p = Some md \<and> ''trace'' \<in> set md))
   \<and> (should_sample child p = ByChild child \<longleftrightarrow>
      \<not> ((sc_valid (parent p) \<and> sc_sampled (parent p)) \<or> (\<exists>md. incoming p = Some md \<and> ''trace'' \<in> set md)))
   \<and> should_sample (fst (switch_sampler (Some c) child)) p =
       (if should_sample child p = ByChild child then ByChild c else should_sample child p)"
  by (auto simp: should_sample_def switch_sampler_def split: option.splits)

section \<open>The exporter of traces\<close>

datatype exporter = OTELGRPC string | Stderr | FilePath string | OtherExporter

text \<open>
  What the outside answers: dialling the collector, creating the file, wrapping a file in an
  exporter, and collecting the resource. \<open>sink\<close> is where an exporter writes to.
\<close>

datatype sink = ToCollector string | ToStderr | ToFile string

record trace_env =
  dial_ok :: "string \<Rightarrow> bool"
  create_ok :: "string \<Rightarrow> bool"
  wrap_ok :: bool
  resource_ok :: bool

text \<open>
  A tracer provider with its exporter, possibly nil: the batcher drops all spans then. In
  the file case the exporter is assigned to a variable of the inner scope, and the error of
  the exporter is overwritten by that of the resource before anybody looks at it.
\<close>

definition new_trace_exporter :: "trace_env \<Rightarrow> exporter \<Rightarrow> (string, sink option) outcome" where
  "new_trace_exporter env e =
     (let tail = (\<lambda>exp. if resource_ok env then Ok exp else Err ''resource'')
      in case e of
           OTELGRPC a \<Rightarrow> tail (if dial_ok env a then Some (ToCollector a) else None)
         | Stderr \<Rightarrow> tail (if wrap_ok env then Some ToStderr else None)
         | FilePath f \<Rightarrow> if create_ok env f then tail None else Err ''create''
         | OtherExporter \<Rightarrow> Err ''not a valid Exporter'')"

definition tracing_start :: "trace_env \<Rightarrow> exporter \<Rightarrow> (string, sink option) outcome" where
  "tracing_start env e = then_ok (new_trace_exporter env e) Ok"

text \<open>
  Starting the tracing to a file never exports anything: it either fails or succeeds
  with a provider without exporter. And an exporter that could not be made is not an error
  either: dialling a collector in vain still starts, and all spans are dropped.
\<close>

theorem trace_file_never_written:
  "tracing_start env (FilePath f) \<noteq> Ok (Some sk)
   \<and> (create_ok env f \<and> resource_ok env \<longrightarrow> tracing_start env (FilePath f) = Ok None)
   \<and> (\<not> dial_ok env a \<and> resource_ok env \<longrightarrow> tracing_start env (OTELGRPC a) = Ok None)
   \<and> (dial_ok env a \<and> resource_ok env \<longrightarrow> tracing_start env (OTELGRPC a) = Ok (Some (ToCollector a)))"
  by (simp add: tracing_start_def new_trace_exporter_def)

theorem trace_file_never_written_witness:
  "tracing_start \<lparr>dial_ok = \<lambda>_. False, create_ok = \<lambda>_. True, wrap_ok = True, resource_ok = True\<rparr> (FilePath ''t'') = Ok None"
  using trace_file_never_written [of "\<lparr>dial_ok = \<lambda>_. False, create_ok = \<lambda>_. True, wrap_ok = True, resource_ok = True\<rparr>" "''t''"]
  by simp

section \<open>Metrics\<close>

record metric_def =
  m_type :: nat
  m_name :: string
  m_desc :: string

definition mtInt64 :: nat where "mtInt64 = 1"
definition mtInt64Hist :: nat where "mtInt64Hist = 2"
definition mtInt64UD :: nat where "mtInt64UD = 3"

record lookups =
  lk_hist :: "string list"
  lk_ud :: "string list"
  lk_int :: "string list"
  lk_used :: "string list"

definition no_lookups :: lookups where
  "no_lookups = \<lparr>lk_hist = [], lk_ud = [], lk_int = [], lk_used = []\<rparr>"

text \<open>
  \<open>Fatalf\<close> ends the program: it is the error of these functions. The tables are maps of
  which only the keys matter. \<open>meter_ok\<close> says whether the meter makes the instrument.
\<close>

fun new_lookups :: "(string \<Rightarrow> bool) \<Rightarrow> metric_def list \<Rightarrow> string list \<Rightarrow> lookups \<Rightarrow> (string, lookups) outcome" where
  "new_lookups meter_ok [] seen l = Ok l"
| "new_lookups meter_ok (m # ms) seen l =
     (if m_type m = 0 then Err ''metric with type cannot be added''
      else if m_name m = [] then Err ''metric cannot be missing a name''
      else if m_desc m = [] then Err ''metric cannot be missing a desc''
      else if m_name m \<in> set seen then Err ''cannot have two metrics with same name''
      else if m_type m \<notin> {mtInt64, mtInt64Hist, mtInt64UD} then Err ''metric type without support''
      else if \<not> meter_ok (m_name m) then Err ''failed to create meter''
      else new_lookups meter_ok ms (m_name m # seen)
        (if m_type m = mtInt64Hist then l\<lparr>lk_hist := lk_hist l @ [m_name m]\<rparr>
         else if m_type m = mtInt64UD then l\<lparr>lk_ud := lk_ud l @ [m_name m]\<rparr>
         else l\<lparr>lk_int := lk_int l @ [m_name m]\<rparr>))"

definition get_int64 :: "string \<Rightarrow> lookups \<Rightarrow> (string, lookups) outcome" where
  "get_int64 s l = (if s \<in> set (lk_int l) then Ok (l\<lparr>lk_used := s # lk_used l\<rparr>) else Err ''int64 metric is not defined'')"

definition get_int64ud :: "string \<Rightarrow> lookups \<Rightarrow> (string, lookups) outcome" where
  "get_int64ud s l = (if s \<in> set (lk_ud l) then Ok (l\<lparr>lk_used := s # lk_used l\<rparr>) else Err ''int64ud metric is not defined'')"

definition get_int64hist :: "string \<Rightarrow> lookups \<Rightarrow> (string, lookups) outcome" where
  "get_int64hist s l = (if s \<in> set (lk_hist l) then Ok (l\<lparr>lk_used := s # lk_used l\<rparr>) else Err ''int64 histogram metric is not defined'')"

fun get_all :: "(string \<Rightarrow> lookups \<Rightarrow> (string, lookups) outcome) \<Rightarrow> string list \<Rightarrow> lookups \<Rightarrow> (string, lookups) outcome" where
  "get_all f [] l = Ok l"
| "get_all f (s # ss) l = then_ok (f s l) (get_all f ss)"

definition get_int64s :: "string list \<Rightarrow> lookups \<Rightarrow> (string, lookups) outcome" where
  "get_int64s = get_all get_int64"

definition get_int64uds :: "string list \<Rightarrow> lookups \<Rightarrow> (string, lookups) outcome" where
  "get_int64uds = get_all get_int64ud"

definition get_int64hists :: "string list \<Rightarrow> lookups \<Rightarrow> (string, lookups) outcome" where
  "get_int64hists = get_all get_int64hist"

definition unused_metrics :: "lookups \<Rightarrow> string list" where
  "unused_metrics l = sort (filter (\<lambda>k. k \<notin> set (lk_used l)) (lk_hist l @ lk_int l))"

definition metric_of :: "nat \<Rightarrow> string \<Rightarrow> string \<Rightarrow> metric_def" where
  "metric_of t n d = \<lparr>m_type = t, m_name = n, m_desc = d\<rparr>"

definition all_metrics :: "metric_def list" where
  "all_metrics =
    [metric_of mtInt64Hist ''AddPets-latency'' ''The latency of an AddPets() request in nanoseconds'',
     metric_of mtInt64Hist ''DeletePets-latency'' ''The latency of an DeletePets() request in nanoseconds'',
     metric_of mtInt64Hist ''UpdatePets-latency'' ''The latency of an UpdatePets() request in nanoseconds'',
     metric_of mtInt64Hist ''SearchPets-latency'' ''The latency of a SearchPets() request in nanoseconds'',
     metric_of mtInt64 ''AddPets-requests'' ''The total requests made to AddPets()'',
     metric_of mtInt64 ''DeletePets-requests'' ''The total requests made to DeletePets()'',
     metric_of mtInt64 ''UpdatePets-requests'' ''The total requests made to UpdatePets()'',
     metric_of mtInt64 ''SearchPets-requests'' ''The total requests made to SearchPets()'',
     metric_of mtInt64 ''totals-requests'' ''The total requests made to the server'',
     metric_of mtInt64 ''AddPets-errors'' ''The total error count'',
     metric_of mtInt64 ''DeletePets-errors'' ''The total error couunt'',
     metric_of mtInt64 ''UpdatePets-errors'' ''The total error count'',
     metric_of mtInt64 ''SearchPets-errors'' ''The total error count'',
     metric_of mtInt64 ''totals-errors'' ''The total error count for all RPCs'',
     metric_of mtInt64UD ''AddPets-current'' ''The amount of requests currently being proccessed'',
     metric_of mtInt64UD ''DeletePets-current'' ''The amount of requests currently being proccessed'',
     metric_of mtInt64UD ''UpdatePets-current'' ''The amount of requests currently being proccessed'',
     metric_of mtInt64UD ''SearchPets-current'' ''The amount of requests currently being proccessed'']"

text \<open>What the package \<open>server\<close> fetches when the program starts.\<close>

definition server_init :: "lookups \<Rightarrow> (string, lookups) outcome" where
  "server_init l =
     then_ok (get_all get_int64
         [''totals-requests'', ''AddPets-requests'', ''DeletePets-requests'', ''UpdatePets-requests'', ''SearchPets-requests''] l)
       (\<lambda>l. then_ok (get_all get_int64ud
         [''AddPets-current'', ''DeletePets-current'', ''UpdatePets-current'', ''SearchPets-current''] l)
       (\<lambda>l. then_ok (get_all get_int64
         [''AddPets-errors'', ''DeletePets-errors'', ''UpdatePets-errors'', ''SearchPets-errors''] l)
       (\<lambda>l. get_all get_int64hist
         [''AddPets-latency'', ''DeletePets-latency'', ''UpdatePets-latency'', ''SearchPets-latency''] l)))"

definition def_ok :: "metric_def \<Rightarrow> bool" where
  "def_ok m \<longleftrightarrow> m_type m \<in> {mtInt64, mtInt64Hist, mtInt64UD} \<and> m_name m \<noteq> [] \<and> m_desc m \<noteq> []"

definition names_of :: "nat \<Rightarrow> metric_def list \<Rightarrow> string list" where
  "names_of t ms = map m_name (filter (\<lambda>m. m_type m = t) ms)"

lemmas metric_types = mtInt64_def mtInt64Hist_def mtInt64UD_def

lemma new_lookups_ok:
  "(\<exists>l'. new_lookups mo ms seen l = Ok l') \<longleftrightarrow>
     (\<forall>m \<in> set ms. def_ok m \<and> mo (m_name m)) \<and> distinct (map m_name ms) \<and> set (map m_name ms) \<inter> set seen = {}"
  by (induction ms arbitrary: seen l) (auto simp: def_ok_def metric_types)

lemma new_lookups_tables:
  "new_lookups mo ms seen l = Ok l' \<Longrightarrow>
     lk_hist l' = lk_hist l @ names_of mtInt64Hist ms \<and> lk_ud l' = lk_ud l @ names_of mtInt64UD ms
     \<and> lk_int l' = lk_int l @ names_of mtInt64 ms \<and> lk_used l' = lk_used l"
proof (induction ms arbitrary: seen l)
  case Nil
  then show ?case by (simp add: names_of_def)
next
  case (Cons m ms)
  then show ?case by (fastforce simp: names_of_def metric_types split: if_splits)
qed

lemma get_all_tables:
  assumes "f \<in> {get_int64, get_int64ud, get_int64hist}"
  shows "get_all f ss l = Ok l' \<Longrightarrow>
    lk_hist l' = lk_hist l \<and> lk_int l' = lk_int l \<and> lk_ud l' = lk_ud l \<and> set (lk_used l') = set ss \<union> set (lk_used l)"
  using assms
  by (induction ss arbitrary: l)
     (auto simp: then_ok_eq_Ok get_int64_def get_int64ud_def get_int64hist_def split: if_splits)


lemma server_metrics:
  "then_ok (new_lookups (\<lambda>_. True) all_metrics [] no_lookups) (\<lambda>l. then_ok (server_init l) (\<lambda>l. Ok (unused_metrics l)))
     = Ok [''totals-errors'']"
  by code_simp


section \<open>The flags of the program\<close>

datatype truth = BoolT bool | StringT string | OtherT

fun is_set :: "truth \<Rightarrow> bool" where
  "is_set (BoolT b) = b"
| "is_set (StringT s) = (s \<noteq> [])"
| "is_set OtherT = False"

fun too_many_true_from :: "bool \<Rightarrow> truth list \<Rightarrow> (string, bool) outcome" where
  "too_many_true_from seen [] = Ok False"
| "too_many_true_from seen (OtherT # ts) = Panics (PanicMsg ''not a bool or string'')"
| "too_many_true_from seen (t # ts) =
     (if is_set t \<and> seen then Ok True else too_many_true_from (if is_set t then True else seen) ts)"

definition too_many_true :: "truth list \<Rightarrow> (string, bool) outcome" where
  "too_many_true = too_many_true_from False"

record pet_flags =
  local_debug :: bool
  file_debug :: string
  grpc_traces :: bool
  trace_sampling :: string
  otel_addr :: string

definition init_flags :: "string option \<Rightarrow> pet_flags \<Rightarrow> pet_flags" where
  "init_flags env fl =
     (if otel_addr fl = [] then fl\<lparr>otel_addr := (case env of None \<Rightarrow> ''0.0.0.0:4317'' | Some a \<Rightarrow> a)\<rparr> else fl)"

definition otel_exporter :: "pet_flags \<Rightarrow> (string, exporter) outcome" where
  "otel_exporter fl =
     then_ok (too_many_true [BoolT (local_debug fl), StringT (file_debug fl), BoolT (grpc_traces fl)])
       (\<lambda>many. if many then Err ''cannot set more than one''
              else if local_debug fl then Ok Stderr
              else if file_debug fl \<noteq> [] then Ok (FilePath (file_debug fl))
              else if grpc_traces fl then Ok (OTELGRPC (otel_addr fl))
              else Ok Stderr)"

text \<open>\<open>parse_float\<close> is \<open>strconv.ParseFloat\<close>.\<close>

definition set_sampling :: "(string \<Rightarrow> go_float option) \<Rightarrow> string \<Rightarrow> child_sampler \<Rightarrow> child_sampler \<times> (string, unit) outcome" where
  "set_sampling parse_float v s =
     (if v = ''never'' then switch_sampler (Some NeverSample) s
      else if v = ''always'' then switch_sampler (Some AlwaysSample) s
      else (case parse_float v of
              Some f \<Rightarrow> switch_sampler (Some (TraceIDRatio f)) s
            | None \<Rightarrow> (s, Err ''traceSampling is not a valid value'')))"

lemma too_many_from:
  "OtherT \<notin> set ts \<Longrightarrow>
   too_many_true_from seen ts = Ok ((if seen then 1 else 0) + length (filter is_set ts) \<ge> 2)"
proof (induction ts arbitrary: seen)
  case Nil
  then show ?case by simp
next
  case (Cons t ts)
  then show ?case by (cases t) auto
qed

text \<open>
  The tracing flags. At most one of the three destinations may be given, an empty file
  name counting as not given; then that one is chosen, and the console if none is. Otherwise
  the program ends with an error. Every value of the sampling flag that is neither a word it
  knows nor a number ends the program and leaves the sampler alone.
\<close>

theorem tracing_flags:
  "(let given = (if local_debug fl then 1 else 0) + (if file_debug fl \<noteq> [] then 1 else 0) + (if grpc_traces fl then 1 else (0::nat))
    in otel_exporter fl =
         (if given \<ge> 2 then Err ''cannot set more than one''
          else if file_debug fl \<noteq> [] then Ok (FilePath (file_debug fl))
          else if grpc_traces fl then Ok (OTELGRPC (otel_addr fl)) else Ok Stderr))
   \<and> (set_sampling pf v s =
        (if v = ''never'' then (NeverSample, Ok ()) else if v = ''always'' then (AlwaysSample, Ok ())
         else (case pf v of Some f \<Rightarrow> (TraceIDRatio f, Ok ()) | None \<Rightarrow> (s, Err ''traceSampling is not a valid value''))))
   \<and> otel_addr (init_flags env fl) = (if otel_addr fl \<noteq> [] then otel_addr fl else case env of Some a \<Rightarrow> a | None \<Rightarrow> ''0.0.0.0:4317'')"
proof -
  have t: "too_many_true [BoolT a, StringT b, BoolT c] =
      Ok ((if a then 1 else 0) + (if b \<noteq> [] then 1 else 0) + (if c then 1 else (0::nat)) \<ge> 2)" for a b c
    by (simp add: too_many_true_def too_many_from)
  show ?thesis
    by (auto simp: otel_exporter_def t set_sampling_def switch_sampler_def init_flags_def split: option.splits)
qed

end
