(* ===== verification/Trace_Ids.thy ===== *)
theory Trace_Ids
  imports Go_Net "HOL-Library.Word"
begin

text \<open>
  The ids of traces and spans as the programs show them: the pet store sends the trace id of a
  call back (\<open>server.go\<close>), and the tracing client adds both ids to its log
  (\<open>observability/tracing/client/main.go\<close>). Both convert the hexadecimal text of an id with
  the same function, to the decimal number other tools index traces by.
\<close>

section \<open>The conversion\<close>

fun hex_value :: "nat \<Rightarrow> string \<Rightarrow> nat option" where
  "hex_value acc [] = Some acc"
| "hex_value acc (c # cs) = (case hex_val c of None \<Rightarrow> None | Some d \<Rightarrow> hex_value (16 * acc + d) cs)"

text \<open>\<open>ParseUint\<close> with base 16 and 64 bits; \<open>None\<close> is an error.\<close>

definition parse_hex64 :: "string \<Rightarrow> nat option" where
  "parse_hex64 s = (if s = [] then None else case hex_value 0 s of None \<Rightarrow> None | Some n \<Rightarrow> if n < 2 ^ 64 then Some n else None)"

definition convert_trace_id :: "string \<Rightarrow> string" where
  "convert_trace_id i =
     (if length i < 16 then []
      else (case parse_hex64 (if length i > 16 then drop 16 i else i) of
              None \<Rightarrow> []
            | Some n \<Rightarrow> dec_nat n))"

fun hex_digits :: "string \<Rightarrow> bool" where
  "hex_digits s \<longleftrightarrow> (\<forall>c \<in> set s. hex_val c \<noteq> None)"

lemma hex_val_bound: "hex_val c = Some d \<Longrightarrow> d < 16"
  by (auto simp: hex_val_def Let_def split: if_splits)

lemma hex_value_total: "hex_digits s \<Longrightarrow> \<exists>n. hex_value acc s = Some n \<and> n < (acc + 1) * 16 ^ length s"
proof (induction s arbitrary: acc)
  case Nil
  then show ?case by simp
next
  case (Cons c s)
  then obtain d where d: "hex_val c = Some d" "d < 16" using hex_val_bound by fastforce
  from Cons.IH [of "16 * acc + d"] Cons.prems obtain n where
    n: "hex_value (16 * acc + d) s = Some n" "n < (16 * acc + d + 1) * 16 ^ length s" by auto
  have "16 * acc + d + 1 \<le> 16 * (acc + 1)" using d(2) by simp
  then have "(16 * acc + d + 1) * 16 ^ length s \<le> (16 * (acc + 1)) * 16 ^ length s" by (rule mult_le_mono1)
  with n(2) have "n < (16 * (acc + 1)) * 16 ^ length s" by (rule less_le_trans)
  also have "\<dots> = (acc + 1) * 16 ^ length (c # s)" by (simp only: list.size(4) One_nat_def add_Suc_right add_0_right power_Suc)
  finally show ?case using n(1) d(1) by simp
qed

text \<open>
  The trace id the server would send back is the decimal number of the last 16 of the 32
  hexadecimal digits of the id, which always fits 64 bits and can be read back; an id with
  fewer than 16 digits gives nothing, as does one with more than 32 digits whose tail
  exceeds 64 bits.
\<close>

theorem trace_id_converts:
  assumes "hex_digits i"
  shows "(length i = 32 \<longrightarrow> (\<exists>n. hex_value 0 (drop 16 i) = Some n \<and> n < 2 ^ 64
        \<and> convert_trace_id i = dec_nat n \<and> digits_val 0 (convert_trace_id i) = Some n))
    \<and> (length i < 16 \<longrightarrow> convert_trace_id i = [])
    \<and> (16 < length i \<and> hex_value 0 (drop 16 i) = Some m \<and> 2 ^ 64 \<le> m \<longrightarrow> convert_trace_id i = [])"
proof -
  have "\<exists>n. hex_value 0 (drop 16 i) = Some n \<and> n < 2 ^ 64 \<and> convert_trace_id i = dec_nat n
      \<and> digits_val 0 (convert_trace_id i) = Some n" if l: "length i = 32"
  proof -
    have "hex_digits (drop 16 i)" using assms by (auto dest: in_set_dropD)
    then obtain n where n: "hex_value 0 (drop 16 i) = Some n" "n < 1 * 16 ^ length (drop 16 i)"
      using hex_value_total [of "drop 16 i" 0] by auto
    have "n < 2 ^ 64" using n(2) l by simp
    moreover have "drop 16 i \<noteq> []" using l by simp
    ultimately show ?thesis
      using n(1) l by (simp add: convert_trace_id_def parse_hex64_def digits_val_dec_nat)
  qed
  moreover have "convert_trace_id i = []" if "length i < 16" using that by (simp add: convert_trace_id_def)
  moreover have "convert_trace_id i = []" if "16 < length i" "hex_value 0 (drop 16 i) = Some m" "2 ^ 64 \<le> m"
    using that by (simp add: convert_trace_id_def parse_hex64_def)
  ultimately show ?thesis by blast
qed

theorem trace_id_converts_witness:
  "convert_trace_id ''4bf92f3577b34da600000000000000ff'' = ''255''"
proof -
  have "hex_digits ''4bf92f3577b34da600000000000000ff''" "hex_value 0 (drop 16 ''4bf92f3577b34da600000000000000ff'') = Some 255"
    "dec_nat 255 = ''255''" "length ''4bf92f3577b34da600000000000000ff'' = 32" by code_simp+
  with trace_id_converts [of "''4bf92f3577b34da600000000000000ff''"] show ?thesis by auto
qed

section \<open>The ids of a span\<close>

text \<open>A trace id has 16 bytes, a span id 8; \<open>String\<close> writes each byte as two digits.\<close>

definition hex_char :: "nat \<Rightarrow> char" where
  "hex_char d = char_of (if d < 10 then 48 + d else 87 + d)"

definition hex_byte :: "8 word \<Rightarrow> string" where
  "hex_byte b = [hex_char (unat b div 16), hex_char (unat b mod 16)]"

definition hex_string :: "8 word list \<Rightarrow> string" where
  "hex_string bs = concat (map hex_byte bs)"

record span_ids =
  span_bytes :: "8 word list"
  trace_bytes :: "8 word list"

text \<open>The fields that are added to the logger.\<close>

definition with_correlation :: "span_ids \<Rightarrow> (string \<times> string) list" where
  "with_correlation c =
     [(''span_id'', convert_trace_id (hex_string (span_bytes c))),
      (''trace_id'', convert_trace_id (hex_string (trace_bytes c)))]"

definition big_endian :: "8 word list \<Rightarrow> nat" where
  "big_endian bs = foldl (\<lambda>a b. 256 * a + unat b) 0 bs"

lemma byte_bound: "unat (b :: 8 word) < 256"
  using unsigned_less [of b] by simp

lemma hex_val_digit: "d < 16 \<Longrightarrow> hex_val (hex_char d) = Some d"
  by (simp add: hex_val_def hex_char_def Let_def)

lemma hex_value_byte: "hex_value acc (hex_byte b @ s) = hex_value (256 * acc + unat b) s"
proof -
  have d: "unat b div 16 < 16" using byte_bound [of b] by simp
  have "16 * (16 * acc + unat b div 16) + unat b mod 16 = 256 * acc + unat b" by presburger
  then show ?thesis by (simp only: hex_byte_def hex_value.simps append.simps hex_val_digit d option.simps mod_less_divisor zero_less_numeral)
qed

lemma hex_value_string: "hex_value acc (hex_string bs) = Some (foldl (\<lambda>a b. 256 * a + unat b) acc bs)"
  by (induction bs arbitrary: acc) (simp_all add: hex_string_def hex_value_byte)

lemma length_hex_string [simp]: "length (hex_string bs) = 2 * length bs"
  by (induction bs) (simp_all add: hex_string_def hex_byte_def)

lemma drop_hex_string: "drop (2 * n) (hex_string bs) = hex_string (drop n bs)"
proof (induction n arbitrary: bs)
  case 0
  then show ?case by simp
next
  case (Suc n)
  then show ?case by (cases bs) (simp_all add: hex_string_def hex_byte_def)
qed

lemma foldl_bytes_bound: "foldl (\<lambda>a b. 256 * a + unat b) acc (bs :: 8 word list) < (acc + 1) * 256 ^ length bs"
proof (induction bs arbitrary: acc)
  case Nil
  then show ?case by simp
next
  case (Cons b bs)
  have "unat b < 256" by (rule byte_bound)
  then have "(256 * acc + unat b + 1) * 256 ^ length bs \<le> (256 * (acc + 1)) * 256 ^ length bs"
    by (intro mult_le_mono1) simp
  with Cons.IH [of "256 * acc + unat b"] show ?case
    by (simp only: foldl_Cons length_Cons power_Suc mult.assoc mult.left_commute)
qed

lemma big_endian_bound: "length bs = 8 \<Longrightarrow> big_endian bs < 2 ^ 64"
  using foldl_bytes_bound [of 0 bs] by (simp add: big_endian_def)

lemma convert_span: "length bs = 8 \<Longrightarrow> convert_trace_id (hex_string bs) = dec_nat (big_endian bs)"
  using hex_value_string [of 0 bs] big_endian_bound [of bs] length_hex_string [of bs]
  by (cases "hex_string bs") (auto simp: convert_trace_id_def parse_hex64_def big_endian_def)

lemma convert_trace: "length bs = 16 \<Longrightarrow> convert_trace_id (hex_string bs) = dec_nat (big_endian (drop 8 bs))"
  using hex_value_string [of 0 "drop 8 bs"] big_endian_bound [of "drop 8 bs"] length_hex_string [of "drop 8 bs"]
    drop_hex_string [of 8 bs]
  by (cases "hex_string (drop 8 bs)") (auto simp: convert_trace_id_def parse_hex64_def big_endian_def)

lemma big_endian_snoc: "big_endian (bs @ [b]) = 256 * big_endian bs + unat b"
  by (simp add: big_endian_def)

lemma low_byte:
  assumes "256 * x + a = 256 * y + (c :: nat)" "a < 256" "c < 256"
  shows "a = c \<and> x = y"
proof -
  have "(256 * x + a) mod 256 = a" "(256 * y + c) mod 256 = c" "(256 * x + a) div 256 = x" "(256 * y + c) div 256 = y"
    using assms(2,3) by simp_all
  then show ?thesis using assms(1) by metis
qed

lemma big_endian_inj: "length bs = length cs \<Longrightarrow> big_endian bs = big_endian cs \<Longrightarrow> bs = cs"
proof (induction bs arbitrary: cs rule: rev_induct)
  case Nil
  then show ?case by simp
next
  case (snoc b bs)
  then obtain c ds where cs: "cs = ds @ [c]" by (cases cs rule: rev_cases) auto
  have "unat b < 256" "unat c < 256" by (rule byte_bound)+
  moreover have "256 * big_endian bs + unat b = 256 * big_endian ds + unat c"
    using snoc.prems(2) by (simp only: cs big_endian_snoc)
  ultimately have "unat b = unat c \<and> big_endian bs = big_endian ds" using low_byte by blast
  then show ?case using snoc.IH [of ds] snoc.prems(1) by (simp add: cs word_unat_eq_iff)
qed

text \<open>
  C40: The ids in the log of the tracing client. For every span, the two fields are decimal
  numbers that fit 64 bits and can be read back: the span id, and the low half of the trace id.
  Two spans get the same fields exactly if they have the same id and the last eight bytes of their trace ids
  agree; the first eight bytes are never seen.
\<close>

theorem correlation_ids:
  assumes "length (span_bytes c) = 8" "length (trace_bytes c) = 16"
    and "length (span_bytes d) = 8" "length (trace_bytes d) = 16"
  shows "map fst (with_correlation c) = [''span_id'', ''trace_id'']
    \<and> map (digits_val 0 \<circ> snd) (with_correlation c) = [Some (big_endian (span_bytes c)), Some (big_endian (drop 8 (trace_bytes c)))]
    \<and> big_endian (span_bytes c) < 2 ^ 64 \<and> big_endian (drop 8 (trace_bytes c)) < 2 ^ 64
    \<and> (with_correlation c = with_correlation d \<longleftrightarrow>
         span_bytes c = span_bytes d \<and> drop 8 (trace_bytes c) = drop 8 (trace_bytes d))"
proof -
  have fields: "with_correlation x = [(''span_id'', dec_nat (big_endian (span_bytes x))),
      (''trace_id'', dec_nat (big_endian (drop 8 (trace_bytes x))))]"
    if "length (span_bytes x) = 8" "length (trace_bytes x) = 16" for x
    using that by (simp add: with_correlation_def convert_span convert_trace)
  have "with_correlation c = with_correlation d \<longleftrightarrow>
      big_endian (span_bytes c) = big_endian (span_bytes d)
      \<and> big_endian (drop 8 (trace_bytes c)) = big_endian (drop 8 (trace_bytes d))"
    unfolding fields [OF assms(1,2)] fields [OF assms(3,4)] by (auto dest: dec_nat_inj)
  also have "\<dots> \<longleftrightarrow> span_bytes c = span_bytes d \<and> drop 8 (trace_bytes c) = drop 8 (trace_bytes d)"
    using assms big_endian_inj by auto
  finally show ?thesis
    using assms big_endian_bound by (simp add: fields [OF assms(1,2)] digits_val_dec_nat)
qed

definition demo_span :: "8 word \<Rightarrow> span_ids" where
  "demo_span b = \<lparr>span_bytes = replicate 8 1, trace_bytes = b # replicate 15 0\<rparr>"

theorem correlation_ids_witness:
  "with_correlation (demo_span 1) = with_correlation (demo_span 2) \<and> demo_span 1 \<noteq> demo_span 2"
  using correlation_ids [of "demo_span 1" "demo_span 2"] by (simp add: demo_span_def)

end
