(* ===== verification/Pet_Server.thy ===== *)
theory Pet_Server
  imports Pet_Search Pet_Telemetry Trace_Ids
begin

text \<open>
  The gRPC server of the pet store (\<open>petstore/server/server.go\<close>): the four handlers over
  any storage, with the metrics they keep, the change of the sampler, and the conversion of
  trace ids. The storage is the interface \<open>Data\<close>, a record of operations; handlers are
  proved over the contract \<open>storage_data\<close> and then used with the in-memory storage.
  Spans and their attributes are not modelled.
\<close>

section \<open>State\<close>

record 's data_ops =
  d_add :: "pet list \<Rightarrow> 's \<Rightarrow> 's \<times> (pet_err, unit) outcome"
  d_update :: "pet list \<Rightarrow> 's \<Rightarrow> 's \<times> (pet_err, unit) outcome"
  d_delete :: "string list \<Rightarrow> 's \<Rightarrow> 's \<times> (pet_err, unit) outcome"
  d_search :: "nat option \<Rightarrow> search_req \<Rightarrow> 's \<Rightarrow> 's \<times> (pet_err, pet option list) outcome"

datatype rpc = AddRpc | UpdateRpc | DeleteRpc | SearchRpc

datatype code = InvalidArgument | Internal | DeadlineExceeded | UnknownCode

datatype rpc_err = Status code pet_err

fun code_of :: "rpc_err \<Rightarrow> code" where
  "code_of (Status c e) = c"

record rpc_metrics =
  requests :: nat
  current :: int
  latencies :: nat
  errors :: "code list"

record 's api =
  store :: 's
  total :: nat
  counts :: "rpc \<Rightarrow> rpc_metrics"

definition no_metrics :: rpc_metrics where
  "no_metrics = \<lparr>requests = 0, current = 0, latencies = 0, errors = []\<rparr>"

definition new_api :: "'s \<Rightarrow> 's api" where
  "new_api s = \<lparr>store = s, total = 0, counts = (\<lambda>_. no_metrics)\<rparr>"

section \<open>The metrics around a call\<close>

definition enter_rpc :: "rpc \<Rightarrow> 's api \<Rightarrow> 's api" where
  "enter_rpc r a =
     a\<lparr>total := Suc (total a),
       counts := (counts a)(r := (counts a r)\<lparr>requests := Suc (requests (counts a r)), current := current (counts a r) + 1\<rparr>)\<rparr>"

text \<open>The deferred function, which also runs when the call panics; its error is then nil.\<close>

definition leave_rpc :: "rpc \<Rightarrow> (rpc_err, 'a) outcome \<Rightarrow> 's api \<Rightarrow> 's api" where
  "leave_rpc r oc a =
     a\<lparr>counts := (counts a)(r := (counts a r)\<lparr>current := current (counts a r) - 1,
         latencies := Suc (latencies (counts a r)),
         errors := errors (counts a r) @ (case oc of Err e \<Rightarrow> [code_of e] | _ \<Rightarrow> [])\<rparr>)\<rparr>"

definition with_metrics :: "rpc \<Rightarrow> ('s \<Rightarrow> 's \<times> (rpc_err, 'a) outcome) \<Rightarrow> 's api \<Rightarrow> 's api \<times> (rpc_err, 'a) outcome" where
  "with_metrics r body a =
     (let a1 = enter_rpc r a; (s, oc) = body (store a1); a2 = a1\<lparr>store := s\<rparr>
      in (if oc = Blocked then a2 else leave_rpc r oc a2, oc))"

section \<open>Handlers\<close>

text \<open>\<open>new_id n\<close> is the n-th id that \<open>uuid.New\<close> makes in the call.\<close>

fun accept_new :: "(nat \<Rightarrow> string) \<Rightarrow> nat \<Rightarrow> pet list \<Rightarrow> (pet_err, pet list) outcome" where
  "accept_new new_id n [] = Ok []"
| "accept_new new_id n (p # ps) =
     (let (p1, oc) = validate_pet False p
      in then_ok oc (\<lambda>_. then_ok (accept_new new_id (Suc n) ps) (\<lambda>qs. Ok (p1\<lparr>p_id := new_id n\<rparr> # qs))))"

fun accept_old :: "pet list \<Rightarrow> (pet_err, pet list) outcome" where
  "accept_old [] = Ok []"
| "accept_old (p # ps) =
     (let (p1, oc) = validate_pet True p
      in then_ok oc (\<lambda>_. then_ok (accept_old ps) (\<lambda>qs. Ok (p1 # qs))))"

definition api_add :: "'s data_ops \<Rightarrow> (nat \<Rightarrow> string) \<Rightarrow> pet list \<Rightarrow> 's api \<Rightarrow> 's api \<times> (rpc_err, string list) outcome" where
  "api_add d new_id ps =
     with_metrics AddRpc (\<lambda>s.
       (case map_err (Status InvalidArgument) (accept_new new_id 0 ps) of
          Ok qs \<Rightarrow> (let (s', oc) = d_add d qs s
                     in (s', then_ok (map_err (Status Internal) oc) (\<lambda>_. Ok (map p_id qs))))
        | Err e \<Rightarrow> (s, Err e) | Panics p \<Rightarrow> (s, Panics p) | Blocked \<Rightarrow> (s, Blocked)))"

definition api_update :: "'s data_ops \<Rightarrow> pet list \<Rightarrow> 's api \<Rightarrow> 's api \<times> (rpc_err, unit) outcome" where
  "api_update d ps =
     with_metrics UpdateRpc (\<lambda>s.
       (case map_err (Status InvalidArgument) (accept_old ps) of
          Ok qs \<Rightarrow> (let (s', oc) = d_update d qs s in (s', map_err (Status Internal) oc))
        | Err e \<Rightarrow> (s, Err e) | Panics p \<Rightarrow> (s, Panics p) | Blocked \<Rightarrow> (s, Blocked)))"

definition api_delete :: "'s data_ops \<Rightarrow> string list \<Rightarrow> 's api \<Rightarrow> 's api \<times> (rpc_err, unit) outcome" where
  "api_delete d is =
     with_metrics DeleteRpc (\<lambda>s. (let (s', oc) = d_delete d is s in (s', map_err (Status Internal) oc)))"

definition validate_search :: "search_req \<Rightarrow> (pet_err, unit) outcome" where
  "validate_search f =
     (if 0 \<in> set (sr_types f) then Err SearchUnknownType
      else (case sr_range f of
              None \<Rightarrow> Ok ()
            | Some (st, en) \<Rightarrow>
                if st = None then Err StartNil
                else if en = None then Err EndNil
                else then_ok (map_err StartBad (birthday_to_time st))
                       (\<lambda>_. then_ok (map_err EndBad (birthday_to_time en)) (\<lambda>_. Ok ()))))"

text \<open>
  A search streams its items: \<open>fails = Some k\<close> when the send after k items fails;
  \<open>expired\<close> when the context is done at the end. The handler returns what it has sent.
\<close>

definition api_search :: "'s data_ops \<Rightarrow> nat option \<Rightarrow> bool \<Rightarrow> search_req \<Rightarrow> 's api
    \<Rightarrow> ('s api \<times> (rpc_err, unit) outcome) \<times> pet option list" where
  "api_search d fails expired f a =
     (case validate_search f of
        Ok _ \<Rightarrow>
          (let items = (case snd (d_search d (map_option Suc fails) f (store a)) of Ok xs \<Rightarrow> xs | _ \<Rightarrow> []);
               broken = (case fails of None \<Rightarrow> False | Some k \<Rightarrow> k < length items)
           in (with_metrics SearchRpc (\<lambda>s.
                 (let (s', oc) = d_search d (map_option Suc fails) f s
                  in (s', then_ok (map_err (Status Internal) oc)
                            (\<lambda>_. if broken then Err (Status UnknownCode SendFailed)
                                 else if expired then Err (Status DeadlineExceeded Cancelled)
                                 else Ok ())))) a,
               if broken then butlast items else items))
      | Err e \<Rightarrow> (with_metrics SearchRpc (\<lambda>s. (s, Err (Status InvalidArgument e))) a, [])
      | Panics p \<Rightarrow> (with_metrics SearchRpc (\<lambda>s. (s, Panics p)) a, [])
      | Blocked \<Rightarrow> (with_metrics SearchRpc (\<lambda>s. (s, Blocked)) a, []))"

datatype sampler_req = SamplerReq int go_float

definition change_sampler :: "sampler_req option \<Rightarrow> child_sampler \<Rightarrow> child_sampler \<times> (string, unit) outcome" where
  "change_sampler req s =
     (case req of
        None \<Rightarrow> (s, Panics NilDeref)
      | Some (SamplerReq t v) \<Rightarrow>
          if t = 1 then switch_sampler (Some NeverSample) s
          else if t = 2 then switch_sampler (Some AlwaysSample) s
          else if t = 3 then
            (if float_le v 0 \<or> float_gt v 1 then (s, Err ''float_value is invalid'')
             else switch_sampler (Some (TraceIDRatio v)) s)
          else (s, Err ''type is invalid''))"

section \<open>Trace ids\<close>

text \<open>
  The address of the peer that is recorded on the span, and the trace id that is sent back:
  \<open>wanted\<close> is whether the context has a value for the key trace.
\<close>

definition peer_attrs :: "string option \<Rightarrow> (string \<times> int) option" where
  "peer_attrs peer =
     (case peer of
        None \<Rightarrow> None
      | Some a \<Rightarrow> (case split_host_port a of Ok (h, p) \<Rightarrow> Some (h, fst (atoi p)) | _ \<Rightarrow> None))"

definition trace_header :: "bool \<Rightarrow> string \<Rightarrow> (string \<times> string) option" where
  "trace_header wanted i = (if wanted \<and> i \<noteq> [] then Some (''traceID'', convert_trace_id i) else None)"

section \<open>Starting and stopping\<close>

text \<open>
  \<open>Start\<close> holds the mutex while it serves and \<open>Stop\<close> wants it. \<open>running\<close>: a \<open>Start\<close> is
  serving.
\<close>

datatype server_call = StartCall "(string, unit) outcome" | StopCall

fun server_step :: "server_call \<Rightarrow> bool \<Rightarrow> bool \<times> (string, unit) outcome" where
  "server_step (StartCall listen) running =
     (if running then (running, Blocked)
      else (case listen of Ok _ \<Rightarrow> (True, Blocked) | oc \<Rightarrow> (False, oc)))"
| "server_step StopCall running = (if running then (running, Blocked) else (False, Ok ()))"

section \<open>What the metrics count\<close>

datatype api_call =
    ApiAdd "nat \<Rightarrow> string" "pet list"
  | ApiUpdate "pet list"
  | ApiDelete "string list"
  | ApiSearch "nat option" bool search_req

fun rpc_of :: "api_call \<Rightarrow> rpc" where
  "rpc_of (ApiAdd new_id ps) = AddRpc"
| "rpc_of (ApiUpdate ps) = UpdateRpc"
| "rpc_of (ApiDelete is) = DeleteRpc"
| "rpc_of (ApiSearch k x f) = SearchRpc"

fun forget_result :: "'s \<times> ('e, 'a) outcome \<Rightarrow> 's \<times> ('e, unit) outcome" where
  "forget_result (s, oc) = (s, then_ok oc (\<lambda>_. Ok ()))"

fun api_step :: "'s data_ops \<Rightarrow> api_call \<Rightarrow> 's api \<Rightarrow> 's api \<times> (rpc_err, unit) outcome" where
  "api_step d (ApiAdd new_id ps) a = forget_result (api_add d new_id ps a)"
| "api_step d (ApiUpdate ps) a = api_update d ps a"
| "api_step d (ApiDelete is) a = api_delete d is a"
| "api_step d (ApiSearch k x f) a = fst (api_search d k x f a)"

definition counted :: "rpc \<Rightarrow> (rpc_err, 'a) outcome \<Rightarrow> rpc_metrics \<Rightarrow> rpc_metrics" where
  "counted r oc m =
     \<lparr>requests = Suc (requests m), current = current m + (if oc = Blocked then 1 else 0),
      latencies = latencies m + (if oc = Blocked then 0 else 1),
      errors = errors m @ (case oc of Err e \<Rightarrow> [code_of e] | _ \<Rightarrow> [])\<rparr>"

lemma with_metrics_counts:
  "total (fst (with_metrics r body a)) = Suc (total a)
   \<and> counts (fst (with_metrics r body a)) = (counts a)(r := counted r (snd (with_metrics r body a)) (counts a r))"
  by (cases "snd (body (store a))")
     (auto simp: with_metrics_def enter_rpc_def leave_rpc_def counted_def Let_def split_beta)

lemma with_metrics_body:
  "store (fst (with_metrics r body a)) = fst (body (store a))" "snd (with_metrics r body a) = snd (body (store a))"
  by (auto simp: with_metrics_def enter_rpc_def leave_rpc_def Let_def split_beta)

lemma counted_forget: "counted r (then_ok oc (\<lambda>_. Ok ())) m = counted r oc m"
  by (cases oc) (simp_all add: counted_def)

lemma api_step_counts:
  "total (fst (api_step d c a)) = Suc (total a)
   \<and> counts (fst (api_step d c a)) = (counts a)(rpc_of c := counted (rpc_of c) (snd (api_step d c a)) (counts a (rpc_of c)))"
proof (cases c)
  case (ApiAdd new_id ps)
  have "forget_result x = (fst x, then_ok (snd x) (\<lambda>_. Ok ()))" for x :: "'a api \<times> (rpc_err, string list) outcome"
    by (cases x) simp
  then show ?thesis using ApiAdd by (simp add: api_add_def counted_forget with_metrics_counts)
next
  case (ApiSearch k x f)
  then show ?thesis
    by (cases "validate_search f") (simp_all add: api_search_def Let_def with_metrics_counts)
qed (simp_all add: api_update_def api_delete_def with_metrics_counts)

definition results_for :: "rpc \<Rightarrow> api_call list \<Rightarrow> (rpc_err, unit) outcome list \<Rightarrow> (rpc_err, unit) outcome list" where
  "results_for r cs rs = map snd (filter (\<lambda>x. rpc_of (fst x) = r) (zip cs rs))"

definition err_codes :: "(rpc_err, unit) outcome list \<Rightarrow> code list" where
  "err_codes rs = concat (map (\<lambda>oc. case oc of Err e \<Rightarrow> [code_of e] | _ \<Rightarrow> []) rs)"

lemma err_codes_Cons [simp]:
  "err_codes (oc # ocs) = (case oc of Err e \<Rightarrow> [code_of e] | _ \<Rightarrow> []) @ err_codes ocs"
  by (simp add: err_codes_def)

lemma snd_run_ops_Cons: "snd (run_ops f (x # xs) s) = snd (f x s) # snd (run_ops f xs (fst (f x s)))"
  by (simp_all add: Let_def split_beta)

lemma metrics_run:
  fixes a :: "'s api" and cs :: "api_call list" and d :: "'s data_ops"
  defines "R \<equiv> \<lambda>cs a r. results_for r cs (snd (run_ops (api_step d) cs a))"
  shows "requests (counts (fst (run_ops (api_step d) cs a)) r) = requests (counts a r) + length (R cs a r)
    \<and> current (counts (fst (run_ops (api_step d) cs a)) r) = current (counts a r) + int (length (filter (\<lambda>oc. oc = Blocked) (R cs a r)))
    \<and> latencies (counts (fst (run_ops (api_step d) cs a)) r) = latencies (counts a r) + length (filter (\<lambda>oc. oc \<noteq> Blocked) (R cs a r))
    \<and> errors (counts (fst (run_ops (api_step d) cs a)) r) = errors (counts a r) @ err_codes (R cs a r)
    \<and> total (fst (run_ops (api_step d) cs a)) = total a + length cs"
proof (induction cs arbitrary: a)
  case Nil
  then show ?case by (simp add: R_def results_for_def err_codes_def)
next
  case (Cons c cs)
  let ?a = "fst (api_step d c a)" and ?oc = "snd (api_step d c a)"
  have R: "R (c # cs) a r = (if rpc_of c = r then [?oc] else []) @ R cs ?a r"
    by (simp add: R_def snd_run_ops_Cons results_for_def del: run_ops.simps)
  show ?case
    using Cons.IH [of ?a] api_step_counts [of d c a]
    by (cases "rpc_of c = r") (simp_all add: R fst_run_ops_Cons counted_def del: run_ops.simps)
qed

text \<open>
  C14: The metrics of the server, for every storage and every sequence of calls. For each of
  the four procedures the request counter is the number of its calls, the current counter
  the number of those that have not returned (and never will), the latency histogram has
  one entry for each of the others, and the error counter is counted up under the code of
  every error returned, in order; the total counter is the number of all calls. In
  particular a procedure that panics is still counted as finished and without error.
\<close>

theorem metrics_count_calls:
  "(let (a, rs) = run_ops (api_step d) cs (new_api s); m = counts a r; own = results_for r cs rs
    in requests m = length own
       \<and> current m = int (length (filter (\<lambda>oc. oc = Blocked) own))
       \<and> latencies m = length (filter (\<lambda>oc. oc \<noteq> Blocked) own)
       \<and> errors m = err_codes own
       \<and> total a = length cs)"
  using metrics_run [of d cs "new_api s" r]
  by (simp add: split_beta Let_def new_api_def no_metrics_def)

section \<open>Adding and updating\<close>

lemma validate_pet_fst: "p_birthday (fst (validate_pet u p)) = p_birthday p"
  by (simp add: validate_pet_def Let_def)

lemma validate_pet_Ok_fst: "snd (validate_pet u p) = Ok () \<Longrightarrow> fst (validate_pet u p) = p\<lparr>p_name := trim_space (p_name p)\<rparr>"
  by (auto simp: validate_pet_def Let_def split: if_splits)

definition pet_ok :: "bool \<Rightarrow> pet \<Rightarrow> bool" where
  "pet_ok u p \<longleftrightarrow> snd (validate_pet u p) = Ok ()"

definition as_stored :: "string \<Rightarrow> pet \<Rightarrow> pet" where
  "as_stored i p = p\<lparr>p_name := trim_space (p_name p), p_id := i\<rparr>"

lemma accept_new_ok:
  "\<forall>p \<in> set ps. pet_ok False p \<Longrightarrow>
   accept_new new_id n ps = Ok (map (\<lambda>(k, p). as_stored (new_id k) p) (zip [n..<n + length ps] ps))"
proof (induction ps arbitrary: n)
  case Nil
  then show ?case by simp
next
  case (Cons p ps)
  have p: "snd (validate_pet False p) = Ok ()" using Cons.prems by (simp add: pet_ok_def)
  have z: "[n..<n + length (p # ps)] = n # [Suc n..<Suc n + length ps]" by (simp add: upt_rec [of n] Suc_le_eq)
  show ?case
    using Cons.IH [of "Suc n"] Cons.prems p validate_pet_Ok_fst [OF p]
    unfolding z by (simp add: split_beta as_stored_def)
qed

lemma accept_old_ok:
  "\<forall>p \<in> set ps. pet_ok True p \<Longrightarrow> accept_old ps = Ok (map (\<lambda>p. p\<lparr>p_name := trim_space (p_name p)\<rparr>) ps)"
  by (induction ps) (auto simp: split_beta pet_ok_def validate_pet_Ok_fst)

lemma accept_new_Err:
  assumes "\<exists>p \<in> set ps. \<not> pet_ok False p" "\<forall>p \<in> set ps. p_birthday p \<noteq> None"
  shows "\<exists>e. accept_new new_id n ps = Err e"
  using assms
proof (induction ps arbitrary: n)
  case Nil
  then show ?case by simp
next
  case (Cons p ps)
  have "snd (validate_pet False p) = Ok () \<or> (\<exists>e. snd (validate_pet False p) = Err e)"
    using Cons.prems(2) by (auto simp: validate_pet_def Let_def birthday_to_time_def split: option.splits if_splits)
  then consider (good) "snd (validate_pet False p) = Ok ()" | (bad) e where "snd (validate_pet False p) = Err e"
    by blast
  then show ?case
  proof cases
    case good
    then have "\<exists>p \<in> set ps. \<not> pet_ok False p" using Cons.prems(1) by (simp add: pet_ok_def)
    then obtain e where "accept_new new_id (Suc n) ps = Err e" using Cons.IH [of "Suc n"] Cons.prems(2) by auto
    with good show ?thesis by (simp add: split_beta)
  next
    case bad
    then show ?thesis by (simp add: split_beta)
  qed
qed

lemma pet_ok_birthday: "pet_ok u p \<Longrightarrow> p_birthday p \<noteq> None"
  using validate_pet_Ok [of u p] by (auto simp: pet_ok_def)

text \<open>The storage as the server sees it, with the order in which the indexes answer.\<close>

definition mem_data :: "'t llrb \<Rightarrow> (string list list \<Rightarrow> string list list) \<Rightarrow> 't mem data_ops" where
  "mem_data tr arr = \<lparr>d_add = mem_add tr, d_update = mem_update tr, d_delete = mem_delete tr,
     d_search = mem_search tr arr\<rparr>"

lemma mem_data_simps [simp]:
  "d_add (mem_data tr arr) = mem_add tr" "d_update (mem_data tr arr) = mem_update tr"
  "d_delete (mem_data tr arr) = mem_delete tr" "d_search (mem_data tr arr) = mem_search tr arr"
  by (simp_all add: mem_data_def)

context storage_data
begin

lemma api_add_ok:
  fixes a :: "'s api"
  assumes d: "d_add d = add" and st: "inv (store a)" "free (store a)"
    and ok: "\<forall>p \<in> set ps. pet_ok False p" and ids: "inj new_id" "\<forall>n. stored (store a) (new_id n) = None"
  shows "\<exists>a'. api_add d new_id ps a = (a', Ok (map new_id [0..<length ps])) \<and> inv (store a') \<and> free (store a')
    \<and> (exactly (store a) \<longrightarrow> exactly (store a'))
    \<and> (\<forall>n < length ps. stored (store a') (new_id n) = Some (as_stored (new_id n) (ps ! n)))
    \<and> (\<forall>i. i \<notin> new_id ` {..<length ps} \<longrightarrow> stored (store a') i = stored (store a) i)"
proof -
  define qs where "qs = map (\<lambda>(k, p). as_stored (new_id k) p) (zip [0..<length ps] ps)"
  have acc: "accept_new new_id 0 ps = Ok qs" using accept_new_ok [OF ok, of new_id 0] by (simp add: qs_def)
  have pid: "map p_id qs = map new_id [0..<length ps]"
    unfolding qs_def by (rule nth_equalityI) (simp_all add: as_stored_def)
  have nth: "qs ! n = as_stored (new_id n) (ps ! n)" if "n < length ps" for n using that by (simp add: qs_def)
  have bd: "\<forall>p \<in> set qs. p_birthday p \<noteq> None"
  proof
    fix q assume "q \<in> set qs"
    then obtain k p where q: "q = as_stored (new_id k) p" "p \<in> set ps" unfolding qs_def by (auto dest: set_zip_rightD)
    with ok pet_ok_birthday [of False p] show "p_birthday q \<noteq> None" by (simp add: as_stored_def)
  qed
  have pid_in: "p_id q \<in> new_id ` {..<length ps}" if "q \<in> set qs" for q
    using that by (auto simp: as_stored_def qs_def dest: set_zip_leftD)
  have new: "\<forall>p \<in> set qs. stored (store a) (p_id p) = None"
  proof
    fix q assume "q \<in> set qs"
    then obtain k where "p_id q = new_id k" using pid_in by blast
    then show "stored (store a) (p_id q) = None" by (simp add: ids(2))
  qed
  have dist: "distinct (map p_id qs)"
    unfolding pid using ids(1) by (simp add: distinct_map inj_on_def inj_def)
  obtain s' where s': "add qs (store a) = (s', Ok ())" "inv s'" "free s'" "stored s' = add_pets qs (stored (store a))"
    "exactly (store a) \<longrightarrow> exactly s'"
    using add_new [OF st bd new] dist by blast
  define a' where "a' = fst (api_add d new_id ps a)"
  have res: "snd (api_add d new_id ps a) = Ok (map new_id [0..<length ps])"
    by (simp add: api_add_def with_metrics_body acc d s'(1) pid)
  have a': "store a' = s'" by (simp add: a'_def api_add_def with_metrics_body acc d s'(1))
  have "stored s' (new_id n) = Some (as_stored (new_id n) (ps ! n))" if n: "n < length ps" for n
  proof -
    have "qs ! n \<in> set qs" using n by (intro nth_mem) (simp add: qs_def)
    from add_pets_in [OF dist this, of "stored (store a)"] show ?thesis
      unfolding s'(4) nth [OF n] by (simp add: as_stored_def)
  qed
  moreover have "stored s' i = stored (store a) i" if "i \<notin> new_id ` {..<length ps}" for i
    unfolding s'(4) by (rule add_pets_other) (use that pid_in in auto)
  moreover have "api_add d new_id ps a = (a', Ok (map new_id [0..<length ps]))"
    using res by (simp add: a'_def prod_eq_iff)
  ultimately show ?thesis using s' a' by blast
qed

lemma api_update_ok:
  fixes a :: "'s api"
  assumes d: "d_update d = update" and st: "inv (store a)" "free (store a)"
    and ok: "\<forall>p \<in> set ps. pet_ok True p" and old: "\<forall>p \<in> set ps. stored (store a) (p_id p) \<noteq> None"
    and dist: "distinct (map p_id ps)"
  shows "\<exists>a'. api_update d ps a = (a', Ok ()) \<and> inv (store a') \<and> free (store a')
    \<and> (\<forall>p \<in> set ps. stored (store a') (p_id p) = Some (as_stored (p_id p) p))
    \<and> (\<forall>i. i \<notin> p_id ` set ps \<longrightarrow> stored (store a') i = stored (store a) i)"
proof -
  let ?t = "\<lambda>p. p\<lparr>p_name := trim_space (p_name p)\<rparr>"
  have bd: "\<forall>p \<in> set (map ?t ps). p_birthday p \<noteq> None"
    using ok pet_ok_birthday by auto
  have old': "\<forall>p \<in> set (map ?t ps). stored (store a) (p_id p) \<noteq> None" using old by simp
  obtain s' where s': "update (map ?t ps) (store a) = (s', Ok ())" "inv s'" "free s'"
    "stored s' = add_pets (map ?t ps) (stored (store a))"
    using update_old [OF st bd old'] by blast
  have pid: "map p_id (map ?t ps) = map p_id ps" by simp
  define a' where "a' = fst (api_update d ps a)"
  have "snd (api_update d ps a) = Ok ()" "store a' = s'"
    by (simp_all add: a'_def api_update_def with_metrics_body accept_old_ok [OF ok] d s'(1))
  moreover have "stored s' (p_id p) = Some (as_stored (p_id p) p)" if "p \<in> set ps" for p
  proof -
    have d2: "distinct (map p_id (map ?t ps))" and i: "?t p \<in> set (map ?t ps)"
      using dist that by (simp_all only: pid) simp
    from add_pets_in [OF d2 i] show ?thesis unfolding s'(4) by (simp add: as_stored_def)
  qed
  moreover have "stored s' i = stored (store a) i" if "i \<notin> p_id ` set ps" for i
    unfolding s'(4) by (rule add_pets_other) (use that in \<open>simp add: image_image\<close>)
  ultimately show ?thesis using s' by (intro exI [of _ a']) (auto simp: a'_def prod_eq_iff)
qed

end

lemma mem_add_op: "d_add (mem_data tr arr) = mem_add tr" and mem_update_op: "d_update (mem_data tr arr) = mem_update tr"
  by simp_all

text \<open>
  Adding pets over the API, on the in-memory storage. If every pet of the request is
  acceptable and the new ids are different and free, the call answers with the ids in the
  order of the request, the pet at each position is stored under its id with its name
  trimmed, everything else stays as it was, the storage stays well formed and free, and a
  storage with exact indexes keeps them. If some pet is not acceptable (but all have a
  birthday), the call fails as an invalid argument and stores nothing.
\<close>

theorem api_add_stores:
  assumes st: "mem_good tr (store a)" "mem_free (store a)" and bd: "\<forall>p \<in> set ps. p_birthday p \<noteq> None"
    and ids: "inj new_id" "\<forall>n. stored_pets (store a) (new_id n) = None"
  shows "if \<forall>p \<in> set ps. pet_ok False p
    then \<exists>a'. api_add (mem_data tr arr) new_id ps a = (a', Ok (map new_id [0..<length ps]))
        \<and> mem_good tr (store a') \<and> mem_free (store a') \<and> (mem_exact tr (store a) \<longrightarrow> mem_exact tr (store a'))
        \<and> (\<forall>n < length ps. stored_pets (store a') (new_id n) = Some (as_stored (new_id n) (ps ! n)))
        \<and> (\<forall>i. i \<notin> new_id ` {..<length ps} \<longrightarrow> stored_pets (store a') i = stored_pets (store a) i)
    else \<exists>e a'. api_add (mem_data tr arr) new_id ps a = (a', Err (Status InvalidArgument e)) \<and> store a' = store a"
proof (cases "\<forall>p \<in> set ps. pet_ok False p")
  case True
  then show ?thesis using ms.api_add_ok [OF mem_add_op st True ids] by simp
next
  case False
  then have ex: "\<exists>p \<in> set ps. \<not> pet_ok False p" by blast
  obtain e where "accept_new new_id 0 ps = Err e" using accept_new_Err [OF ex bd] by blast
  then have "snd (api_add (mem_data tr arr) new_id ps a) = Err (Status InvalidArgument e)"
    "store (fst (api_add (mem_data tr arr) new_id ps a)) = store a"
    by (simp_all add: api_add_def with_metrics_body)
  then show ?thesis using False by (metis prod.collapse)
qed

definition new_pet :: "string \<Rightarrow> pet" where
  "new_pet n = (some_pet [] n)"

lemma inj_replicate: "inj (\<lambda>n. replicate (Suc n) x)"
  by (rule injI) (metis length_replicate nat.inject)

lemma trim_Rex: "trim_space ''Rex'' = ''Rex''"
  by code_simp

lemma new_pet_ok: "pet_ok False (new_pet ''Rex'')"
  using validate_pet_Ok [of False "new_pet ''Rex''"]
  by (simp add: pet_ok_def new_pet_def trim_Rex valid_date_def days_in_def)

theorem api_add_stores_witness:
  "\<exists>a'. api_add (mem_data list_llrb rev) (\<lambda>n. replicate (Suc n) (CHR ''x'')) [new_pet ''Rex''] (new_api (new_mem list_llrb))
     = (a', Ok [''x'']) \<and> stored_pets (store a') ''x'' = Some (some_pet ''x'' ''Rex'')"
proof -
  let ?a = "new_api (new_mem list_llrb)" and ?p = "new_pet ''Rex''" and ?id = "\<lambda>n. replicate (Suc n) (CHR ''x'')"
  have st: "mem_good list_llrb (store ?a)" "mem_free (store ?a)" using demo_store by (simp_all add: new_api_def)
  have ids: "\<forall>n. stored_pets (store ?a) (?id n) = None" by (simp add: new_api_def stored_pets_def new_mem_def)
  have bd: "\<forall>p \<in> set [?p]. p_birthday p \<noteq> None" by (simp add: new_pet_def)
  have "as_stored ''x'' ?p = some_pet ''x'' ''Rex''"
    by (simp add: as_stored_def new_pet_def some_pet_def trim_Rex)
  with api_add_stores [OF st bd inj_replicate ids, of rev] new_pet_ok show ?thesis by auto
qed

text \<open>
  Updating pets over the API, on the in-memory storage. If every pet is acceptable,
  their ids are different and all are stored, the call succeeds, exactly these pets are
  replaced, with their names trimmed, and the storage stays well formed and free. A call
  that names an id that is not stored fails as an internal error and changes no pet, but
  leaves the storage in the state in which the next deletion over the API never returns.
\<close>

theorem api_update_replaces:
  assumes st: "mem_good tr (store a)" "mem_free (store a)" and ok: "\<forall>p \<in> set ps. pet_ok True p"
    and dist: "distinct (map p_id ps)"
  shows "if \<forall>p \<in> set ps. stored_pets (store a) (p_id p) \<noteq> None
    then \<exists>a'. api_update (mem_data tr arr) ps a = (a', Ok ()) \<and> mem_good tr (store a') \<and> mem_free (store a')
        \<and> (\<forall>p \<in> set ps. stored_pets (store a') (p_id p) = Some (as_stored (p_id p) p))
        \<and> (\<forall>i. i \<notin> p_id ` set ps \<longrightarrow> stored_pets (store a') i = stored_pets (store a) i)
    else \<exists>e a'. api_update (mem_data tr arr) ps a = (a', Err (Status Internal e))
        \<and> stored_pets (store a') = stored_pets (store a)
        \<and> snd (api_delete (mem_data tr arr) is a') = Blocked"
proof (cases "\<forall>p \<in> set ps. stored_pets (store a) (p_id p) \<noteq> None")
  case True
  then show ?thesis using ms.api_update_ok [OF mem_update_op st ok True dist] by simp
next
  case False
  let ?qs = "map (\<lambda>p. p\<lparr>p_name := trim_space (p_name p)\<rparr>) ps"
  have "\<exists>p \<in> set ?qs. stored_pets (store a) (p_id p) = None" using False by auto
  then obtain e where e: "mem_update tr ?qs (store a) = ((store a)\<lparr>leaked := 1\<rparr>, Err e)"
    using mem_refused(2) [OF st(2), of ?qs tr] by blast
  define a' where "a' = fst (api_update (mem_data tr arr) ps a)"
  have r: "snd (api_update (mem_data tr arr) ps a) = Err (Status Internal e)" and s': "store a' = (store a)\<lparr>leaked := 1\<rparr>"
    by (simp_all add: a'_def api_update_def with_metrics_body accept_old_ok [OF ok] e)
  have "snd (api_delete (mem_data tr arr) is a') = Blocked"
    using leaked_writer [of "store a'" tr "is"] by (simp add: api_delete_def with_metrics_body s')
  moreover have "stored_pets (store a') = stored_pets (store a)" by (simp add: s' stored_pets_def)
  moreover have "api_update (mem_data tr arr) ps a = (a', Err (Status Internal e))"
    using r by (simp add: a'_def prod_eq_iff)
  ultimately show ?thesis using False by auto
qed

lemma old_pet_ok: "pet_ok True (some_pet ''x'' ''Rex'')"
  using validate_pet_Ok [of True "some_pet ''x'' ''Rex''"]
  by (simp add: pet_ok_def trim_Rex valid_date_def days_in_def)

theorem api_update_replaces_witness:
  "let (a', oc) = api_update (mem_data list_llrb rev) [some_pet ''x'' ''Rex''] (new_api (new_mem list_llrb))
   in \<not> is_ok oc \<and> snd (api_delete (mem_data list_llrb rev) [] a') = Blocked"
proof -
  let ?a = "new_api (new_mem list_llrb)" and ?p = "some_pet ''x'' ''Rex''"
  have st: "mem_good list_llrb (store ?a)" "mem_free (store ?a)" using demo_store by (simp_all add: new_api_def)
  have ok: "\<forall>p \<in> set [?p]. pet_ok True p" "distinct (map p_id [?p])" using old_pet_ok by simp_all
  have "stored_pets (store ?a) ''x'' = None" by (simp add: new_api_def stored_pets_def new_mem_def)
  with api_update_replaces [OF st ok, of rev "[]"] show ?thesis by auto
qed

section \<open>Requests that take the server down\<close>

lemma valid_date_time: "valid_date d \<Longrightarrow> birthday_to_time (Some d) = Ok (Midnight (d_year d) (d_month d) (d_day d))"
  by (simp add: birthday_to_time_Ok)

text \<open>
  Requests of a single client that pass the server's validation, or that it does not
  survive validating, crash the server: a search for birthdays whose end is before its start,
  as soon as one pet is stored; adding a pet without a birthday; and a change of the sampler
  without a sampler.
\<close>

theorem requests_crash_server:
  assumes good: "mem_good tr (store a)" and ne: "stored_pets (store a) \<noteq> Map.empty" and w: "\<not> writer_waits (store a)"
    and f: "sr_range f = Some (Some x, Some y)" "0 \<notin> set (sr_types f)" "valid_date x" "valid_date y"
    and lt: "date_time (Some y) < date_time (Some x)"
    and p: "p_id p = []" "trim_space (p_name p) \<noteq> []" "p_type p \<noteq> 0" "p_birthday p = None"
  shows "validate_search f = Ok ()
    \<and> snd (fst (api_search (mem_data tr arr) None False f a)) = Panics (PanicMsg ''llrb: inverted range'')
    \<and> snd (api_add (mem_data tr arr) new_id (p # ps) a) = Panics NilDeref
    \<and> snd (change_sampler None c) = Panics NilDeref"
proof -
  have v: "validate_search f = Ok ()"
    using f by (simp add: validate_search_def valid_date_time)
  have "search_pets tr arr f (store a) = Panics (PanicMsg ''llrb: inverted range'')"
    by (rule inverted_range_panics [OF good ne f(1) lt])
  then have "snd (mem_search tr arr None f (store a)) = Panics (PanicMsg ''llrb: inverted range'')"
    using w by (simp add: mem_search_def)
  then have "snd (fst (api_search (mem_data tr arr) None False f a)) = Panics (PanicMsg ''llrb: inverted range'')"
    by (simp add: api_search_def v with_metrics_body split_beta)
  moreover have "snd (validate_pet False p) = Panics NilDeref"
    using p by (simp add: validate_pet_def birthday_to_time_def Let_def)
  then have "snd (api_add (mem_data tr arr) new_id (p # ps) a) = Panics NilDeref"
    by (simp add: api_add_def with_metrics_body split_beta)
  ultimately show ?thesis using v by (simp add: change_sampler_def)
qed

theorem requests_crash_server_witness:
  "\<exists>a. snd (fst (api_search (mem_data list_llrb rev) None False
      \<lparr>sr_names = [], sr_types = [], sr_range = Some (Some \<lparr>d_year = 2021, d_month = 1, d_day = 2\<rparr>, Some \<lparr>d_year = 2021, d_month = 1, d_day = 1\<rparr>)\<rparr> a))
     = Panics (PanicMsg ''llrb: inverted range'')"
proof -
  let ?x = "\<lparr>d_year = 2021, d_month = 1, d_day = 2\<rparr>" and ?y = "\<lparr>d_year = 2021, d_month = 1, d_day = 1\<rparr>"
  let ?f = "\<lparr>sr_names = [], sr_types = [], sr_range = Some (Some ?x, Some ?y)\<rparr>"
  let ?p = "some_pet ''a'' ''Rex''" and ?q = "(new_pet ''Rex'')\<lparr>p_birthday := None\<rparr>"
  have none: "stored_pets (new_mem list_llrb) = Map.empty" by (simp add: stored_pets_def new_mem_def)
  obtain s where s: "mem_good list_llrb s" "mem_free s" "stored_pets s = [''a'' \<mapsto> ?p]"
    using ms.add_new [OF demo_store(1,2), of "[?p]"] by (auto simp: none)
  have a: "mem_good list_llrb (store (new_api s))" "stored_pets (store (new_api s)) \<noteq> Map.empty" "\<not> writer_waits (store (new_api s))"
    using s by (simp_all add: new_api_def mem_free_def)
  have d: "valid_date ?x" "valid_date ?y" by (simp_all add: valid_date_def days_in_def)
  then have lt: "date_time (Some ?y) < date_time (Some ?x)"
    by (simp add: date_time_def valid_date_time less_go_time_def)
  have f: "sr_range ?f = Some (Some ?x, Some ?y)" "0 \<notin> set (sr_types ?f)" by simp_all
  have q: "p_id ?q = []" "trim_space (p_name ?q) \<noteq> []" "p_type ?q \<noteq> 0" "p_birthday ?q = None"
    by (simp_all add: new_pet_def trim_Rex)
  from requests_crash_server [OF a f d lt q, of rev "\<lambda>_. []" "[]" NeverSample] show ?thesis by blast
qed

interpretation srv: locked_object server_step "\<lambda>running. running" "\<lambda>_ _. True"
  by unfold_locales (case_tac x; simp)

text \<open>
  C0: A server that serves cannot be stopped. Once \<open>Start\<close> has found its address and
  serves, it holds the mutex that \<open>Stop\<close> needs, so no later call of \<open>Stop\<close> or \<open>Start\<close>
  returns; a \<open>Start\<close> that finds no address returns its error and \<open>Stop\<close> works.
\<close>

theorem server_never_stops:
  "(let s = fst (server_step (StartCall (Ok ())) False)
    in snd (server_step StopCall s) = Blocked
       \<and> run_ops server_step calls s = (s, replicate (length calls) Blocked))
   \<and> server_step (StartCall (Err e)) False = (False, Err e)
   \<and> server_step StopCall False = (False, Ok ())"
  using srv.stuck_run [of True calls] by simp

section \<open>The sampler over the API\<close>

text \<open>
  A request to change the sampler is carried out exactly for the types never, always,
  and a ratio that is not at most 0 and not above 1, and then the new sampler decides the
  calls the sampler does not decide itself; other requests are refused and change nothing.
  A ratio that is no number passes both comparisons and is installed.
\<close>

theorem change_sampler_effect:
  "(let r = change_sampler (Some (SamplerReq t v)) s
    in (is_ok (snd r) \<longleftrightarrow> t = 1 \<or> t = 2 \<or> (t = 3 \<and> (v = NaN \<or> (\<exists>q. v = Fin q \<and> 0 < q \<and> q \<le> 1))))
       \<and> fst r = (if is_ok (snd r) then (if t = 1 then NeverSample else if t = 2 then AlwaysSample else TraceIDRatio v) else s)
       \<and> snd r \<noteq> Blocked \<and> \<not> (\<exists>m. snd r = Panics m))"
  by (cases v) (auto simp: change_sampler_def switch_sampler_def Let_def)

end
