(* ===== verification/Pet_Client.thy ===== *)
theory Pet_Client
  imports Pet_Server
begin

text \<open>
  The client of the pet store (\<open>petstore/client/client.go\<close>), whose calls go to the handlers
  of the server. A handler that panics ends the server process, which the client sees as a
  lost connection.
\<close>

section \<open>Options of a call\<close>

text \<open>\<open>TraceOpt\<close> is \<open>TraceID(s)\<close> with the address \<open>s\<close>, possibly nil.\<close>

datatype call_option = TraceOpt "nat option"

fun apply_options :: "call_option list \<Rightarrow> nat option \<Rightarrow> nat option" where
  "apply_options [] tr = tr"
| "apply_options (TraceOpt s # os) tr = apply_options os (case s of None \<Rightarrow> tr | Some a \<Rightarrow> Some a)"

text \<open>The header is a nil map in every caller; writing to it panics.\<close>

definition handle_call_options :: "call_option list \<Rightarrow> ('e, unit) outcome" where
  "handle_call_options os =
     (if apply_options os None = None then Ok () else Panics (PanicMsg ''assignment to entry in nil map''))"

section \<open>Calls\<close>

text \<open>\<open>New\<close> dials without blocking, so an absent server shows only in the calls.\<close>

record 'conn pet_client =
  pc_conn :: 'conn

definition pet_client_new :: "(string \<Rightarrow> (string, 'conn) outcome) \<Rightarrow> string \<Rightarrow> (string, 'conn pet_client) outcome" where
  "pet_client_new dial addr = then_ok (dial addr) (\<lambda>c. Ok \<lparr>pc_conn = c\<rparr>)"

datatype client_err = Local pet_err | Remote rpc_err | ConnectionLost | NilFilter | BadSamplerType | BadRate

fun from_server :: "(rpc_err, 'a) outcome \<Rightarrow> (client_err, 'a) outcome" where
  "from_server (Ok a) = Ok a"
| "from_server (Err e) = Err (Remote e)"
| "from_server (Panics p) = Err ConnectionLost"
| "from_server Blocked = Blocked"

fun validate_all :: "bool \<Rightarrow> pet list \<Rightarrow> (client_err, pet list) outcome" where
  "validate_all u [] = Ok []"
| "validate_all u (p # ps) =
     (let (p1, oc) = validate_pet u p
      in then_ok (map_err Local oc) (\<lambda>_. then_ok (validate_all u ps) (\<lambda>qs. Ok (p1 # qs))))"

text \<open>A call that gets through its options and reaches the server.\<close>

definition reach :: "call_option list \<Rightarrow> ('s \<Rightarrow> 's \<times> (rpc_err, 'a) outcome) \<Rightarrow> 's \<Rightarrow> 's \<times> (client_err, 'a) outcome" where
  "reach os call s =
     (case handle_call_options os of
        Ok _ \<Rightarrow> (let (s', oc) = call s in (s', from_server oc))
      | Err e \<Rightarrow> (s, Err e) | Panics p \<Rightarrow> (s, Panics p) | Blocked \<Rightarrow> (s, Blocked))"

definition client_add_pets :: "'s data_ops \<Rightarrow> (nat \<Rightarrow> string) \<Rightarrow> pet list \<Rightarrow> call_option list \<Rightarrow> 's api
    \<Rightarrow> 's api \<times> (client_err, string list) outcome" where
  "client_add_pets d new_id ps os a =
     (if ps = [] then (a, Ok [])
      else (case validate_all False ps of
              Ok qs \<Rightarrow> reach os (api_add d new_id qs) a
            | Err e \<Rightarrow> (a, Err e) | Panics p \<Rightarrow> (a, Panics p) | Blocked \<Rightarrow> (a, Blocked)))"

definition client_update_pets :: "'s data_ops \<Rightarrow> pet list \<Rightarrow> call_option list \<Rightarrow> 's api
    \<Rightarrow> 's api \<times> (client_err, unit) outcome" where
  "client_update_pets d ps os a =
     (if ps = [] then (a, Ok ())
      else (case validate_all True ps of
              Ok qs \<Rightarrow> reach os (api_update d qs) a
            | Err e \<Rightarrow> (a, Err e) | Panics p \<Rightarrow> (a, Panics p) | Blocked \<Rightarrow> (a, Blocked)))"

definition client_delete_pets :: "'s data_ops \<Rightarrow> string list \<Rightarrow> call_option list \<Rightarrow> 's api
    \<Rightarrow> 's api \<times> (client_err, unit) outcome" where
  "client_delete_pets d is os a = (if is = [] then (a, Ok ()) else reach os (api_delete d is) a)"

text \<open>
  The items of the channel of \<open>SearchPets\<close>: pets, and last an error if the stream ends with
  one. \<open>nil_pet\<close> is what the library delivers for a nil message.
\<close>

definition client_search_pets :: "'s data_ops \<Rightarrow> pet \<Rightarrow> search_req option \<Rightarrow> call_option list \<Rightarrow> 's api
    \<Rightarrow> 's api \<times> (client_err, (pet + client_err) list) outcome" where
  "client_search_pets d nil_pet f os a =
     (case f of
        None \<Rightarrow> (a, Err NilFilter)
      | Some f \<Rightarrow>
          (case handle_call_options os of
             Ok _ \<Rightarrow>
               (let ((a', oc), items) = api_search d None False f a;
                    pets = map (\<lambda>it. Inl (case it of None \<Rightarrow> nil_pet | Some p \<Rightarrow> p)) items
                in (a', case from_server oc of
                          Ok _ \<Rightarrow> Ok pets | Err e \<Rightarrow> Ok (pets @ [Inr e]) | Panics p \<Rightarrow> Panics p | Blocked \<Rightarrow> Blocked))
           | Err e \<Rightarrow> (a, Err e) | Panics p \<Rightarrow> (a, Panics p) | Blocked \<Rightarrow> (a, Blocked)))"

definition client_birthday :: "pet \<Rightarrow> ('e, go_time) outcome" where
  "client_birthday p =
     (case birthday_to_time (p_birthday p) of
        Ok t \<Rightarrow> Ok t | Err _ \<Rightarrow> Ok zero_time | Panics x \<Rightarrow> Panics x | Blocked \<Rightarrow> Blocked)"

section \<open>The sampler\<close>

record sampler_conf =
  sp_type :: int
  sp_rate :: go_float

definition valid_types :: "int set" where
  "valid_types = {1, 2, 3}"

definition sampler_validate :: "sampler_conf \<Rightarrow> (client_err, unit) outcome" where
  "sampler_validate s =
     (if sp_type s \<notin> valid_types then Err BadSamplerType
      else if sp_type s = 3 \<and> (float_le (sp_rate s) 0 \<or> float_gt (sp_rate s) 1) then Err BadRate
      else Ok ())"

definition sampler_proto :: "sampler_conf \<Rightarrow> sampler_req" where
  "sampler_proto s = SamplerReq (sp_type s) (sp_rate s)"

fun sampler_from_proto :: "sampler_req \<Rightarrow> sampler_conf" where
  "sampler_from_proto (SamplerReq t v) = \<lparr>sp_type = t, sp_rate = v\<rparr>"

definition client_change_sampler :: "sampler_conf \<Rightarrow> call_option list \<Rightarrow> child_sampler
    \<Rightarrow> child_sampler \<times> (client_err, unit) outcome" where
  "client_change_sampler sc os c =
     (case sampler_validate sc of
        Ok _ \<Rightarrow> reach os (\<lambda>c. (let (c', oc) = change_sampler (Some (sampler_proto sc)) c
                                in (c', map_err (\<lambda>_. Status InvalidArgument BadSampler) oc))) c
      | Err e \<Rightarrow> (c, Err e) | Panics p \<Rightarrow> (c, Panics p) | Blocked \<Rightarrow> (c, Blocked))"

section \<open>Properties\<close>

lemma options_none: "apply_options (map (\<lambda>_. TraceOpt None) xs) tr = tr"
  by (induction xs) simp_all

lemma options_some: "apply_options os tr = None \<longleftrightarrow> tr = None \<and> set os \<subseteq> {TraceOpt None}"
proof (induction os arbitrary: tr)
  case Nil
  then show ?case by simp
next
  case (Cons x os)
  then show ?case by (cases x) (auto split: option.splits)
qed

lemma validate_all_ok:
  "\<forall>p \<in> set ps. pet_ok u p \<Longrightarrow> validate_all u ps = Ok (map (\<lambda>p. p\<lparr>p_name := trim_space (p_name p)\<rparr>) ps)"
  by (induction ps) (auto simp: split_beta pet_ok_def validate_pet_Ok_fst)

lemma pet_ok_trimmed: "pet_ok u p \<Longrightarrow> pet_ok u (p\<lparr>p_name := trim_space (p_name p)\<rparr>)"
  using validate_pet_Ok [of u p] validate_pet_Ok [of u "p\<lparr>p_name := trim_space (p_name p)\<rparr>"]
  by (simp add: pet_ok_def)

text \<open>
  Asking for a trace crashes the client. With a trace option that has an address, every
  call that does not end before it looks at its options panics in the client, and the server
  is not reached; without one (also with nil addresses) the options never fail.
\<close>

theorem trace_option_crashes_client:
  assumes "TraceOpt (Some x) \<in> set os" and "ps \<noteq> []" and "\<forall>p \<in> set ps. pet_ok False p" and "is \<noteq> []"
    and "sampler_validate sc = Ok ()"
  shows "client_add_pets d new_id ps os a = (a, Panics (PanicMsg ''assignment to entry in nil map''))
    \<and> client_delete_pets d is os a = (a, Panics (PanicMsg ''assignment to entry in nil map''))
    \<and> client_search_pets d nil_pet (Some f) os a = (a, Panics (PanicMsg ''assignment to entry in nil map''))
    \<and> client_change_sampler sc os c = (c, Panics (PanicMsg ''assignment to entry in nil map''))
    \<and> handle_call_options (map (\<lambda>_. TraceOpt None) xs) = (Ok () :: (client_err, unit) outcome)"
proof -
  have "apply_options os None \<noteq> None" using assms(1) by (auto simp: options_some)
  then have h: "handle_call_options os = Panics (PanicMsg ''assignment to entry in nil map'')"
    by (simp only: handle_call_options_def if_False)
  show ?thesis
    using assms
    by (simp add: client_add_pets_def client_delete_pets_def client_search_pets_def client_change_sampler_def
        reach_def h validate_all_ok handle_call_options_def [of "map _ _"] options_none)
qed

theorem trace_option_crashes_client_witness:
  "snd (client_add_pets (mem_data list_llrb rev) (\<lambda>n. []) [new_pet ''Rex''] [TraceOpt (Some 7)] (new_api (new_mem list_llrb)))
     = Panics (PanicMsg ''assignment to entry in nil map'')"
proof -
  have h: "TraceOpt (Some 7) \<in> set [TraceOpt (Some 7)]" "[new_pet ''Rex''] \<noteq> []"
    "\<forall>p \<in> set [new_pet ''Rex'']. pet_ok False p" "[''a''] \<noteq> []"
    "sampler_validate \<lparr>sp_type = 1, sp_rate = Fin 0\<rparr> = Ok ()"
    using new_pet_ok by (simp_all add: sampler_validate_def valid_types_def)
  from trace_option_crashes_client [OF h, THEN conjunct1, of "mem_data list_llrb rev" "\<lambda>n. []"]
  show ?thesis by simp
qed

text \<open>
  The client's check of a sampler and the server's agree: the server refuses nothing the
  client lets through and would refuse everything it does not, also for numbers that are no
  numbers. A sampler survives its encoding, and a successful change installs the sampler
  that was asked for.
\<close>

theorem client_sampler_agrees:
  "sampler_from_proto (sampler_proto sc) = sc
   \<and> is_ok (sampler_validate sc) = is_ok (snd (change_sampler (Some (sampler_proto sc)) c))
   \<and> client_change_sampler sc [] c =
       (case sampler_validate sc of
          Ok _ \<Rightarrow> (if sp_type sc = 1 then NeverSample else if sp_type sc = 2 then AlwaysSample
                    else TraceIDRatio (sp_rate sc), Ok ())
        | Err e \<Rightarrow> (c, Err e) | Panics p \<Rightarrow> (c, Panics p) | Blocked \<Rightarrow> (c, Blocked))"
  by (cases sc) (auto simp: sampler_proto_def sampler_validate_def valid_types_def change_sampler_def
      switch_sampler_def client_change_sampler_def reach_def handle_call_options_def)

lemma client_add_reaches:
  assumes "\<forall>p \<in> set ps. pet_ok False p" "ps \<noteq> []"
  shows "client_add_pets d new_id ps [] a =
    (fst (api_add d new_id (map (\<lambda>p. p\<lparr>p_name := trim_space (p_name p)\<rparr>) ps) a),
     from_server (snd (api_add d new_id (map (\<lambda>p. p\<lparr>p_name := trim_space (p_name p)\<rparr>) ps) a)))"
  using assms by (simp add: client_add_pets_def validate_all_ok reach_def handle_call_options_def split_beta)

lemma client_search_exact:
  assumes good: "mem_good tr (store a)" and free: "mem_free (store a)" and ex: "mem_exact tr (store a)"
    and d: "distinct (sr_names f)" "distinct (sr_types f)" and r: "good_range f" and v: "validate_search f = Ok ()"
    and arr: "\<And>xs. mset (arr xs) = mset xs"
  shows "\<exists>a' items. client_search_pets (mem_data tr arr) nil_pet (Some f) [] a = (a', Ok items)
    \<and> store a' = store a \<and> distinct items \<and> set items = {Inl p | i p. stored_pets (store a) i = Some p \<and> wants f p}"
proof -
  obtain xs where xs: "search_pets tr arr f (store a) = Ok xs" "distinct xs"
    "set xs = {Some p | i p. stored_pets (store a) i = Some p \<and> wants f p}"
    using search_exact_aux [OF good ex d r arr] by blast
  have m: "mem_search tr arr None f (store a) = (store a, Ok xs)"
    using free xs(1) by (simp add: mem_search_def mem_free_def)
  let ?items = "map (\<lambda>it. Inl (case it of None \<Rightarrow> nil_pet | Some p \<Rightarrow> p)) xs"
  define a' where "a' = fst (client_search_pets (mem_data tr arr) nil_pet (Some f) [] a)"
  have "client_search_pets (mem_data tr arr) nil_pet (Some f) [] a = (a', Ok ?items)" "store a' = store a"
    by (simp_all add: a'_def client_search_pets_def handle_call_options_def api_search_def v m with_metrics_body
        Let_def split_beta prod_eq_iff)
  moreover have "inj_on (\<lambda>it. Inl (case it of None \<Rightarrow> nil_pet | Some p \<Rightarrow> p)) (set xs)"
    using xs(3) by (auto simp: inj_on_def)
  then have "distinct ?items" using xs(2) by (simp add: distinct_map)
  moreover have "set ?items = {Inl p | i p. stored_pets (store a) i = Some p \<and> wants f p}"
    using xs(3) by force
  ultimately show ?thesis by blast
qed

text \<open>
  C3: Client, server and storage together. On a storage that is well formed, free and
  exact, a client that adds acceptable pets (with fresh ids made by the server) gets their
  ids in order, and a valid search of the client without duplicate filter values then
  yields exactly the stored pets that pass its filter, each once and without an error,
  among them each added pet that passes, under its new id.
\<close>

theorem client_finds_what_it_added:
  assumes good: "mem_good tr (store a)" and free: "mem_free (store a)" and ex: "mem_exact tr (store a)"
    and ok: "\<forall>p \<in> set ps. pet_ok False p" and ne: "ps \<noteq> []"
    and ids: "inj new_id" "\<forall>n. stored_pets (store a) (new_id n) = None"
    and d: "distinct (sr_names f)" "distinct (sr_types f)" and r: "good_range f" and v: "validate_search f = Ok ()"
    and arr: "\<And>xs. mset (arr xs) = mset xs"
  shows "\<exists>a1 a2 items. client_add_pets (mem_data tr arr) new_id ps [] a = (a1, Ok (map new_id [0..<length ps]))
    \<and> client_search_pets (mem_data tr arr) nil_pet (Some f) [] a1 = (a2, Ok items) \<and> distinct items
    \<and> set items = {Inl p | i p. stored_pets (store a1) i = Some p \<and> wants f p}
    \<and> (\<forall>n < length ps. wants f (as_stored (new_id n) (ps ! n)) \<longrightarrow> Inl (as_stored (new_id n) (ps ! n)) \<in> set items)"
proof -
  let ?ps = "map (\<lambda>p. p\<lparr>p_name := trim_space (p_name p)\<rparr>) ps"
  have ok': "\<forall>p \<in> set ?ps. pet_ok False p" using ok pet_ok_trimmed by simp
  obtain a1 where a1: "api_add (mem_data tr arr) new_id ?ps a = (a1, Ok (map new_id [0..<length ?ps]))"
    "mem_good tr (store a1)" "mem_free (store a1)" "mem_exact tr (store a1)"
    "\<forall>n < length ?ps. stored_pets (store a1) (new_id n) = Some (as_stored (new_id n) (?ps ! n))"
    using ms.api_add_ok [OF mem_add_op good free ok' ids] ex by blast
  have add: "client_add_pets (mem_data tr arr) new_id ps [] a = (a1, Ok (map new_id [0..<length ps]))"
    by (simp add: client_add_reaches [OF ok ne] a1(1))
  obtain a2 items where s: "client_search_pets (mem_data tr arr) nil_pet (Some f) [] a1 = (a2, Ok items)"
    "distinct items" "set items = {Inl p | i p. stored_pets (store a1) i = Some p \<and> wants f p}"
    using client_search_exact [OF a1(2,3,4) d r v arr] by blast
  have "as_stored i (p\<lparr>p_name := trim_space (p_name p)\<rparr>) = as_stored i p" for i p by (simp add: as_stored_def)
  then have "stored_pets (store a1) (new_id n) = Some (as_stored (new_id n) (ps ! n))" if "n < length ps" for n
    using a1(5) that by simp
  then have "Inl (as_stored (new_id n) (ps ! n)) \<in> set items"
    if "n < length ps" "wants f (as_stored (new_id n) (ps ! n))" for n
    using that unfolding s(3) by blast
  then show ?thesis using add s by blast
qed

theorem client_finds_what_it_added_witness:
  "\<exists>a1 a2 items. client_add_pets (mem_data list_llrb rev) (\<lambda>n. replicate (Suc n) (CHR ''x'')) [new_pet ''Rex''] [] (new_api (new_mem list_llrb))
     = (a1, Ok [''x'']) \<and> client_search_pets (mem_data list_llrb rev) (new_pet []) (Some (by_name ''Rex'')) [] a1 = (a2, Ok items)
     \<and> Inl (some_pet ''x'' ''Rex'') \<in> set items"
proof -
  let ?a = "new_api (new_mem list_llrb)" and ?p = "new_pet ''Rex''" and ?id = "\<lambda>n. replicate (Suc n) (CHR ''x'')"
  have st: "mem_good list_llrb (store ?a)" "mem_free (store ?a)" "mem_exact list_llrb (store ?a)"
    using demo_store by (simp_all add: new_api_def)
  have ids: "\<forall>n. stored_pets (store ?a) (?id n) = None" by (simp add: new_api_def stored_pets_def new_mem_def)
  have ok: "\<forall>p \<in> set [?p]. pet_ok False p" "[?p] \<noteq> []" using new_pet_ok by simp_all
  have f: "distinct (sr_names (by_name ''Rex''))" "distinct (sr_types (by_name ''Rex''))" "good_range (by_name ''Rex'')"
    "validate_search (by_name ''Rex'') = Ok ()" by (simp_all add: validate_search_def)
  have p: "as_stored ''x'' ?p = some_pet ''x'' ''Rex''" "wants (by_name ''Rex'') (some_pet ''x'' ''Rex'')"
    by (simp_all add: as_stored_def new_pet_def some_pet_def trim_Rex)
  from client_finds_what_it_added [OF st ok inj_replicate ids f, of rev "new_pet []"] show ?thesis
    using p by auto
qed

end
