(* ===== verification/Pet_Operator.thy ===== *)
theory Pet_Operator
  imports Pet_Client
begin

text \<open>
  The Kubernetes operator of the pet store (\<open>petstore-operator/controllers\<close>): it
  reconciles a custom resource with the pet store, through the client, the server and the
  storage modelled before. Calls of the Kubernetes API answer through arguments.
\<close>

section \<open>The custom resource\<close>

record pet_cr =
  cr_name :: string
  cr_type :: string
  cr_birthday :: go_time
  cr_id :: string
  cr_deleted :: bool
  cr_finalizers :: "string list"

definition pet_finalizer :: string where
  "pet_finalizer = ''pet.petstore.example.com''"

definition pet_type_to_proto :: "string \<Rightarrow> int" where
  "pet_type_to_proto t =
     (if t = ''dog'' then 1 else if t = ''cat'' then 2 else if t = ''bird'' then 3 else 4)"

definition time_to_pb_date :: "go_time \<Rightarrow> date" where
  "time_to_pb_date t = \<lparr>d_year = t_year t, d_month = t_month t, d_day = t_day t\<rparr>"

definition add_finalizer :: "pet_cr \<Rightarrow> pet_cr" where
  "add_finalizer cr =
     (if pet_finalizer \<in> set (cr_finalizers cr) then cr
      else cr\<lparr>cr_finalizers := cr_finalizers cr @ [pet_finalizer]\<rparr>)"

definition remove_finalizer :: "pet_cr \<Rightarrow> pet_cr" where
  "remove_finalizer cr = cr\<lparr>cr_finalizers := filter (\<lambda>x. x \<noteq> pet_finalizer) (cr_finalizers cr)\<rparr>"

section \<open>Reconciling\<close>

datatype rec_err =
    GetFailed | HelperFailed | DialFailed | PatchFailed
  | SearchError client_err | CreateError client_err | UpdateError client_err | DeleteError client_err

text \<open>What every function needs of the world: the storage's operations, the message delivered
  for nil, the ids the server makes, and whether dialling works.\<close>

record 's world =
  w_data :: "'s data_ops"
  w_nil :: pet
  w_dial :: bool

definition find_pet_in_store :: "'s world \<Rightarrow> pet_cr \<Rightarrow> 's api \<Rightarrow> 's api \<times> (rec_err, pet option) outcome" where
  "find_pet_in_store w cr a =
     (let (a', oc) = client_search_pets (w_data w) (w_nil w)
            (Some \<lparr>sr_names = [cr_name cr], sr_types = [pet_type_to_proto (cr_type cr)], sr_range = None\<rparr>) [] a
      in (a', then_ok (map_err SearchError oc)
            (\<lambda>items. Ok (case find (\<lambda>it. case it of Inl p \<Rightarrow> p_id p = cr_id cr | Inr _ \<Rightarrow> False) items of
                          Some (Inl p) \<Rightarrow> Some p | _ \<Rightarrow> None))))"

definition create_pet_in_store :: "'s world \<Rightarrow> (nat \<Rightarrow> string) \<Rightarrow> pet_cr \<Rightarrow> 's api
    \<Rightarrow> ('s api \<times> pet_cr) \<times> (rec_err, unit) outcome" where
  "create_pet_in_store w new_id cr a =
     (let (a', oc) = client_add_pets (w_data w) new_id
            [\<lparr>p_id = [], p_name = cr_name cr, p_type = pet_type_to_proto (cr_type cr),
              p_birthday = Some (time_to_pb_date (cr_birthday cr))\<rparr>] [] a
      in (case oc of
            Ok is \<Rightarrow> (case is of [] \<Rightarrow> ((a', cr), Panics IndexOutOfRange)
                                 | i # _ \<Rightarrow> ((a', cr\<lparr>cr_id := i\<rparr>), Ok ()))
          | Err e \<Rightarrow> ((a', cr), Err (CreateError e)) | Panics p \<Rightarrow> ((a', cr), Panics p) | Blocked \<Rightarrow> ((a', cr), Blocked)))"

definition update_pet_in_store :: "'s world \<Rightarrow> pet_cr \<Rightarrow> pet \<Rightarrow> 's api \<Rightarrow> 's api \<times> (rec_err, unit) outcome" where
  "update_pet_in_store w cr p a =
     (let (a', oc) = client_update_pets (w_data w)
            [p\<lparr>p_name := cr_name cr, p_type := pet_type_to_proto (cr_type cr),
               p_birthday := Some (time_to_pb_date (cr_birthday cr))\<rparr>] [] a
      in (a', map_err UpdateError oc))"

definition reconcile_normal :: "'s world \<Rightarrow> (nat \<Rightarrow> string) \<Rightarrow> pet_cr \<Rightarrow> 's api
    \<Rightarrow> ('s api \<times> pet_cr) \<times> (rec_err, unit) outcome" where
  "reconcile_normal w new_id cr0 a =
     (let cr = add_finalizer cr0
      in if \<not> w_dial w then ((a, cr), Err DialFailed)
         else (let (a1, oc) = find_pet_in_store w cr a
               in (case oc of
                     Ok None \<Rightarrow> create_pet_in_store w new_id cr a1
                   | Ok (Some p) \<Rightarrow> (let (a2, oc2) = update_pet_in_store w cr p a1 in ((a2, cr), oc2))
                   | Err e \<Rightarrow> ((a1, cr), Err e) | Panics x \<Rightarrow> ((a1, cr), Panics x) | Blocked \<Rightarrow> ((a1, cr), Blocked))))"

definition reconcile_delete :: "'s world \<Rightarrow> pet_cr \<Rightarrow> 's api \<Rightarrow> ('s api \<times> pet_cr) \<times> (rec_err, unit) outcome" where
  "reconcile_delete w cr a =
     (if \<not> w_dial w then ((a, cr), Err DialFailed)
      else if cr_id cr = [] then ((a, remove_finalizer cr), Ok ())
      else (let (a1, oc) = client_delete_pets (w_data w) [cr_id cr] [] a
            in (case oc of
                  Ok _ \<Rightarrow> ((a1, remove_finalizer cr), Ok ())
                | Err e \<Rightarrow> ((a1, cr), Err (DeleteError e)) | Panics p \<Rightarrow> ((a1, cr), Panics p) | Blocked \<Rightarrow> ((a1, cr), Blocked))))"

text \<open>
  \<open>Reconcile\<close>: \<open>got\<close> is what the Kubernetes API has under the name (\<open>Ok None\<close> for not
  found), and the result is what it has afterwards: the changed resource is written back by
  the deferred patch, also after an error, and not at all when the patch fails.
\<close>

definition reconcile :: "'s world \<Rightarrow> bool \<Rightarrow> bool \<Rightarrow> (nat \<Rightarrow> string) \<Rightarrow> (rec_err, pet_cr option) outcome \<Rightarrow> 's api
    \<Rightarrow> ('s api \<times> pet_cr option) \<times> (rec_err, unit) outcome" where
  "reconcile w helper_ok patch_ok new_id got a =
     (case got of
        Ok None \<Rightarrow> ((a, None), Ok ())
      | Ok (Some cr) \<Rightarrow>
          if \<not> helper_ok then ((a, Some cr), Err HelperFailed)
          else (let ((a', cr'), oc) = (if \<not> cr_deleted cr then reconcile_normal w new_id cr a else reconcile_delete w cr a)
                in (case oc of
                      Blocked \<Rightarrow> ((a', Some cr), Blocked)
                    | _ \<Rightarrow> if patch_ok then ((a', Some cr'), oc)
                           else ((a', Some cr), case oc of Panics p \<Rightarrow> Panics p | _ \<Rightarrow> Err PatchFailed)))
      | Err e \<Rightarrow> ((a, None), Err e) | Panics p \<Rightarrow> ((a, None), Panics p) | Blocked \<Rightarrow> ((a, None), Blocked))"

section \<open>Properties\<close>

definition mem_world :: "'t llrb \<Rightarrow> (string list list \<Rightarrow> string list list) \<Rightarrow> pet \<Rightarrow> 't mem world" where
  "mem_world tr arr np = \<lparr>w_data = mem_data tr arr, w_nil = np, w_dial = True\<rparr>"

lemma mem_world_simps [simp]:
  "w_data (mem_world tr arr np) = mem_data tr arr" "w_nil (mem_world tr arr np) = np" "w_dial (mem_world tr arr np)"
  by (simp_all add: mem_world_def)

definition desired :: "string \<Rightarrow> pet_cr \<Rightarrow> pet" where
  "desired i cr = \<lparr>p_id = i, p_name = cr_name cr, p_type = pet_type_to_proto (cr_type cr),
     p_birthday = Some (time_to_pb_date (cr_birthday cr))\<rparr>"

definition matches :: "pet_cr \<Rightarrow> pet \<Rightarrow> bool" where
  "matches cr p \<longleftrightarrow> p_name p = cr_name cr \<and> p_type p = pet_type_to_proto (cr_type cr)"

definition spec_ok :: "pet_cr \<Rightarrow> bool" where
  "spec_ok cr \<longleftrightarrow> trim_space (cr_name cr) \<noteq> [] \<and> valid_date (time_to_pb_date (cr_birthday cr))"

text \<open>A store the operator can work with: well formed, no lock leaked, exact indexes.\<close>

definition store_ok :: "'t llrb \<Rightarrow> 't mem api \<Rightarrow> bool" where
  "store_ok tr a \<longleftrightarrow> mem_good tr (store a) \<and> mem_free (store a) \<and> mem_exact tr (store a)"

definition fresh_ids :: "(nat \<Rightarrow> string) \<Rightarrow> 't mem api \<Rightarrow> bool" where
  "fresh_ids new_id a \<longleftrightarrow> inj new_id \<and> (\<forall>n. stored_pets (store a) (new_id n) = None)"

lemma pet_type_pos: "pet_type_to_proto t \<noteq> 0"
  by (simp add: pet_type_to_proto_def)

lemma stored_id: "mem_good tr s \<Longrightarrow> stored_pets s i = Some p \<Longrightarrow> p_id p = i"
  by (simp add: mem_good_def mem_inv_def mem_shape_def pets_ok_def stored_pets_def)

lemma finalizer_simps [simp]:
  "cr_name (add_finalizer cr) = cr_name cr" "cr_type (add_finalizer cr) = cr_type cr"
  "cr_birthday (add_finalizer cr) = cr_birthday cr" "cr_id (add_finalizer cr) = cr_id cr"
  "cr_deleted (add_finalizer cr) = cr_deleted cr" "add_finalizer (add_finalizer cr) = add_finalizer cr"
  "pet_finalizer \<in> set (cr_finalizers (add_finalizer cr))"
  by (simp_all add: add_finalizer_def)

lemma desired_ok: "spec_ok cr \<Longrightarrow> pet_ok (i \<noteq> []) (desired i cr)"
  using validate_pet_Ok [of "i \<noteq> []" "desired i cr"]
  by (simp add: pet_ok_def desired_def spec_ok_def pet_type_pos)

lemma find_pet_exact:
  assumes st: "store_ok tr a" and arr: "\<And>xs. mset (arr xs) = mset xs"
  shows "\<exists>a'. find_pet_in_store (mem_world tr arr np) cr a =
      (a', Ok (case stored_pets (store a) (cr_id cr) of
                 Some p \<Rightarrow> if matches cr p then Some p else None | None \<Rightarrow> None))
    \<and> store a' = store a"
proof -
  let ?f = "\<lparr>sr_names = [cr_name cr], sr_types = [pet_type_to_proto (cr_type cr)], sr_range = None\<rparr>"
  let ?hit = "\<lambda>it. case it of Inl p \<Rightarrow> p_id p = cr_id cr | Inr e \<Rightarrow> False"
  have w: "wants ?f p \<longleftrightarrow> matches cr p" for p by (simp add: wants_def matches_def)
  have f: "distinct (sr_names ?f)" "distinct (sr_types ?f)" "good_range ?f" "validate_search ?f = Ok ()"
    using pet_type_pos [of "cr_type cr"] by (simp_all add: good_range_def validate_search_def)
  obtain a' items where s: "client_search_pets (mem_data tr arr) np (Some ?f) [] a = (a', Ok items)"
    "store a' = store a" "set items = {Inl p | i p. stored_pets (store a) i = Some p \<and> matches cr p}"
    using client_search_exact [of tr a ?f arr np, OF _ _ _ f arr] st unfolding store_ok_def w by blast
  have good: "mem_good tr (store a)" using st by (simp add: store_ok_def)
  have "(case find ?hit items of Some (Inl p) \<Rightarrow> Some p | _ \<Rightarrow> None) =
      (case stored_pets (store a) (cr_id cr) of Some p \<Rightarrow> if matches cr p then Some p else None | None \<Rightarrow> None)"
  proof (cases "find ?hit items")
    case None
    then have "\<not> (stored_pets (store a) (cr_id cr) = Some p \<and> matches cr p)" for p
      using s(3) stored_id [OF good] by (fastforce simp: find_None_iff)
    then show ?thesis using None by (auto split: option.splits)
  next
    case (Some it)
    then have "it \<in> set items" "?hit it" by (auto simp: find_Some_iff)
    then obtain i p where p: "it = Inl p" "stored_pets (store a) i = Some p" "matches cr p" "p_id p = cr_id cr"
      using s(3) by auto
    then show ?thesis using Some stored_id [OF good p(2)] by simp
  qed
  then show ?thesis using s(1,2) by (simp add: find_pet_in_store_def)
qed

lemma create_pet_ok:
  assumes st: "store_ok tr a" and ok: "spec_ok cr" and ids: "fresh_ids new_id a"
  shows "\<exists>a'. create_pet_in_store (mem_world tr arr np) new_id cr a = ((a', cr\<lparr>cr_id := new_id 0\<rparr>), Ok ())
    \<and> store_ok tr a' \<and> stored_pets (store a') = (stored_pets (store a))(new_id 0 \<mapsto> as_stored (new_id 0) (desired [] cr))"
proof -
  have p: "\<forall>p \<in> set [desired [] cr]. pet_ok False p" using desired_ok [OF ok, of "[]"] by simp
  let ?ps = "map (\<lambda>p. p\<lparr>p_name := trim_space (p_name p)\<rparr>) [desired [] cr]"
  have p': "\<forall>p \<in> set ?ps. pet_ok False p" using p pet_ok_trimmed by simp
  have i: "inj new_id" "\<forall>n. stored_pets (store a) (new_id n) = None" using ids by (simp_all add: fresh_ids_def)
  have g: "mem_good tr (store a)" "mem_free (store a)" "mem_exact tr (store a)" using st by (simp_all add: store_ok_def)
  obtain a' where a': "api_add (mem_data tr arr) new_id ?ps a = (a', Ok (map new_id [0..<length ?ps]))"
    "mem_good tr (store a')" "mem_free (store a')" "mem_exact tr (store a')"
    "\<forall>n < length ?ps. stored_pets (store a') (new_id n) = Some (as_stored (new_id n) (?ps ! n))"
    "\<forall>i. i \<notin> new_id ` {..<length ?ps} \<longrightarrow> stored_pets (store a') i = stored_pets (store a) i"
    using ms.api_add_ok [OF mem_add_op g(1,2) p' i] g(3) by blast
  have "stored_pets (store a') = (stored_pets (store a))(new_id 0 \<mapsto> as_stored (new_id 0) (desired [] cr))"
    using a'(5,6) by (auto simp: fun_eq_iff as_stored_def)
  moreover have "client_add_pets (mem_data tr arr) new_id [desired [] cr] [] a = (a', Ok [new_id 0])"
    using client_add_reaches [OF p, of "mem_data tr arr" new_id a] a'(1) by simp
  ultimately show ?thesis
    using a'(2-4) by (auto simp: create_pet_in_store_def store_ok_def desired_def)
qed

text \<open>A resource that does not match the pet stored under its id gets a new pet.\<close>

lemma reconcile_creates:
  assumes st: "store_ok tr a" and ok: "spec_ok cr" and ids: "fresh_ids new_id a" and del: "\<not> cr_deleted cr"
    and arr: "\<And>xs. mset (arr xs) = mset xs"
    and no: "\<And>p. stored_pets (store a) (cr_id cr) = Some p \<Longrightarrow> \<not> matches cr p"
  shows "\<exists>a'. reconcile (mem_world tr arr np) True True new_id (Ok (Some cr)) a
      = ((a', Some ((add_finalizer cr)\<lparr>cr_id := new_id 0\<rparr>)), Ok ())
    \<and> store_ok tr a' \<and> stored_pets (store a') = (stored_pets (store a))(new_id 0 \<mapsto> as_stored (new_id 0) (desired [] cr))"
proof -
  have m: "matches (add_finalizer cr) p = matches cr p" for p by (simp add: matches_def)
  obtain a1 where a1: "find_pet_in_store (mem_world tr arr np) (add_finalizer cr) a = (a1, Ok None)" "store a1 = store a"
    using find_pet_exact [OF st arr, of np "add_finalizer cr"] no by (auto simp: m split: option.splits)
  have st1: "store_ok tr a1" "fresh_ids new_id a1" using st ids a1(2) by (simp_all add: store_ok_def fresh_ids_def)
  have "spec_ok (add_finalizer cr)" "desired [] (add_finalizer cr) = desired [] cr"
    using ok by (simp_all add: spec_ok_def desired_def)
  with create_pet_ok [OF st1(1) _ st1(2), of "add_finalizer cr" arr np] obtain a' where a':
    "create_pet_in_store (mem_world tr arr np) new_id (add_finalizer cr) a1
       = ((a', (add_finalizer cr)\<lparr>cr_id := new_id 0\<rparr>), Ok ())"
    "store_ok tr a'" "stored_pets (store a') = (stored_pets (store a1))(new_id 0 \<mapsto> as_stored (new_id 0) (desired [] cr))"
    by auto
  then show ?thesis using a1 del by (simp add: reconcile_def reconcile_normal_def)
qed

lemma delete_pet_ok:
  assumes g: "mem_good tr (store a)" "mem_free (store a)" and i: "cr_id cr \<noteq> []" and del: "cr_deleted cr"
  shows "\<exists>a'. reconcile (mem_world tr arr np) True True new_id (Ok (Some cr)) a = ((a', Some (remove_finalizer cr)), Ok ())
    \<and> mem_good tr (store a') \<and> mem_free (store a') \<and> stored_pets (store a') = (stored_pets (store a))(cr_id cr := None)"
proof -
  obtain s' where s': "mem_delete tr [cr_id cr] (store a) = (s', Ok ())" "mem_good tr s'" "mem_free s'"
    "stored_pets s' = (stored_pets (store a)) |` (- set [cr_id cr])"
    using ms.remove_any [OF g] by blast
  define a' where "a' = fst (api_delete (mem_data tr arr) [cr_id cr] a)"
  have "api_delete (mem_data tr arr) [cr_id cr] a = (a', Ok ())" "store a' = s'"
    by (simp_all add: a'_def api_delete_def with_metrics_body s'(1) prod_eq_iff)
  moreover have "stored_pets s' = (stored_pets (store a))(cr_id cr := None)"
    by (auto simp: s'(4) restrict_map_def fun_eq_iff)
  ultimately show ?thesis
    using s'(2,3) i del
    by (simp add: reconcile_def reconcile_delete_def client_delete_pets_def reach_def handle_call_options_def)
qed

lemma as_stored_desired: "trim_space (cr_name cr) = cr_name cr \<Longrightarrow> as_stored i (desired j cr) = desired i cr"
  by (simp add: as_stored_def desired_def)

lemma update_same:
  assumes g: "mem_good tr (store a)" "mem_free (store a)" and ok: "spec_ok cr" and tr: "trim_space (cr_name cr) = cr_name cr"
    and i: "cr_id cr \<noteq> []" and p: "stored_pets (store a) (cr_id cr) = Some (desired (cr_id cr) cr)"
  shows "\<exists>a'. update_pet_in_store (mem_world tr arr np) cr (desired (cr_id cr) cr) a = (a', Ok ())
    \<and> mem_good tr (store a') \<and> mem_free (store a') \<and> stored_pets (store a') = stored_pets (store a)"
proof -
  let ?p = "desired (cr_id cr) cr"
  have pok: "\<forall>p \<in> set [?p]. pet_ok True p" using desired_ok [OF ok, of "cr_id cr"] i by simp
  have pid: "p_id ?p = cr_id cr" by (simp add: desired_def)
  obtain a' where a': "api_update (mem_data tr arr) [?p] a = (a', Ok ())" "mem_good tr (store a')" "mem_free (store a')"
    "stored_pets (store a') (cr_id cr) = Some (as_stored (cr_id cr) ?p)"
    "\<forall>i. i \<noteq> cr_id cr \<longrightarrow> stored_pets (store a') i = stored_pets (store a) i"
    using ms.api_update_ok [OF mem_update_op g pok] p by (auto simp: pid)
  have "stored_pets (store a') = stored_pets (store a)"
  proof
    fix i show "stored_pets (store a') i = stored_pets (store a) i"
      using a'(4,5) p by (cases "i = cr_id cr") (simp_all add: as_stored_desired [OF tr])
  qed
  moreover have "?p\<lparr>p_name := cr_name cr, p_type := pet_type_to_proto (cr_type cr),
      p_birthday := Some (time_to_pb_date (cr_birthday cr))\<rparr> = ?p" by (simp add: desired_def)
  moreover have "validate_all True [?p] = Ok [?p]"
    using validate_all_ok [OF pok] tr by (simp add: desired_def)
  ultimately show ?thesis
    using a'(1-3) by (simp add: update_pet_in_store_def client_update_pets_def reach_def handle_call_options_def)
qed


definition demo_cr :: "string \<Rightarrow> pet_cr" where
  "demo_cr n = \<lparr>cr_name = n, cr_type = ''dog'', cr_birthday = Midnight 2020 5 17, cr_id = [], cr_deleted = False, cr_finalizers = []\<rparr>"

definition demo_ids :: "char \<Rightarrow> nat \<Rightarrow> string" where
  "demo_ids c n = replicate (Suc n) c"

lemma demo_ids_0: "demo_ids c 0 = [c]"
  by (simp add: demo_ids_def)

abbreviation empty_api :: "nat list mem api" where
  "empty_api \<equiv> new_api (new_mem list_llrb)"

lemma empty_api_ok: "store_ok list_llrb empty_api" "stored_pets (store empty_api) i = None" "fresh_ids (demo_ids c) empty_api"
  using demo_store inj_replicate [of c]
  by (simp_all add: store_ok_def new_api_def stored_pets_def new_mem_def fresh_ids_def demo_ids_def [abs_def])

lemma demo_cr_ok: "spec_ok (demo_cr ''Rex'')" "\<not> cr_deleted (demo_cr n)" "cr_id (demo_cr n) = []"
  by (simp_all add: spec_ok_def demo_cr_def trim_Rex valid_date_def time_to_pb_date_def days_in_def)


text \<open>
  Renaming a resource orphans its pet. When the name or the type of a resource changes
  after its pet was created, the next reconciliation does not find the pet, since it searches
  for the new name and type, and creates a second one; the first stays in the store under
  an id nobody knows any more, also after the resource is deleted.
\<close>

theorem reconcile_rename_orphans:
  assumes st: "store_ok tr a" and ok: "spec_ok cr" and new: "\<not> cr_deleted cr"
    and old: "stored_pets (store a) (cr_id cr) = Some p" "\<not> matches cr p"
    and ids: "fresh_ids new_id a" "new_id 0 \<noteq> []" and arr: "\<And>xs. mset (arr xs) = mset xs"
  shows "\<exists>a1 a2 cr1 cr2. reconcile (mem_world tr arr np) True True new_id (Ok (Some cr)) a = ((a1, Some cr1), Ok ())
    \<and> cr_id cr1 = new_id 0 \<and> new_id 0 \<noteq> cr_id cr
    \<and> stored_pets (store a1) (cr_id cr) = Some p \<and> stored_pets (store a1) (new_id 0) \<noteq> None
    \<and> reconcile (mem_world tr arr np) True True more_ids (Ok (Some (cr1\<lparr>cr_deleted := True\<rparr>))) a1 = ((a2, Some cr2), Ok ())
    \<and> pet_finalizer \<notin> set (cr_finalizers cr2)
    \<and> stored_pets (store a2) (cr_id cr) = Some p \<and> stored_pets (store a2) (new_id 0) = None"
proof -
  have ne: "new_id 0 \<noteq> cr_id cr" using ids(1) old(1) by (metis fresh_ids_def option.distinct(1))
  define cr1 where "cr1 = (add_finalizer cr)\<lparr>cr_id := new_id 0\<rparr>"
  obtain a1 where a1: "reconcile (mem_world tr arr np) True True new_id (Ok (Some cr)) a = ((a1, Some cr1), Ok ())"
    "store_ok tr a1" "stored_pets (store a1) = (stored_pets (store a))(new_id 0 \<mapsto> as_stored (new_id 0) (desired [] cr))"
    using reconcile_creates [OF st ok ids(1) new arr, of np] old by (auto simp: cr1_def)
  have g: "mem_good tr (store a1)" "mem_free (store a1)" using a1(2) by (simp_all add: store_ok_def)
  have c: "cr_id (cr1\<lparr>cr_deleted := True\<rparr>) \<noteq> []" "cr_deleted (cr1\<lparr>cr_deleted := True\<rparr>)" "cr_id cr1 = new_id 0"
    using ids(2) by (simp_all add: cr1_def)
  obtain a2 where a2: "reconcile (mem_world tr arr np) True True more_ids (Ok (Some (cr1\<lparr>cr_deleted := True\<rparr>))) a1
      = ((a2, Some (remove_finalizer (cr1\<lparr>cr_deleted := True\<rparr>))), Ok ())"
    "stored_pets (store a2) = (stored_pets (store a1))(new_id 0 := None)"
    using delete_pet_ok [OF g c(1,2), of arr np more_ids] c(3) by auto
  have "pet_finalizer \<notin> set (cr_finalizers (remove_finalizer (cr1\<lparr>cr_deleted := True\<rparr>)))" by (simp add: remove_finalizer_def)
  with a1 a2 c(3) ne old(1) show ?thesis by (intro exI [of _ a1] exI [of _ a2] exI [of _ cr1] exI) auto
qed

theorem reconcile_rename_orphans_witness:
  "\<exists>a a1 cr1. stored_pets (store a) ''x'' \<noteq> None \<and> reconcile (mem_world list_llrb rev (new_pet [])) True True (demo_ids (CHR ''y''))
       (Ok (Some ((demo_cr ''Rex'')\<lparr>cr_type := ''cat'', cr_id := ''x''\<rparr>))) a = ((a1, Some cr1), Ok ())
     \<and> cr_id cr1 = ''y'' \<and> stored_pets (store a1) ''x'' \<noteq> None \<and> stored_pets (store a1) ''y'' \<noteq> None"
proof -
  let ?cr = "(demo_cr ''Rex'')\<lparr>cr_type := ''cat'', cr_id := ''x''\<rparr>"
  obtain a where a: "store_ok list_llrb a"
    "stored_pets (store a) = (stored_pets (store empty_api))(demo_ids (CHR ''x'') 0 \<mapsto> as_stored (demo_ids (CHR ''x'') 0) (desired [] (demo_cr ''Rex'')))"
    using create_pet_ok [OF empty_api_ok(1) demo_cr_ok(1) empty_api_ok(3) [of "CHR ''x''"], of rev "new_pet []"] by auto
  have p: "stored_pets (store a) (cr_id ?cr) = Some (as_stored ''x'' (desired [] (demo_cr ''Rex'')))" by (simp add: a(2) demo_ids_def)
  have n: "\<not> matches ?cr (as_stored ''x'' (desired [] (demo_cr ''Rex'')))"
    by (simp add: matches_def as_stored_def desired_def demo_cr_def pet_type_to_proto_def)
  have f: "fresh_ids (demo_ids (CHR ''y'')) a"
    using empty_api_ok(3) [of "CHR ''y''"] by (simp add: fresh_ids_def a(2)) (simp add: demo_ids_def)
  have c: "spec_ok ?cr" "\<not> cr_deleted ?cr" "demo_ids (CHR ''y'') 0 \<noteq> []"
    using demo_cr_ok(1) by (simp_all add: spec_ok_def demo_cr_def demo_ids_def)
  from reconcile_rename_orphans [OF a(1) c(1,2) p n f c(3), of rev "new_pet []" "demo_ids (CHR ''z'')"] p
  show ?thesis by (auto simp: demo_ids_0)
qed

text \<open>
  A resource whose name has white space around it gets another pet with every
  reconciliation: the store keeps the trimmed name, and the search for the name as written
  finds nothing. If all stored names are trimmed, two reconciliations in a row succeed and
  leave two different pets, and the store is again one in which the next adds a third.
\<close>

theorem padded_name_duplicates:
  assumes st: "store_ok tr a" and ok: "spec_ok cr" and new: "\<not> cr_deleted cr" and pad: "trim_space (cr_name cr) \<noteq> cr_name cr"
    and trimmed: "\<forall>i p. stored_pets (store a) i = Some p \<longrightarrow> trim_space (p_name p) = p_name p"
    and ids: "inj new_id" "\<forall>n. stored_pets (store a) (new_id n) = None" and arr: "\<And>xs. mset (arr xs) = mset xs"
  shows "\<exists>a1 a2 cr1 cr2. reconcile (mem_world tr arr np) True True new_id (Ok (Some cr)) a = ((a1, Some cr1), Ok ())
    \<and> reconcile (mem_world tr arr np) True True (\<lambda>n. new_id (Suc n)) (Ok (Some cr1)) a1 = ((a2, Some cr2), Ok ())
    \<and> stored_pets (store a2) = (stored_pets (store a))
        (new_id 0 \<mapsto> as_stored (new_id 0) (desired [] cr), new_id 1 \<mapsto> as_stored (new_id 1) (desired [] cr))
    \<and> cr_id cr1 = new_id 0 \<and> cr_id cr2 = new_id 1 \<and> new_id 0 \<noteq> new_id 1
    \<and> store_ok tr a2 \<and> (\<forall>i p. stored_pets (store a2) i = Some p \<longrightarrow> trim_space (p_name p) = p_name p)"
proof -
  define cr1 where "cr1 = (add_finalizer cr)\<lparr>cr_id := new_id 0\<rparr>"
  have c1: "spec_ok cr1" "\<not> cr_deleted cr1" "cr_name cr1 = cr_name cr" "desired [] cr1 = desired [] cr"
    using ok new by (simp_all add: cr1_def spec_ok_def desired_def)
  have f: "fresh_ids new_id a" using ids by (simp add: fresh_ids_def)
  have no: "\<not> matches c p" if "cr_name c = cr_name cr" "trim_space (p_name p) = p_name p" for c p
    using pad that by (auto simp: matches_def)
  obtain a1 where a1: "reconcile (mem_world tr arr np) True True new_id (Ok (Some cr)) a = ((a1, Some cr1), Ok ())"
    "store_ok tr a1" "stored_pets (store a1) = (stored_pets (store a))(new_id 0 \<mapsto> as_stored (new_id 0) (desired [] cr))"
    using reconcile_creates [OF st ok f new arr, of np] no trimmed unfolding cr1_def by blast
  have t1: "trim_space (p_name p) = p_name p" if "stored_pets (store a1) i = Some p" for i p
    using that trimmed by (auto simp: a1(3) as_stored_def split: if_splits)
  have ne: "new_id 0 \<noteq> new_id (Suc n)" for n using ids(1) by (simp add: inj_eq)
  have f1: "fresh_ids (\<lambda>n. new_id (Suc n)) a1"
    using ids ne by (auto simp: fresh_ids_def a1(3) inj_def)
  define cr2 where "cr2 = (add_finalizer cr1)\<lparr>cr_id := new_id (Suc 0)\<rparr>"
  obtain a2 where a2: "reconcile (mem_world tr arr np) True True (\<lambda>n. new_id (Suc n)) (Ok (Some cr1)) a1 = ((a2, Some cr2), Ok ())"
    "store_ok tr a2" "stored_pets (store a2) = (stored_pets (store a1))(new_id (Suc 0) \<mapsto> as_stored (new_id (Suc 0)) (desired [] cr1))"
    using reconcile_creates [OF a1(2) c1(1) f1 c1(2) arr, of np] no [OF c1(3)] t1 unfolding cr2_def by blast
  have "trim_space (p_name p) = p_name p" if "stored_pets (store a2) i = Some p" for i p
    using that t1 by (auto simp: a2(3) as_stored_def split: if_splits)
  moreover have "cr_id cr1 = new_id 0" "cr_id cr2 = new_id 1" by (simp_all add: cr1_def cr2_def)
  ultimately show ?thesis
    using a1(1,3) a2 c1(4) ne [of 0]
    by (intro exI [of _ a1] exI [of _ a2] exI [of _ cr1] exI [of _ cr2]) auto
qed

lemma trim_padded: "trim_space '' Rex'' = ''Rex''"
  by code_simp

theorem padded_name_duplicates_witness:
  "\<exists>a1 cr1 a2 cr2. reconcile (mem_world list_llrb rev (new_pet [])) True True (demo_ids (CHR ''x'')) (Ok (Some (demo_cr '' Rex''))) empty_api
      = ((a1, Some cr1), Ok ())
     \<and> reconcile (mem_world list_llrb rev (new_pet [])) True True (\<lambda>n. demo_ids (CHR ''x'') (Suc n)) (Ok (Some cr1)) a1 = ((a2, Some cr2), Ok ())
     \<and> cr_id cr1 \<noteq> cr_id cr2"
proof -
  have s: "spec_ok (demo_cr '' Rex'')" "trim_space (cr_name (demo_cr '' Rex'')) \<noteq> cr_name (demo_cr '' Rex'')"
    by (simp_all add: spec_ok_def demo_cr_def trim_padded valid_date_def time_to_pb_date_def days_in_def)
  have t: "\<forall>i p. stored_pets (store empty_api) i = Some p \<longrightarrow> trim_space (p_name p) = p_name p"
    by (simp add: empty_api_ok(2))
  have i: "inj (demo_ids (CHR ''x''))" "\<forall>n. stored_pets (store empty_api) (demo_ids (CHR ''x'') n) = None"
    using empty_api_ok(3) [of "CHR ''x''"] by (simp_all add: fresh_ids_def)
  from padded_name_duplicates [OF empty_api_ok(1) s(1) demo_cr_ok(2) s(2) t i, of rev "new_pet []"]
  show ?thesis by (metis mset_rev)
qed

end
