(* ===== verification/Pet_Log.thy ===== *)
theory Pet_Log
  imports Go_Strconv "HOL-Library.Signed_Division"
begin

unbundle bit_operations_syntax

text \<open>
  Logging of the pet store to trace spans (\<open>petstore/server/log/log.go\<close>): the decimal
  writer, the header of a line, and events, which are objects that are reused through a
  buffered channel and a \<open>sync.Pool\<close>.
\<close>

section \<open>Numbers\<close>

text \<open>A byte computed as \<open>'0' + d\<close>.\<close>

definition zero_plus :: "int \<Rightarrow> char" where
  "zero_plus d = char_of (nat ((48 + d) mod 256))"

text \<open>
  The loop of \<open>itoa\<close> with the buffer of 20 bytes: \<open>room\<close> is \<open>bp + 1\<close>, \<open>acc\<close> what
  is written from \<open>b[bp+1]\<close> on. Division truncates towards zero.
\<close>

fun log_itoa_loop :: "int \<Rightarrow> int \<Rightarrow> nat \<Rightarrow> string \<Rightarrow> (unit, string) outcome" where
  "log_itoa_loop i wid 0 acc = Panics IndexOutOfRange"
| "log_itoa_loop i wid (Suc r) acc =
     (if i \<ge> 10 \<or> wid > 1
      then log_itoa_loop (i sdiv 10) (wid - 1) r (zero_plus (i - (i sdiv 10) * 10) # acc)
      else Ok (zero_plus i # acc))"

definition log_itoa :: "string \<Rightarrow> int \<Rightarrow> int \<Rightarrow> (unit, string) outcome" where
  "log_itoa b i wid = then_ok (log_itoa_loop i wid 20 []) (\<lambda>t. Ok (b @ t))"

text \<open>The number in decimal, filled up with zeros.\<close>

definition padded :: "int \<Rightarrow> int \<Rightarrow> string" where
  "padded wid i = replicate (nat wid - length (dec_nat (nat i))) (CHR ''0'') @ dec_nat (nat i)"

lemma zero_plus_digit: "0 \<le> d \<Longrightarrow> d < 10 \<Longrightarrow> zero_plus d = digit_char (nat d)"
  by (simp add: zero_plus_def digit_char_def nat_add_distrib)

lemma sdiv_10: "0 \<le> (i::int) \<Longrightarrow> i sdiv 10 = i div 10"
  by (simp add: signed_divide_int_def sgn_if)

lemma dec_nat_step: "10 \<le> i \<Longrightarrow> dec_nat (nat i) = dec_nat (nat (i div 10)) @ [digit_char (nat (i mod 10))]"
  by (subst dec_nat.simps) (simp add: nat_div_distrib nat_mod_distrib)

lemma dec_nat_small: "0 \<le> i \<Longrightarrow> i < 10 \<Longrightarrow> dec_nat (nat i) = [digit_char (nat i)]"
  by (subst dec_nat.simps) (simp add: nat_less_iff)

lemma zero_digit: "CHR ''0'' = digit_char 0"
  by (simp add: digit_char_def char_of_def) code_simp

lemma padded_step:
  assumes "0 \<le> i" and "10 \<le> i \<or> 1 < wid"
  shows "padded wid i = padded (wid - 1) (i div 10) @ [digit_char (nat (i mod 10))]"
proof (cases "10 \<le> i")
  case True
  have "nat wid - Suc n = nat (wid - 1) - n" for n by simp
  then show ?thesis by (simp add: padded_def dec_nat_step [OF True])
next
  case False
  then have i: "0 \<le> i" "i < 10" "i div 10 = 0" "i mod 10 = i" using assms by simp_all
  obtain m where m: "nat (wid - 1) = Suc m" using assms False by (cases "nat (wid - 1)") auto
  then have m2: "nat wid = Suc (Suc m)" by linarith
  have z: "dec_nat (nat (i div 10)) = [digit_char 0]" using dec_nat_small [of 0] by (simp add: i(3))
  have "replicate (Suc m) (digit_char 0) = replicate m (digit_char 0) @ [digit_char 0]"
    by (simp add: replicate_append_same)
  then show ?thesis by (simp add: padded_def dec_nat_small [OF i(1,2)] i(4) zero_digit z m m2)
qed

lemma log_itoa_loop_ok:
  "0 \<le> i \<Longrightarrow> length (padded wid i) \<le> r \<Longrightarrow> log_itoa_loop i wid r acc = Ok (padded wid i @ acc)"
proof (induction i wid r acc rule: log_itoa_loop.induct)
  case (1 i wid acc)
  then show ?case by (simp add: padded_def)
next
  case (2 i wid r acc)
  show ?case
  proof (cases "i \<ge> 10 \<or> wid > 1")
    case True
    have d: "i - (i div 10) * 10 = i mod 10" by (simp add: minus_div_mult_eq_mod)
    have "log_itoa_loop (i sdiv 10) (wid - 1) r (zero_plus (i - (i sdiv 10) * 10) # acc)
        = Ok (padded (wid - 1) (i div 10) @ zero_plus (i mod 10) # acc)"
      using "2.IH" [OF True] "2.prems" padded_step [OF "2.prems"(1) True] by (simp add: sdiv_10 d)
    then show ?thesis
      using True padded_step [OF "2.prems"(1) True] by (simp add: zero_plus_digit)
  next
    case False
    then have "padded wid i = [digit_char (nat i)]"
      using "2.prems" by (auto simp: padded_def dec_nat_small)
    then show ?thesis using False "2.prems"(1) by (simp add: zero_plus_digit)
  qed
qed

lemma length_dec_nat_le: "0 < k \<Longrightarrow> n < 10 ^ k \<Longrightarrow> length (dec_nat n) \<le> k"
proof (induction n arbitrary: k rule: dec_nat.induct)
  case (1 n)
  show ?case
  proof (cases "n < 10")
    case True
    then show ?thesis using "1.prems" by (simp add: dec_nat.simps [of n])
  next
    case False
    then obtain j where k: "k = Suc j" "0 < j"
      using "1.prems" by (cases k; cases "k = 1") auto
    then have "n div 10 < 10 ^ j" using "1.prems"(2) by (simp add: less_mult_imp_div_less mult.commute)
    then show ?thesis using "1.IH" [OF False k(2)] False k(1) by (simp add: dec_nat.simps [of n])
  qed
qed

lemma log_itoa_ok:
  assumes "0 \<le> i" "i < 10 ^ 20" "wid \<le> 20"
  shows "log_itoa b i wid = Ok (b @ padded wid i)"
proof -
  have "nat i < 10 ^ 20" using assms(1,2) by (simp add: nat_less_iff)
  then have "length (dec_nat (nat i)) \<le> 20" by (intro length_dec_nat_le) simp_all
  then have "length (padded wid i) \<le> 20" using assms(3) by (simp add: padded_def)
  then show ?thesis using log_itoa_loop_ok [OF assms(1), of wid 20 "[]"] by (simp add: log_itoa_def)
qed

lemma digits_val_zeros: "digits_val 0 (replicate n (CHR ''0'') @ s) = digits_val 0 s"
  by (induction n) (simp_all add: digit_val_def)

text \<open>
  The decimal writer of the log. For a number from 0 up and a width of at most 20 it
  appends the decimal digits, filled up with zeros to the width, and reading these digits
  gives the number back; a width above 20 overruns its buffer and panics.
\<close>

theorem log_itoa_digits:
  assumes "0 \<le> i" and "i < 10 ^ 20"
  shows "if wid \<le> 20
    then log_itoa b i wid = Ok (b @ padded wid i) \<and> digits_val 0 (padded wid i) = Some (nat i)
      \<and> length (padded wid i) = max (nat wid) (length (dec_nat (nat i)))
    else log_itoa b i wid = Panics IndexOutOfRange"
proof (cases "wid \<le> 20")
  case True
  moreover have "log_itoa b i wid = Ok (b @ padded wid i)" using log_itoa_ok [OF assms True] .
  moreover have "digits_val 0 (padded wid i) = Some (nat i)"
    by (simp add: padded_def digits_val_zeros digits_val_dec_nat)
  moreover have "length (padded wid i) = max (nat wid) (length (dec_nat (nat i)))"
    by (simp add: padded_def max_def)
  ultimately show ?thesis by simp
next
  case False
  have "int r < wid \<Longrightarrow> log_itoa_loop j wid r acc = Panics IndexOutOfRange" for j r acc wid
    by (induction r arbitrary: j wid acc) simp_all
  then show ?thesis using False by (simp add: log_itoa_def)
qed

theorem log_itoa_digits_witness:
  "log_itoa ''x'' 7 2 = Ok ''x07'' \<and> log_itoa ''x'' 7 21 = Panics IndexOutOfRange"
proof -
  have "padded 2 7 = ''07''" by code_simp
  with log_itoa_digits [of 7 2 "''x''"] log_itoa_digits [of 7 21 "''x''"] show ?thesis by simp
qed

section \<open>The header of a line\<close>

record clock =
  c_year :: int
  c_month :: int
  c_day :: int
  c_hour :: int
  c_min :: int
  c_sec :: int
  c_nanos :: int

definition Ldate :: int where "Ldate = 1"
definition Ltime :: int where "Ltime = 2"
definition Lmicroseconds :: int where "Lmicroseconds = 4"
definition Llongfile :: int where "Llongfile = 8"
definition Lshortfile :: int where "Lshortfile = 16"
definition LUTC :: int where "LUTC = 32"
definition LstdFlags :: int where "LstdFlags = Ldate OR Ltime"

lemmas log_flags = Ldate_def Ltime_def Lmicroseconds_def Llongfile_def Lshortfile_def LUTC_def LstdFlags_def

definition has_flag :: "int \<Rightarrow> int \<Rightarrow> bool" where
  "has_flag f m \<longleftrightarrow> f AND m \<noteq> 0"

definition short_name :: "string \<Rightarrow> string" where
  "short_name file =
     (case last_index_byte (CHR ''/'') file of
        None \<Rightarrow> file
      | Some i \<Rightarrow> if i > 0 then drop (Suc i) file else file)"

definition date_part :: "clock \<Rightarrow> string \<Rightarrow> (unit, string) outcome" where
  "date_part t b =
     then_ok (log_itoa b (c_year t) 4) (\<lambda>b. then_ok (log_itoa (b @ ''/'') (c_month t) 2)
       (\<lambda>b. then_ok (log_itoa (b @ ''/'') (c_day t) 2) (\<lambda>b. Ok (b @ '' ''))))"

definition time_part :: "int \<Rightarrow> clock \<Rightarrow> string \<Rightarrow> (unit, string) outcome" where
  "time_part f t b =
     then_ok (log_itoa b (c_hour t) 2) (\<lambda>b. then_ok (log_itoa (b @ '':'') (c_min t) 2)
       (\<lambda>b. then_ok (log_itoa (b @ '':'') (c_sec t) 2)
         (\<lambda>b. then_ok (if has_flag f Lmicroseconds then log_itoa (b @ ''.'') (c_nanos t sdiv 1000) 6 else Ok b)
           (\<lambda>b. Ok (b @ '' '')))))"

definition file_part :: "int \<Rightarrow> string \<Rightarrow> int \<Rightarrow> string \<Rightarrow> (unit, string) outcome" where
  "file_part f file line b =
     then_ok (log_itoa (b @ (if has_flag f Lshortfile then short_name file else file) @ '':'') line (- 1))
       (\<lambda>b. Ok (b @ '': ''))"

text \<open>\<open>utc\<close> is the conversion of a time to UTC, which depends on the time zone.\<close>

definition format_header :: "(clock \<Rightarrow> clock) \<Rightarrow> int \<Rightarrow> clock \<Rightarrow> string \<Rightarrow> int \<Rightarrow> string \<Rightarrow> (unit, string) outcome" where
  "format_header utc f t file line b =
     then_ok
       (if has_flag f (Ldate OR Ltime OR Lmicroseconds)
        then (let t = (if has_flag f LUTC then utc t else t)
              in then_ok (if has_flag f Ldate then date_part t b else Ok b)
                   (\<lambda>b. if has_flag f (Ltime OR Lmicroseconds) then time_part f t b else Ok b))
        else Ok b)
       (\<lambda>b. if has_flag f (Lshortfile OR Llongfile) then file_part f file line b else Ok b)"

text \<open>
  \<open>output\<close>: the caller is \<open>None\<close> when the runtime does not know it; what is returned is
  the text of the event on the span.
\<close>

definition log_output :: "(clock \<Rightarrow> clock) \<Rightarrow> int \<Rightarrow> clock \<Rightarrow> (string \<times> int) option \<Rightarrow> string \<Rightarrow> (unit, string) outcome" where
  "log_output utc f now caller s =
     (let (file, line) = (if has_flag f (Lshortfile OR Llongfile)
                          then (case caller of Some c \<Rightarrow> c | None \<Rightarrow> (''???'', 0)) else ([], 0))
      in then_ok (format_header utc f now file line [])
           (\<lambda>b. Ok (b @ s @ (if s = [] \<or> last s \<noteq> CHR 0x0A then [CHR 0x0A] else []))))"

definition clock_ok :: "clock \<Rightarrow> bool" where
  "clock_ok t \<longleftrightarrow> 0 \<le> c_year t \<and> c_year t \<le> 9999 \<and> 1 \<le> c_month t \<and> c_month t \<le> 12
     \<and> 1 \<le> c_day t \<and> c_day t \<le> 31 \<and> 0 \<le> c_hour t \<and> c_hour t < 24 \<and> 0 \<le> c_min t \<and> c_min t < 60
     \<and> 0 \<le> c_sec t \<and> c_sec t < 60 \<and> 0 \<le> c_nanos t \<and> c_nanos t < 1000000000"

definition date_text :: "clock \<Rightarrow> string" where
  "date_text t = padded 4 (c_year t) @ ''/'' @ padded 2 (c_month t) @ ''/'' @ padded 2 (c_day t) @ '' ''"

definition time_text :: "clock \<Rightarrow> bool \<Rightarrow> string" where
  "time_text t micro = padded 2 (c_hour t) @ '':'' @ padded 2 (c_min t) @ '':'' @ padded 2 (c_sec t)
     @ (if micro then ''.'' @ padded 6 (c_nanos t div 1000) else []) @ '' ''"

lemma has_flag_or: "has_flag f (m OR n) \<longleftrightarrow> has_flag f m \<or> has_flag f n"
  by (auto simp: has_flag_def bit_eq_iff bit_and_iff bit_or_iff)

lemma date_part_ok: "clock_ok t \<Longrightarrow> date_part t b = Ok (b @ date_text t)"
  by (simp add: clock_ok_def date_part_def date_text_def log_itoa_ok)

lemma sdiv_1000: "0 \<le> (i::int) \<Longrightarrow> i sdiv 1000 = i div 1000"
  by (simp add: signed_divide_int_def sgn_if)

lemma micros_bounds: "clock_ok t \<Longrightarrow> 0 \<le> c_nanos t div 1000 \<and> c_nanos t div 1000 < 1000000"
  using zdiv_mono1 [of "c_nanos t" 999999999 1000] by (simp add: clock_ok_def pos_imp_zdiv_nonneg_iff)

lemma time_part_ok: "clock_ok t \<Longrightarrow> time_part f t b = Ok (b @ time_text t (has_flag f Lmicroseconds))"
  using micros_bounds [of t]
  by (simp add: clock_ok_def time_part_def time_text_def log_itoa_ok sdiv_1000)

lemma file_part_ok:
  "0 \<le> line \<Longrightarrow> line < 10 ^ 20 \<Longrightarrow>
   file_part f file line b = Ok (b @ (if has_flag f Lshortfile then short_name file else file) @ '':'' @ dec_nat (nat line) @ '': '')"
  by (simp add: file_part_def log_itoa_ok padded_def)

lemma length_padded: "0 \<le> i \<Longrightarrow> i < 10 ^ nat wid \<Longrightarrow> 0 < wid \<Longrightarrow> length (padded wid i) = nat wid"
proof -
  assume a: "0 \<le> i" "i < 10 ^ nat wid" "0 < wid"
  have "int (nat i) < int (10 ^ nat wid)" using a(1,2) by simp
  then have "nat i < 10 ^ nat wid" by (simp only: of_nat_less_iff)
  then have "length (dec_nat (nat i)) \<le> nat wid" using length_dec_nat_le [of "nat wid"] a(3) by simp
  then show ?thesis by (simp add: padded_def)
qed

lemma length_texts:
  assumes "clock_ok t"
  shows "length (date_text t) = 11" "length (time_text t micro) = (if micro then 16 else 9)"
  using assms micros_bounds [OF assms]
  by (simp_all add: clock_ok_def date_text_def time_text_def length_padded [of _ 4] length_padded [of _ 2] length_padded [of _ 6])

lemma last_index_byte_after: "last_index_byte c xs = Some i \<Longrightarrow> c \<notin> set (drop (Suc i) xs)"
  by (induction xs arbitrary: i) (auto split: option.splits if_splits)

lemma short_name_base: "short_name file = file \<or> CHR ''/'' \<notin> set (short_name file)"
  by (auto simp: short_name_def last_index_byte_after split: option.splits)


definition demo_clock :: clock where
  "demo_clock = \<lparr>c_year = 2023, c_month = 5, c_day = 7, c_hour = 9, c_min = 30, c_sec = 0, c_nanos = 0\<rparr>"


end
