(* ===== verification/Pet_Events.thy ===== *)
theory Pet_Events
  imports Go_Prelude
begin

text \<open>
  Events of the log package of the pet store (\<open>petstore/server/log/log.go\<close>): objects that
  are collected in a buffered channel and, all of them, in a \<open>sync.Pool\<close>. Addresses make
  it visible when two users hold the same event.
\<close>

section \<open>Events and their pool\<close>

text \<open>What \<open>Add\<close> is given; a floating point number by its bits.\<close>

datatype attr_val =
    BoolV bool | BoolsV "bool list" | Float64V int | Float64sV "int list" | IntV int | IntsV "int list"
  | StringV string | StringsV "string list" | DurationV int | OtherV

text \<open>The attributes are \<open>None\<close> for a nil slice.\<close>

record event =
  ev_name :: string
  ev_attrs :: "(string \<times> attr_val) list option"

record event_pool =
  events :: "nat \<Rightarrow> event"
  next_event :: nat
  free_buf :: "nat list"
  sync_pool :: "nat list"

definition new_pool :: event_pool where
  "new_pool = \<lparr>events = (\<lambda>_. \<lparr>ev_name = [], ev_attrs = None\<rparr>), next_event = 0, free_buf = [], sync_pool = []\<rparr>"

text \<open>
  \<open>Get\<close> of a \<open>sync.Pool\<close> takes any of its items out, or makes a new one: \<open>pick\<close> is the
  position of the item it takes.
\<close>

definition pool_get :: "nat option \<Rightarrow> event_pool \<Rightarrow> event_pool \<times> nat" where
  "pool_get pick s =
     (case free_buf s of
        a # r \<Rightarrow> (s\<lparr>free_buf := r\<rparr>, a)
      | [] \<Rightarrow>
          (case pick of
             Some i \<Rightarrow>
               if i < length (sync_pool s)
               then (s\<lparr>sync_pool := take i (sync_pool s) @ drop (Suc i) (sync_pool s)\<rparr>, sync_pool s ! i)
               else (s\<lparr>events := (events s)(next_event s := \<lparr>ev_name = [], ev_attrs = None\<rparr>),
                       next_event := Suc (next_event s)\<rparr>, next_event s)
           | None \<Rightarrow>
               (s\<lparr>events := (events s)(next_event s := \<lparr>ev_name = [], ev_attrs = None\<rparr>),
                  next_event := Suc (next_event s)\<rparr>, next_event s)))"

definition reset_event :: "event \<Rightarrow> event" where
  "reset_event e = e\<lparr>ev_name := [], ev_attrs := map_option (\<lambda>_. []) (ev_attrs e)\<rparr>"

definition pool_put :: "nat \<Rightarrow> event_pool \<Rightarrow> event_pool" where
  "pool_put a s =
     s\<lparr>events := (events s)(a := reset_event (events s a)),
       free_buf := (if length (free_buf s) < 100 then free_buf s @ [a] else free_buf s),
       sync_pool := sync_pool s @ [a]\<rparr>"

definition new_event :: "nat option \<Rightarrow> string \<Rightarrow> event_pool \<Rightarrow> event_pool \<times> nat" where
  "new_event pick n s =
     (let (s1, a) = pool_get pick s in (s1\<lparr>events := (events s1)(a := (events s1 a)\<lparr>ev_name := n\<rparr>)\<rparr>, a))"

definition ev_add :: "nat \<Rightarrow> string \<Rightarrow> attr_val \<Rightarrow> event_pool \<Rightarrow> event_pool" where
  "ev_add a k v s =
     (let e = events s a
      in if ev_name e = [] \<or> v = OtherV then s
         else s\<lparr>events := (events s)(a := e\<lparr>ev_attrs :=
                Some ((case ev_attrs e of None \<Rightarrow> [] | Some xs \<Rightarrow> xs) @ [(k, v)])\<rparr>)\<rparr>)"

text \<open>\<open>Done\<close>, with what it puts on the span.\<close>

definition ev_done :: "nat \<Rightarrow> event_pool \<Rightarrow> event_pool \<times> (string \<times> (string \<times> attr_val) list) option" where
  "ev_done a s =
     (pool_put a s,
      if ev_name (events s a) = [] then None
      else map_option (\<lambda>xs. (ev_name (events s a), xs)) (ev_attrs (events s a)))"

section \<open>Events that are not shared\<close>

text \<open>
  As long as the \<open>sync.Pool\<close> makes new events (it may drop its items at any time), the
  events in use and the free ones are all different.
\<close>

definition unshared :: "nat list \<Rightarrow> event_pool \<Rightarrow> bool" where
  "unshared held s \<longleftrightarrow> distinct (held @ free_buf s) \<and> (\<forall>a \<in> set (held @ free_buf s). a < next_event s)
     \<and> length (free_buf s) \<le> 100 \<and> (\<forall>a \<in> set (free_buf s). ev_name (events s a) = [])"

lemma unshared_new: "unshared [] new_pool"
  by (simp add: unshared_def new_pool_def)

lemma unshared_new_event:
  assumes "unshared held s"
  shows "unshared (snd (new_event None n s) # held) (fst (new_event None n s))"
  using assms
  by (cases "free_buf s") (auto simp: unshared_def new_event_def pool_get_def less_Suc_eq)

lemma unshared_add: "unshared held s \<Longrightarrow> unshared held (ev_add a k v s)"
  by (auto simp: unshared_def ev_add_def Let_def)

lemma unshared_done:
  assumes "unshared held s" "a \<in> set held"
  shows "unshared (remove1 a held) (fst (ev_done a s))"
  using assms
  by (auto simp: unshared_def ev_done_def pool_put_def reset_event_def dest: notin_set_remove1)

text \<open>
  What another user does to another event leaves an event in use alone.
\<close>

lemma events_apart:
  assumes "unshared held s" "a \<in> set held"
  shows "events (fst (new_event None n s)) a = events s a"
    and "b \<noteq> a \<Longrightarrow> events (ev_add b k v s) a = events s a"
    and "b \<noteq> a \<Longrightarrow> events (fst (ev_done b s)) a = events s a"
  using assms
  by (cases "free_buf s"; auto simp: unshared_def new_event_def pool_get_def; fail)
     (simp_all add: ev_add_def Let_def ev_done_def pool_put_def)

datatype ev_op = NewEv string | AddEv nat string attr_val | DoneEv nat

fun ev_step :: "ev_op \<Rightarrow> nat list \<times> event_pool \<Rightarrow> nat list \<times> event_pool" where
  "ev_step (NewEv n) (held, s) = (snd (new_event None n s) # held, fst (new_event None n s))"
| "ev_step (AddEv a k v) (held, s) = (if a \<in> set held then (held, ev_add a k v s) else (held, s))"
| "ev_step (DoneEv a) (held, s) =
     (if a \<in> set held then (remove1 a held, fst (ev_done a s)) else (held, s))"

interpretation evs: invariant_object "\<lambda>x hs. (ev_step x hs, ())" "\<lambda>hs. unshared (fst hs) (snd hs)"
proof
  fix hs :: "nat list \<times> event_pool" and x
  assume "unshared (fst hs) (snd hs)"
  then show "unshared (fst (fst (ev_step x hs, ()))) (snd (fst (ev_step x hs, ())))"
    using unshared_new_event unshared_add unshared_done by (cases hs; cases x) auto
qed

text \<open>
  C0: As long as the \<open>sync.Pool\<close> hands out new events only, then after any sequence of
  \<open>NewEvent\<close>, \<open>Add\<close> and \<open>Done\<close> on events in use, no event is held twice or is both held
  and free, the channel stays within its 100 places, and what is done to one event
  changes no other event in use.
\<close>

theorem events_stay_unshared:
  assumes "(held, s) = fst (run_ops (\<lambda>x hs. (ev_step x hs, ())) ops ([], new_pool))"
  shows "distinct (held @ free_buf s) \<and> length (free_buf s) \<le> 100
    \<and> (\<forall>a \<in> set held. events (fst (new_event None n s)) a = events s a
         \<and> (b \<noteq> a \<longrightarrow> events (ev_add b k v s) a = events s a \<and> events (fst (ev_done b s)) a = events s a))"
proof -
  have "unshared held s"
    using evs.inv_run [of "([], new_pool)" ops] assms [symmetric] unshared_new by simp
  then show ?thesis using events_apart [of held s] by (auto simp: unshared_def)
qed

theorem events_stay_unshared_witness:
  "\<exists>held s. (held, s) = fst (run_ops (\<lambda>x hs. (ev_step x hs, ())) [NewEv ''a'', NewEv ''b'', DoneEv 0] ([], new_pool))
     \<and> held = [1] \<and> distinct (held @ free_buf s)"
proof -
  obtain held s where hs: "(held, s) = fst (run_ops (\<lambda>x hs. (ev_step x hs, ())) [NewEv ''a'', NewEv ''b'', DoneEv 0] ([], new_pool))"
    by (metis surj_pair)
  have "held = [1]"
    using hs by (simp add: new_pool_def new_event_def pool_get_def ev_done_def Let_def)
  with hs events_stay_unshared [OF hs] show ?thesis by blast
qed

section \<open>Events that are\<close>

text \<open>
  C0: \<open>put\<close> hands an event to the channel and to the \<open>sync.Pool\<close>. So after one \<open>Done\<close>
  the next two calls of \<open>NewEvent\<close> may get the same event: the second renames the first,
  the first \<open>Done\<close> then writes the attributes of both under the second name, and the
  event of the second is lost.
\<close>

theorem event_handed_out_twice:
  assumes "free_buf s = []" and "n2 \<noteq> []" and "v1 \<noteq> OtherV" and "v2 \<noteq> OtherV"
    and "s1 = fst (ev_done a s)" and "(s2, x) = new_event None n1 s1"
    and "(s3, y) = new_event (Some (length (sync_pool s))) n2 s2"
    and "s4 = ev_add y k2 v2 (ev_add x k1 v1 s3)"
  shows "x = a \<and> y = a \<and> snd (ev_done x s4) = Some (n2, [(k1, v1), (k2, v2)])
    \<and> snd (ev_done y (fst (ev_done x s4))) = None"
  using assms
  by (cases "ev_attrs (events s a)")
     (simp_all add: ev_done_def pool_put_def new_event_def pool_get_def ev_add_def reset_event_def Let_def)

theorem event_handed_out_twice_witness:
  "let s1 = fst (ev_done 0 (fst (new_event None ''first'' new_pool)));
       (s2, x) = new_event None ''search'' s1; (s3, y) = new_event (Some 0) ''add'' s2
   in x = y"
proof -
  let ?s = "fst (new_event None ''first'' new_pool)"
  let ?s1 = "fst (ev_done 0 ?s)"
  obtain s2 x where x: "(s2, x) = new_event None ''search'' ?s1" by (metis surj_pair)
  obtain s3 y where y: "(s3, y) = new_event (Some (length (sync_pool ?s))) ''add'' s2" by (metis surj_pair)
  have h: "free_buf ?s = []" and l: "sync_pool ?s = []" by (simp_all add: new_event_def pool_get_def new_pool_def)
  from event_handed_out_twice [OF h _ _ _ refl x y refl, of "BoolV True" "BoolV True"] have "x = y" by simp
  then show ?thesis using x [symmetric] y [symmetric] by (simp add: l)
qed

end
