(* ===== verification/Net_Scan.thy ===== *)
theory Net_Scan
  imports Go_Prelude "HOL-Library.Word"
begin

text \<open>
  The network scanner (\<open>remoteUname/remoteUname.go\<close>): the host addresses of a network,
  the ping of every host and the login to those that answer. Addresses are words, so the
  model covers IPv4 (32 bits) and IPv6 (128 bits). The commands it runs are parameters.
\<close>

section \<open>The hosts of a network\<close>

text \<open>The next address; there is none after the last one.\<close>

definition next_ip :: "'a::len word \<Rightarrow> 'a word option" where
  "next_ip a = (if a = - 1 then None else Some (a + 1))"

lemma unat_lt: "unat (a :: 'a::len word) < 2 ^ LENGTH('a)"
  by (rule unsigned_less)

lemma unat_word_of: "k < 2 ^ LENGTH('a) \<Longrightarrow> unat (word_of_nat k :: 'a::len word) = k"
  by (simp add: unat_of_nat)

lemma next_ip_eq:
  fixes a :: "'a::len word"
  shows "next_ip a = (if unat a + 1 < 2 ^ LENGTH('a) then Some (word_of_nat (unat a + 1)) else None)"
proof -
  have w: "word_of_nat (unat a + 1) = a + 1" by simp
  have "a = - 1 \<longleftrightarrow> a + 1 = 0" by (simp add: eq_neg_iff_add_eq_0)
  also have "\<dots> \<longleftrightarrow> 2 ^ LENGTH('a) dvd unat a + 1" by (simp only: w [symmetric] word_of_nat_eq_0_iff)
  also have "\<dots> \<longleftrightarrow> \<not> unat a + 1 < 2 ^ LENGTH('a)"
  proof
    assume "2 ^ LENGTH('a) dvd unat a + 1"
    then show "\<not> unat a + 1 < 2 ^ LENGTH('a)" by (auto dest: dvd_imp_le)
  next
    assume "\<not> unat a + 1 < 2 ^ LENGTH('a)"
    then have "unat a + 1 = 2 ^ LENGTH('a)" using unat_lt [of a] by linarith
    then show "2 ^ LENGTH('a) dvd unat a + 1" by simp
  qed
  finally show ?thesis by (simp add: next_ip_def w)
qed

lemma next_ip_unat: "next_ip l = Some a \<Longrightarrow> unat a = unat l + 1"
  by (auto simp: next_ip_eq unat_word_of simp del: of_nat_add of_nat_Suc split: if_splits)

definition prefix_contains :: "'a::len word \<Rightarrow> nat \<Rightarrow> 'a word \<Rightarrow> bool" where
  "prefix_contains base bits a \<longleftrightarrow> drop_bit (LENGTH('a) - bits) a = drop_bit (LENGTH('a) - bits) base"

text \<open>The loop of \<open>hosts\<close>, with what it has sent when its channel is read to the end.\<close>

function hosts_loop :: "'a::len word \<Rightarrow> nat \<Rightarrow> 'a word option \<Rightarrow> 'a word option \<Rightarrow> 'a word list" where
  "hosts_loop base bits None prev = []"
| "hosts_loop base bits (Some a) prev =
     (if prefix_contains base bits a
      then (case prev of None \<Rightarrow> [] | Some l \<Rightarrow> [l]) @ hosts_loop base bits (next_ip a) (Some a)
      else [])"
  by pat_completeness auto
termination
proof (relation "measure (\<lambda>(base, bits, a, prev). case a of None \<Rightarrow> 0 | Some x \<Rightarrow> 2 ^ LENGTH('a) - unat x)")
  show "wf (measure (\<lambda>(base, bits, a, prev). case a of None \<Rightarrow> 0 | Some x \<Rightarrow> 2 ^ LENGTH('a) - unat (x :: 'a word)))"
    by simp
next
  fix base a :: "'a word" and bits prev
  show "((base, bits, next_ip a, Some a), base, bits, Some a, prev)
      \<in> measure (\<lambda>(base, bits, a, prev). case a of None \<Rightarrow> 0 | Some x \<Rightarrow> 2 ^ LENGTH('a) - unat (x :: 'a word))"
    using diff_less_mono2 [OF lessI unat_lt [of a]] next_ip_unat [of a] by (auto split: option.split)
qed

definition hosts :: "'a::len word \<Rightarrow> nat \<Rightarrow> 'a word list" where
  "hosts base bits = hosts_loop base bits (next_ip base) None"

text \<open>The last address of the network.\<close>

definition broadcast :: "'a::len word \<Rightarrow> nat \<Rightarrow> nat" where
  "broadcast base bits = (let n = 2 ^ (LENGTH('a) - bits) in (unat base div n) * n + (n - 1))"

lemma contains_div:
  fixes a base :: "'a::len word"
  shows "prefix_contains base bits a \<longleftrightarrow> unat a div 2 ^ (LENGTH('a) - bits) = unat base div 2 ^ (LENGTH('a) - bits)"
  unfolding prefix_contains_def word_unat_eq_iff unat_drop_bit_eq unfolding drop_bit_eq_div ..

lemma contains_le:
  fixes a base :: "'a::len word"
  assumes "unat base \<le> unat a"
  shows "prefix_contains base bits a \<longleftrightarrow> unat a \<le> broadcast base bits"
proof -
  define n :: nat where "n = 2 ^ (LENGTH('a) - bits)"
  have n: "0 < n" by (simp add: n_def)
  have b: "broadcast base bits = (unat base div n) * n + (n - 1)" by (simp add: broadcast_def n_def Let_def)
  have "unat a div n = unat base div n \<longleftrightarrow> unat a div n \<le> unat base div n"
    using div_le_mono [OF assms, of n] by linarith
  also have "\<dots> \<longleftrightarrow> unat a < (unat base div n + 1) * n"
    using n by (simp add: div_less_iff_less_mult less_Suc_eq_le [symmetric])
  also have "\<dots> \<longleftrightarrow> unat a \<le> broadcast base bits" using n by (auto simp: b)
  finally show ?thesis by (simp add: contains_div n_def)
qed

lemma broadcast_bound:
  fixes base :: "'a::len word"
  shows "unat base \<le> broadcast base bits" "broadcast base bits < 2 ^ LENGTH('a)"
proof -
  define n :: nat where "n = 2 ^ (LENGTH('a) - bits)"
  have n: "0 < n" by (simp add: n_def)
  have b: "broadcast base bits = (unat base div n) * n + (n - 1)" by (simp add: broadcast_def n_def Let_def)
  have "unat base mod n \<le> n - 1" using mod_less_divisor [OF n, of "unat base"] by linarith
  then show "unat base \<le> broadcast base bits"
    using div_mult_mod_eq [of "unat base" n] unfolding b by linarith
  have "unat base div n < 2 ^ LENGTH('a) div n"
  proof -
    have "n dvd 2 ^ LENGTH('a)" by (simp add: n_def le_imp_power_dvd)
    then show ?thesis using n unat_lt [of base] by (auto elim!: dvdE simp: div_less_iff_less_mult mult.commute)
  qed
  then have "(unat base div n + 1) * n \<le> (2 ^ LENGTH('a) div n) * n" by (intro mult_le_mono1) simp
  also have "\<dots> \<le> 2 ^ LENGTH('a)" by (simp add: div_times_less_eq_dividend)
  finally show "broadcast base bits < 2 ^ LENGTH('a)" using n unfolding b by (simp add: algebra_simps)
qed

lemma next_ip_in:
  fixes base l :: "'a::len word"
  assumes "unat l < broadcast base bits"
  obtains a where "next_ip l = Some a" "unat a = unat l + 1"
proof -
  have "unat l + 1 < 2 ^ LENGTH('a)" using assms broadcast_bound(2) [of base bits] by simp
  then have "next_ip l = Some (word_of_nat (unat l + 1))" by (simp add: next_ip_eq)
  from that [OF this next_ip_unat [OF this]] show thesis .
qed

text \<open>From an address of the network on, the loop sends everything before the broadcast address.\<close>

lemma hosts_loop_run:
  fixes base l :: "'a::len word"
  assumes "unat base \<le> unat l" and "unat l \<le> broadcast base bits"
  shows "hosts_loop base bits (next_ip l) (Some l) = map word_of_nat [unat l..<broadcast base bits]"
  using assms
proof (induction "broadcast base bits - unat l" arbitrary: l)
  case 0
  then have e: "unat l = broadcast base bits" by simp
  show ?case
  proof (cases "next_ip l")
    case None
    then show ?thesis using e by simp
  next
    case (Some a)
    then have "unat a = unat l + 1" by (rule next_ip_unat)
    then have "\<not> prefix_contains base bits a" using contains_le [of base a bits] 0(2) e by simp
    then show ?thesis using Some e by simp
  qed
next
  case (Suc d)
  then have lt: "unat l < broadcast base bits" by simp
  then obtain a where a: "next_ip l = Some a" "unat a = unat l + 1" by (rule next_ip_in)
  have "prefix_contains base bits a" using contains_le [of base a bits] Suc(3) lt a(2) by simp
  moreover have "hosts_loop base bits (next_ip a) (Some a) = map word_of_nat [unat a..<broadcast base bits]"
    using Suc(1) [of a] Suc(2,3) lt a(2) by simp
  moreover have "[unat l..<broadcast base bits] = unat l # [unat a..<broadcast base bits]"
    using lt by (simp add: upt_conv_Cons a(2))
  ultimately show ?case by (simp add: a(1))
qed

lemma hosts_eq:
  fixes base :: "'a::len word"
  shows "hosts base bits = map word_of_nat [unat base + 1..<broadcast base bits]"
proof (cases "unat base < broadcast base bits")
  case False
  then have e: "broadcast base bits = unat base" using broadcast_bound(1) [of base bits] by simp
  have "hosts_loop base bits (next_ip base) None = []"
  proof (cases "next_ip base")
    case None
    then show ?thesis by simp
  next
    case (Some a)
    then have "unat a = unat base + 1" by (rule next_ip_unat)
    then have "\<not> prefix_contains base bits a" using contains_le [of base a bits] e by simp
    then show ?thesis using Some by simp
  qed
  then show ?thesis by (simp add: hosts_def e)
next
  case True
  then obtain a where a: "next_ip base = Some a" "unat a = unat base + 1" by (rule next_ip_in)
  have "prefix_contains base bits a" using contains_le [of base a bits] True a(2) by simp
  moreover have "hosts_loop base bits (next_ip a) (Some a) = map word_of_nat [unat a..<broadcast base bits]"
    using hosts_loop_run [of base a bits] True a(2) by simp
  ultimately show ?thesis by (simp add: hosts_def a)
qed

section \<open>Scanning\<close>

record 'a scan_record =
  uname :: string
  host :: 'a
  reachable :: bool
  login_ssh :: bool

text \<open>
  The goroutines deliver their records in some order, which is an argument: \<open>arrive\<close>.
\<close>

definition scan_prefixes :: "('a scan_record list \<Rightarrow> 'a scan_record list) \<Rightarrow> ('a \<Rightarrow> bool) \<Rightarrow> 'a list \<Rightarrow> 'a scan_record list" where
  "scan_prefixes arrive alive ips =
     arrive (map (\<lambda>ip. \<lparr>uname = [], host = ip, reachable = alive ip, login_ssh = False\<rparr>) ips)"

definition uname_record :: "('a \<Rightarrow> string option) \<Rightarrow> 'a scan_record \<Rightarrow> 'a scan_record" where
  "uname_record run r =
     (if \<not> reachable r then r
      else (case run (host r) of None \<Rightarrow> r | Some t \<Rightarrow> r\<lparr>login_ssh := True, uname := t\<rparr>))"

definition uname_prefixes :: "('a scan_record list \<Rightarrow> 'a scan_record list) \<Rightarrow> ('a \<Rightarrow> string option) \<Rightarrow> 'a scan_record list \<Rightarrow> 'a scan_record list" where
  "uname_prefixes arrive run rs = arrive (map (uname_record run) rs)"

definition scan_network :: "('a::len word scan_record list \<Rightarrow> 'a word scan_record list) \<Rightarrow> ('a word scan_record list \<Rightarrow> 'a word scan_record list)
    \<Rightarrow> ('a word \<Rightarrow> bool) \<Rightarrow> ('a word \<Rightarrow> string option) \<Rightarrow> 'a word \<Rightarrow> nat \<Rightarrow> 'a word scan_record list" where
  "scan_network arr1 arr2 alive run base bits = uname_prefixes arr2 run (scan_prefixes arr1 alive (hosts base bits))"

fun program_validation :: "(string \<Rightarrow> string option) \<Rightarrow> (string \<times> string) list \<Rightarrow> (string, (string \<times> string) list) outcome" where
  "program_validation look [] = Ok []"
| "program_validation look ((n, p) # ps) =
     (case look n of
        None \<Rightarrow> Err n
      | Some q \<Rightarrow> then_ok (program_validation look ps) (\<lambda>qs. Ok ((n, q) # qs)))"

text \<open>
  The commands, and the whole program: \<open>cmd\<close> runs a program with arguments and has its output
  if it succeeds within its deadline, \<open>text\<close> is the text of an address.
\<close>

definition scan_host_alive :: "(string \<Rightarrow> string list \<Rightarrow> string option) \<Rightarrow> string \<Rightarrow> ('a \<Rightarrow> string) \<Rightarrow> 'a \<Rightarrow> bool" where
  "scan_host_alive cmd path text ip \<longleftrightarrow> cmd path [''-c'', ''1'', ''-t'', ''2'', text ip] \<noteq> None"

definition run_uname ::
    "(string \<Rightarrow> string list \<Rightarrow> string option) \<Rightarrow> string \<Rightarrow> ('a \<Rightarrow> string) \<Rightarrow> string \<Rightarrow> 'a \<Rightarrow> string option" where
  "run_uname cmd path text user ip =
     cmd path [''-o StrictHostKeyChecking=no'', ''-o BatchMode=yes'', user @ ''@'' @ text ip, ''uname -a'']"

record 'a scan_env =
  se_look :: "string \<Rightarrow> string option"
  se_parse :: "string \<Rightarrow> ('a \<times> nat) option"
  se_user :: "string option"
  se_cmd :: "string \<Rightarrow> string list \<Rightarrow> string option"
  se_text :: "'a \<Rightarrow> string"
  se_arrive1 :: "'a scan_record list \<Rightarrow> 'a scan_record list"
  se_arrive2 :: "'a scan_record list \<Rightarrow> 'a scan_record list"

datatype scan_err = WrongScanArgs | ProgramMissing string | BadCidr | NoScanUser

definition scan_main :: "'a::len word scan_env \<Rightarrow> string list \<Rightarrow> (scan_err, 'a word scan_record list) outcome" where
  "scan_main env args =
     (if length args \<noteq> 2 then Err WrongScanArgs
      else then_ok (map_err ProgramMissing (program_validation (se_look env) [(''ping'', []), (''ssh'', [])])) (\<lambda>ps.
        case se_parse env (args ! 1) of
          None \<Rightarrow> Err BadCidr
        | Some (base, bits) \<Rightarrow>
            (case se_user env of
               None \<Rightarrow> Err NoScanUser
             | Some u \<Rightarrow>
                 Ok (scan_network (se_arrive1 env) (se_arrive2 env) (scan_host_alive (se_cmd env) (snd (ps ! 0)) (se_text env))
                       (run_uname (se_cmd env) (snd (ps ! 1)) (se_text env) u) base bits))))"

text \<open>
  The program scans exactly if it gets one argument, finds both its commands, the
  argument is a network and its user is known; the commands it runs are then those it found.
\<close>

lemma scan_main_ok:
  "scan_main env args = Ok rs \<longleftrightarrow>
     (\<exists>ping ssh base bits u. length args = 2 \<and> se_look env ''ping'' = Some ping \<and> se_look env ''ssh'' = Some ssh
        \<and> se_parse env (args ! 1) = Some (base, bits) \<and> se_user env = Some u
        \<and> rs = scan_network (se_arrive1 env) (se_arrive2 env) (scan_host_alive (se_cmd env) ping (se_text env))
                 (run_uname (se_cmd env) ssh (se_text env) u) base bits)"
  by (auto simp: scan_main_def split: option.splits)

text \<open>
  C28: A scan of a network. The hosts are, in order and without repetition, the addresses
  after the given one and before the last of its network, so for a network address
  everything but the network and the broadcast address, and nothing for the two smallest
  networks; the addresses before a given one that is not the network address are left
  out. The loop ends also at the last address there is. In whatever order the answers come,
  the scan yields one record for each of these hosts: it is reachable exactly if it answers
  the ping, and has the output of the login exactly if the login to a reachable host works.
\<close>

theorem network_scan:
  fixes base :: "'a::len word"
  assumes "\<And>xs. mset (arr1 xs) = mset xs" and "\<And>xs. mset (arr2 xs) = mset xs"
  shows "hosts base bits = map word_of_nat [unat base + 1..<broadcast base bits]
    \<and> (LENGTH('a) \<le> bits + 1 \<longrightarrow> hosts base bits = [])
    \<and> distinct (hosts base bits)
    \<and> set (hosts base bits) = {a. prefix_contains base bits a \<and> base < a \<and> unat a \<noteq> broadcast base bits}
    \<and> mset (scan_network arr1 arr2 alive run base bits) =
        mset (map (\<lambda>ip. \<lparr>uname = (case run ip of Some t \<Rightarrow> if alive ip then t else [] | None \<Rightarrow> []), host = ip,
                        reachable = alive ip, login_ssh = (alive ip \<and> run ip \<noteq> None)\<rparr>) (hosts base bits))"
proof (intro conjI impI)
  let ?b = "broadcast base bits"
  show eq: "hosts base bits = map word_of_nat [unat base + 1..<?b]" by (rule hosts_eq)
  have bound: "?b < 2 ^ LENGTH('a)" by (rule broadcast_bound)
  show "distinct (hosts base bits)"
    unfolding eq using bound
    by (auto simp: distinct_map intro!: inj_onI) (metis less_trans unat_word_of)
  show "hosts base bits = []" if "LENGTH('a) \<le> bits + 1"
  proof -
    have "(2 :: nat) ^ (LENGTH('a) - bits) \<le> 2 ^ 1" using that by (intro power_increasing) auto
    then have "2 ^ (LENGTH('a) - bits) - 1 \<le> (1 :: nat)" by simp
    moreover have "(unat base div 2 ^ (LENGTH('a) - bits)) * 2 ^ (LENGTH('a) - bits) \<le> unat base"
      by (rule div_times_less_eq_dividend)
    ultimately have "?b \<le> unat base + 1" unfolding broadcast_def Let_def by linarith
    then show ?thesis by (simp add: eq)
  qed
  have mem: "a \<in> set (hosts base bits) \<longleftrightarrow> unat base < unat a \<and> unat a < ?b" for a
  proof
    assume "a \<in> set (hosts base bits)"
    then obtain k where k: "a = word_of_nat k" "unat base + 1 \<le> k" "k < ?b" by (auto simp: eq)
    then have "unat a = k" using bound by (simp add: unat_word_of)
    then show "unat base < unat a \<and> unat a < ?b" using k by simp
  next
    assume "unat base < unat a \<and> unat a < ?b"
    then show "a \<in> set (hosts base bits)" by (auto simp: eq image_iff intro!: bexI [of _ "unat a"])
  qed
  show "set (hosts base bits) = {a. prefix_contains base bits a \<and> base < a \<and> unat a \<noteq> ?b}"
    using contains_le [of base _ bits] by (auto simp: mem word_less_nat_alt)
  have "mset (scan_network arr1 arr2 alive run base bits)
      = image_mset (uname_record run) (image_mset (\<lambda>ip. \<lparr>uname = [], host = ip, reachable = alive ip, login_ssh = False\<rparr>) (mset (hosts base bits)))"
    by (simp add: scan_network_def uname_prefixes_def scan_prefixes_def assms)
  also have "\<dots> = image_mset (\<lambda>ip. \<lparr>uname = (case run ip of Some t \<Rightarrow> if alive ip then t else [] | None \<Rightarrow> []), host = ip,
                        reachable = alive ip, login_ssh = (alive ip \<and> run ip \<noteq> None)\<rparr>) (mset (hosts base bits))"
    unfolding image_mset.compositionality
    by (rule image_mset_cong) (auto simp: uname_record_def split: option.splits)
  finally show "mset (scan_network arr1 arr2 alive run base bits) =
      mset (map (\<lambda>ip. \<lparr>uname = (case run ip of Some t \<Rightarrow> if alive ip then t else [] | None \<Rightarrow> []), host = ip,
                        reachable = alive ip, login_ssh = (alive ip \<and> run ip \<noteq> None)\<rparr>) (hosts base bits))" by simp
qed

theorem network_scan_witness:
  "hosts (192 :: 8 word) 5 = [193, 194, 195, 196, 197, 198] \<and> length (scan_network rev id (\<lambda>_. True) (\<lambda>_. None) (192 :: 8 word) 5) = 6"
proof -
  have b: "broadcast (192 :: 8 word) 5 = 199" by (simp add: broadcast_def)
  have u: "unat (192 :: 8 word) = 192" by simp
  have h: "hosts (192 :: 8 word) 5 = map word_of_nat [193..<199]"
    using network_scan [of rev id "192 :: 8 word" 5] b u by simp
  have "mset (scan_network rev id (\<lambda>_. True) (\<lambda>_. None) (192 :: 8 word) 5)
      = mset (map (\<lambda>ip. \<lparr>uname = (case None of Some t \<Rightarrow> if True then t else [] | None \<Rightarrow> []), host = ip,
          reachable = True, login_ssh = (True \<and> None \<noteq> (None :: string option))\<rparr>) (hosts (192 :: 8 word) 5))"
    using network_scan [of rev id "192 :: 8 word" 5 "\<lambda>_. True" "\<lambda>_. None"] by (simp only: mset_rev id_apply)
  from mset_eq_length [OF this] have "length (scan_network rev id (\<lambda>_. True) (\<lambda>_. None) (192 :: 8 word) 5) = 6"
    by (simp add: h b)
  with h show ?thesis by (simp add: upt_rec)
qed

end
