(* ===== verification/Qotd.thy ===== *)
theory Qotd
  imports Go_Prelude
begin

text \<open>
  The quote-of-the-day server and its clients (\<open>cli_apps/qotd\<close>): what the server does
  with one connection, how it limits their number, and what the clients send.
\<close>

section \<open>The server\<close>

definition author_to_quotes :: "(string, string list) gomap" where
  "author_to_quotes = [
     (''mark twain'', [''History doesn'' @ [CHR 0x27] @ ''t repeat itself, but it does rhyme'',
       ''Lies, damned lies, and statistics'',
       ''Golf is a good walk spoiled'']),
     (''benjamin franklin'', [''Tell me and I forget. Teach me and I remember. Involve me and I learn'',
       ''I didn'' @ [CHR 0x27] @ ''t fail the test. I just found 100 ways to do it wrong'']),
     (''eleanor roosevelt'', [''The future belongs to those who believe in the beauty of their dreams'']),
     (''helen keller'', [''Keep your face to the sunshine and you cannot see a shadow'',
       ''The chief handicap of the blind is not blindness, but the attitude of seeing people towards them'',
       ''The true test of a character is to face hard conditions with the determination to make them better'']),
     (''maya angelou'', [''I'' @ [CHR 0x27] @ ''ve learned that people will forget what you said, people will forget what you did, but people will never forget how you made them feel'',
       ''If you don'' @ [CHR 0x27] @ ''t like something, change it. If you can'' @ [CHR 0x27] @ ''t change it, change your attitude'',
       ''Nothing will work unless you do''])]"

text \<open>
  One connection that got its place: \<open>input\<close> is what \<open>Read\<close> delivers, or \<open>None\<close> for an
  error, such as the deadline; \<open>first\<close> is the author that ranging over the map meets first,
  and \<open>rnd\<close> the random number, which is below the number of quotes.
\<close>

definition ends_with_newline :: "string \<Rightarrow> bool" where
  "ends_with_newline s \<longleftrightarrow> s \<noteq> [] \<and> last s = CHR 0x0A"

definition pick_quote :: "nat \<Rightarrow> string list \<Rightarrow> string" where
  "pick_quote rnd qs = qs ! (rnd mod length qs)"

definition handle_conn :: "(string, string list) gomap \<Rightarrow> string \<Rightarrow> nat \<Rightarrow> string option \<Rightarrow> (unit, string) outcome" where
  "handle_conn table first rnd input =
     (case input of
        Some s \<Rightarrow>
          if ends_with_newline s then
            (let author = trim_space s
             in if author = [] then Panics IndexOutOfRange
                else (case map_of table author of
                        Some qs \<Rightarrow> Ok (pick_quote rnd qs)
                      | None \<Rightarrow> Ok (''Author not found'' @ [CHR 0x0A])))
          else Ok (case map_of table first of Some qs \<Rightarrow> pick_quote rnd qs | None \<Rightarrow> [])
      | None \<Rightarrow> Ok (case map_of table first of Some qs \<Rightarrow> pick_quote rnd qs | None \<Rightarrow> []))"

text \<open>
  The places: a connection takes one or is closed at once, and gives it back at its end.
\<close>

datatype conn_event = Accept nat | Finish nat

fun conn_step :: "conn_event \<Rightarrow> nat list \<Rightarrow> nat list \<times> bool" where
  "conn_step (Accept c) busy = (if length busy < 100 then (c # busy, True) else (busy, False))"
| "conn_step (Finish c) busy = (remove1 c busy, True)"

section \<open>The clients\<close>

text \<open>\<open>parse\<close> is \<open>netip.ParseAddrPort\<close>.\<close>

definition get_addr :: "(string \<Rightarrow> 'a option) \<Rightarrow> string \<Rightarrow> 'a option" where
  "get_addr parse s = (if CHR '':'' \<in> set s then parse s else parse (s @ '':17''))"

definition author_request :: "string \<Rightarrow> string" where
  "author_request author = (if author \<noteq> ''none'' then author @ [CHR 0x0A] else [])"

text \<open>
  The four programs: the author of a flag, of the arguments, of both, and of the command
  \<open>get\<close>; \<open>None\<close> is reading from standard input.
\<close>

definition flag_author :: "string \<Rightarrow> string option" where
  "flag_author author = (if author = ''stdin'' then None else Some author)"

fun join_args :: "string list \<Rightarrow> string" where
  "join_args [] = []"
| "join_args [a] = a"
| "join_args (a # b # as) = a @ '' '' @ join_args (b # as)"

definition os_author :: "string list \<Rightarrow> string option" where
  "os_author args = (if length args = 2 then None else Some (join_args (drop 2 args)))"

definition both_author :: "bool \<Rightarrow> string list \<Rightarrow> (string, string option) outcome" where
  "both_author random args =
     (let author = trim_space (join_args args)
      in if random \<and> author \<noteq> [] then Err ''cannot specify author with -random flag''
         else if random then Ok (Some ''none'')
         else if length author > 1 then Ok (Some author) else Ok None)"

definition get_author :: "string \<Rightarrow> string" where
  "get_author author = (if author = [] then ''none'' else author)"

text \<open>A client's request at the server, whose buffer has 1024 bytes; no request ends in a deadline.\<close>

definition ask :: "(string, string list) gomap \<Rightarrow> string \<Rightarrow> nat \<Rightarrow> string \<Rightarrow> (unit, string) outcome" where
  "ask table first rnd author =
     handle_conn table first rnd (if author_request author = [] then None else Some (take 1024 (author_request author)))"

section \<open>Properties\<close>

definition quotes_of :: "string \<Rightarrow> string set" where
  "quotes_of a = (case map_of author_to_quotes a of Some qs \<Rightarrow> set qs | None \<Rightarrow> {})"

definition authors :: "string list" where
  "authors = map fst author_to_quotes"

lemma pick_quote_in: "qs \<noteq> [] \<Longrightarrow> pick_quote rnd qs \<in> set qs"
  by (simp add: pick_quote_def)

lemma table_quotes: "a \<in> set authors \<Longrightarrow> \<exists>qs. map_of author_to_quotes a = Some qs \<and> qs \<noteq> []"
  by (auto simp: authors_def author_to_quotes_def)

lemma authors_clean:
  "list_all (\<lambda>a. trim_space (take 1024 (a @ [CHR 0x0A])) = a \<and> a \<noteq> [] \<and> a \<noteq> ''none'') authors"
  by code_simp

lemma take_newline: "length a < 1024 \<Longrightarrow> ends_with_newline (take 1024 (a @ [CHR 0x0A]))"
  by (simp add: ends_with_newline_def)

lemma authors_short: "list_all (\<lambda>a. length a < 1024) authors"
  by (simp add: authors_def author_to_quotes_def)

lemma ask_author:
  assumes "a \<in> set authors"
  shows "\<exists>q. ask author_to_quotes first rnd a = Ok q \<and> q \<in> quotes_of a"
proof -
  have a: "trim_space (take 1024 (a @ [CHR 0x0A])) = a" "a \<noteq> []" "a \<noteq> ''none''" "length a < 1024"
    using authors_clean authors_short assms by (auto simp: list_all_iff)
  obtain qs where qs: "map_of author_to_quotes a = Some qs" "qs \<noteq> []" using table_quotes [OF assms] by blast
  have "author_request a = a @ [CHR 0x0A]" using a(3) by (simp add: author_request_def)
  then have "ask author_to_quotes first rnd a = Ok (pick_quote rnd qs)"
    using a(1,2) take_newline [OF a(4)] qs(1) by (simp add: ask_def handle_conn_def Let_def del: take_append)
  then show ?thesis using pick_quote_in [OF qs(2)] qs(1) by (simp add: quotes_of_def)
qed

lemma ask_none:
  assumes "first \<in> set authors"
  shows "\<exists>q. ask author_to_quotes first rnd ''none'' = Ok q \<and> q \<in> quotes_of first"
  using table_quotes [OF assms] pick_quote_in
  by (auto simp: ask_def author_request_def handle_conn_def quotes_of_def)

lemma ask_blank: "ask author_to_quotes first rnd [] = Panics IndexOutOfRange"
proof -
  have "trim_space [CHR 0x0A] = []" by code_simp
  then show ?thesis by (simp add: ask_def author_request_def handle_conn_def ends_with_newline_def)
qed

interpretation places: invariant_object conn_step "\<lambda>busy. length busy \<le> 100"
proof
  fix busy :: "nat list" and e
  assume "length busy \<le> 100"
  then show "length (fst (conn_step e busy)) \<le> 100"
    by (cases e) (auto simp: length_remove1)
qed

text \<open>
  C0: The quote service. Asked for an author it knows, the server answers with one of that
  author's quotes, whatever the random number; asked for none, as the command \<open>get\<close> does
  for an empty author, with a quote of some author. An empty author, which the client with
  the flag passes on, makes the server crash. Any sequence of connections keeps at most 100
  of them served at a time.
\<close>

theorem quote_service:
  assumes "a \<in> set authors" and "first \<in> set authors"
  shows "(\<exists>q. ask author_to_quotes first rnd a = Ok q \<and> q \<in> quotes_of a)
    \<and> (\<exists>q. ask author_to_quotes first rnd (get_author []) = Ok q \<and> q \<in> quotes_of first)
    \<and> flag_author [] = Some [] \<and> ask author_to_quotes first rnd [] = Panics IndexOutOfRange
    \<and> length (fst (run_ops conn_step events [])) \<le> 100"
  using ask_author [OF assms(1)] ask_none [OF assms(2)] ask_blank places.inv_run [of "[]" events]
  by (simp add: get_author_def flag_author_def)

theorem quote_service_witness:
  "\<exists>q. ask author_to_quotes ''mark twain'' 7 ''eleanor roosevelt'' = Ok q \<and> q \<in> quotes_of ''eleanor roosevelt''"
proof -
  have "''eleanor roosevelt'' \<in> set authors" "''mark twain'' \<in> set authors"
    by (simp_all add: authors_def author_to_quotes_def)
  from quote_service [OF this] show ?thesis by blast
qed

end
