(* ===== verification/Agent_Files.thy ===== *)
theory Agent_Files
  imports Go_Path
begin

text \<open>
  The file system as the system agent uses it (package \<open>os\<close>): a map from the components of
  an absolute path to what is there. A call that the file system would allow may still be
  refused (permissions, a full disk, another device); which calls are is a parameter.
  Symbolic links are not modelled.
\<close>

section \<open>Files and calls\<close>

datatype node = Dir | File string nat

type_synonym files = "string list \<Rightarrow> node option"

datatype fs_error = Already_Exists | Not_Exist | Not_Directory | Is_Directory | Invalid | Refused

datatype os_call =
    CMkdir string
  | CMkdirAll string
  | COpen string
  | CWrite string
  | CRemoveAll string
  | CRename string string
  | CStart string

definition parent_error :: "string list \<Rightarrow> files \<Rightarrow> fs_error option" where
  "parent_error cs fs =
     (case fs (butlast cs) of
        None \<Rightarrow> Some Not_Exist
      | Some (File _ _) \<Rightarrow> Some Not_Directory
      | Some Dir \<Rightarrow> None)"

definition os_mkdir :: "(os_call \<Rightarrow> bool) \<Rightarrow> string \<Rightarrow> files \<Rightarrow> fs_error + files" where
  "os_mkdir no p fs =
     (if fs (comps p) \<noteq> None then Inl Already_Exists
      else case parent_error (comps p) fs of
             Some e \<Rightarrow> Inl e
           | None \<Rightarrow> if no (CMkdir p) then Inl Refused else Inr (fs(comps p \<mapsto> Dir)))"

text \<open>\<open>OpenFile\<close> with \<open>O_CREATE|O_WRONLY\<close>: a file that exists keeps its contents.\<close>

definition os_open :: "(os_call \<Rightarrow> bool) \<Rightarrow> string \<Rightarrow> nat \<Rightarrow> files \<Rightarrow> fs_error + files" where
  "os_open no p perm fs =
     (case fs (comps p) of
        Some Dir \<Rightarrow> Inl Is_Directory
      | Some (File _ _) \<Rightarrow> if no (COpen p) then Inl Refused else Inr fs
      | None \<Rightarrow>
          (case parent_error (comps p) fs of
             Some e \<Rightarrow> Inl e
           | None \<Rightarrow> if no (COpen p) then Inl Refused else Inr (fs(comps p \<mapsto> File [] perm))))"

text \<open>Writing from the start of an open file, which keeps what lies behind the text written.\<close>

definition os_write :: "(os_call \<Rightarrow> bool) \<Rightarrow> string \<Rightarrow> string \<Rightarrow> files \<Rightarrow> fs_error + files" where
  "os_write no p text fs =
     (case fs (comps p) of
        Some (File old perm) \<Rightarrow>
          if no (CWrite p) then Inl Refused
          else Inr (fs(comps p \<mapsto> File (text @ drop (length text) old) perm))
      | _ \<Rightarrow> Inl Invalid)"

fun make_dirs :: "string list \<Rightarrow> string list \<Rightarrow> files \<Rightarrow> fs_error option \<times> files" where
  "make_dirs done [] fs = (None, fs)"
| "make_dirs done (c # cs) fs =
     (case fs (done @ [c]) of
        Some (File _ _) \<Rightarrow> (Some Not_Directory, fs)
      | Some Dir \<Rightarrow> make_dirs (done @ [c]) cs fs
      | None \<Rightarrow> make_dirs (done @ [c]) cs (fs(done @ [c] \<mapsto> Dir)))"

definition os_mkdir_all :: "(os_call \<Rightarrow> bool) \<Rightarrow> string \<Rightarrow> files \<Rightarrow> fs_error option \<times> files" where
  "os_mkdir_all no p fs =
     (if no (CMkdirAll p) then (Some Refused, fs) else make_dirs [] (comps p) fs)"

definition os_exists :: "string \<Rightarrow> files \<Rightarrow> bool" where
  "os_exists p fs \<longleftrightarrow> fs (comps p) \<noteq> None"

text \<open>\<open>RemoveAll\<close>, without its error, which the agent ignores.\<close>

definition os_remove_all :: "(os_call \<Rightarrow> bool) \<Rightarrow> string \<Rightarrow> files \<Rightarrow> files" where
  "os_remove_all no p fs =
     (if no (CRemoveAll p) then fs else (\<lambda>q. if prefix (comps p) q then None else fs q))"

text \<open>\<open>Rename\<close> of a directory, which Go refuses when the target is a directory already.\<close>

definition os_rename :: "(os_call \<Rightarrow> bool) \<Rightarrow> string \<Rightarrow> string \<Rightarrow> files \<Rightarrow> fs_error + files" where
  "os_rename no from to fs =
     (let f = comps from; t = comps to in
      case fs t of
        Some Dir \<Rightarrow> Inl Already_Exists
      | Some (File _ _) \<Rightarrow> Inl Not_Directory
      | None \<Rightarrow>
          if fs f \<noteq> Some Dir then Inl Not_Exist
          else if prefix f t then Inl Invalid
          else (case parent_error t fs of
                  Some e \<Rightarrow> Inl e
                | None \<Rightarrow>
                    if no (CRename from to) then Inl Refused
                    else Inr (\<lambda>q. if prefix t q then fs (f @ drop (length t) q)
                                  else if prefix f q then None else fs q)))"

section \<open>Changes below a directory\<close>

definition same_outside :: "string list set \<Rightarrow> files \<Rightarrow> files \<Rightarrow> bool" where
  "same_outside ds fs fs' \<longleftrightarrow> (\<forall>q. (\<forall>d\<in>ds. \<not> prefix d q) \<longrightarrow> fs' q = fs q)"

lemma same_outside_refl [simp]: "same_outside ds fs fs"
  by (simp add: same_outside_def)

lemma same_outside_trans:
  "same_outside ds fs fs' \<Longrightarrow> same_outside ds fs' fs'' \<Longrightarrow> same_outside ds fs fs''"
  by (simp add: same_outside_def)

lemma same_outside_mono: "same_outside ds fs fs' \<Longrightarrow> ds \<subseteq> ds' \<Longrightarrow> same_outside ds' fs fs'"
  by (auto simp: same_outside_def)

lemma same_outside_deeper:
  assumes "same_outside ds fs fs'" and "\<And>d. d \<in> ds \<Longrightarrow> \<exists>e\<in>ds'. prefix e d"
  shows "same_outside ds' fs fs'"
  unfolding same_outside_def
proof (intro allI impI)
  fix q assume q: "\<forall>e\<in>ds'. \<not> prefix e q"
  have "\<not> prefix d q" if "d \<in> ds" for d
    using q assms(2) [OF that] by (auto dest: prefix_order.trans)
  then show "fs' q = fs q" using assms(1) by (simp add: same_outside_def)
qed

lemma same_outside_D: "same_outside ds fs fs' \<Longrightarrow> (\<And>d. d \<in> ds \<Longrightarrow> \<not> prefix d q) \<Longrightarrow> fs' q = fs q"
  by (simp add: same_outside_def)

lemma os_mkdir_frame: "os_mkdir no p fs = Inr fs' \<Longrightarrow> same_outside {comps p} fs fs'"
  by (auto simp: os_mkdir_def same_outside_def split: if_splits option.splits)

lemma os_open_frame: "os_open no p perm fs = Inr fs' \<Longrightarrow> same_outside {comps p} fs fs'"
  by (auto simp: os_open_def same_outside_def split: if_splits option.splits node.splits)

lemma os_write_frame: "os_write no p text fs = Inr fs' \<Longrightarrow> same_outside {comps p} fs fs'"
  by (auto simp: os_write_def same_outside_def split: if_splits option.splits node.splits)

lemma os_remove_all_frame: "same_outside {comps p} fs (os_remove_all no p fs)"
  by (simp add: os_remove_all_def same_outside_def)

lemma os_rename_frame:
  "os_rename no p p' fs = Inr fs' \<Longrightarrow> same_outside {comps p, comps p'} fs fs'"
  by (auto simp: os_rename_def same_outside_def Let_def split: if_splits option.splits node.splits)

text \<open>Making directories adds directories and changes nothing that is there.\<close>

lemma make_dirs_keeps: "fs q \<noteq> None \<Longrightarrow> snd (make_dirs ds cs fs) q = fs q"
proof (induction ds cs fs rule: make_dirs.induct)
  case (2 ds c cs fs)
  then show ?case by (cases "fs (ds @ [c])") (auto simp: fun_upd_def split: node.splits if_splits)
qed simp

lemma make_dirs_others:
  "\<not> prefix q (ds @ cs) \<Longrightarrow> snd (make_dirs ds cs fs) q = fs q"
proof (induction ds cs fs rule: make_dirs.induct)
  case (2 ds c cs fs)
  then have "q \<noteq> ds @ [c]" by (auto simp: prefix_def)
  with 2 show ?case by (cases "fs (ds @ [c])") (auto simp: fun_upd_def split: node.splits)
qed simp

lemma make_dirs_made:
  "fst (make_dirs ds cs fs) = None \<Longrightarrow> fs ds = Some Dir \<Longrightarrow>
     snd (make_dirs ds cs fs) (ds @ cs) = Some Dir"
proof (induction ds cs fs rule: make_dirs.induct)
  case (2 ds c cs fs)
  then show ?case by (cases "fs (ds @ [c])") (auto simp: fun_upd_def split: node.splits if_splits)
qed simp

lemma make_dirs_only_dirs:
  "snd (make_dirs ds cs fs) q \<noteq> fs q \<Longrightarrow> snd (make_dirs ds cs fs) q = Some Dir"
proof (induction ds cs fs rule: make_dirs.induct)
  case (2 ds c cs fs)
  show ?case
  proof (cases "fs (ds @ [c])")
    case None
    let ?fs = "fs(ds @ [c] \<mapsto> Dir)"
    have "snd (make_dirs (ds @ [c]) cs ?fs) q = Some Dir"
    proof (cases "?fs q = fs q")
      case True
      have "snd (make_dirs (ds @ [c]) cs ?fs) q \<noteq> ?fs q"
        unfolding True using "2.prems" None by simp
      then show ?thesis by (rule "2.IH"(1) [OF None])
    next
      case False
      then have "?fs q = Some Dir" by (simp split: if_splits)
      with make_dirs_keeps [of ?fs q] show ?thesis by simp
    qed
    with None show ?thesis by simp
  next
    case (Some n)
    with "2.prems" "2.IH"(2) show ?thesis by (cases n) auto
  qed
qed simp

lemma make_dirs_change:
  "snd (make_dirs ds cs fs) q = fs q \<or>
   (fs q = None \<and> snd (make_dirs ds cs fs) q = Some Dir \<and> prefix q (ds @ cs))"
  using make_dirs_keeps make_dirs_only_dirs make_dirs_others by metis

lemma make_dirs_ok:
  "(\<And>p. prefix p (ds @ cs) \<Longrightarrow> fs p = None \<or> fs p = Some Dir) \<Longrightarrow> fst (make_dirs ds cs fs) = None"
proof (induction ds cs fs rule: make_dirs.induct)
  case (2 ds c cs fs)
  have "fs (ds @ [c]) = None \<or> fs (ds @ [c]) = Some Dir"
    by (rule "2.prems") (simp add: prefix_def)
  then show ?case
  proof
    assume none: "fs (ds @ [c]) = None"
    have "fst (make_dirs (ds @ [c]) cs (fs(ds @ [c] \<mapsto> Dir))) = None"
      by (rule "2.IH"(1) [OF none]) (use "2.prems" in auto)
    with none show ?thesis by simp
  next
    assume dir: "fs (ds @ [c]) = Some Dir"
    have "fst (make_dirs (ds @ [c]) cs fs) = None"
      by (rule "2.IH"(2) [OF dir]) (use "2.prems" in auto)
    with dir show ?thesis by simp
  qed
qed simp

end
