(* ===== verification/Agent_Install.thy ===== *)
theory Agent_Install
  imports Agent_Files
begin

text \<open>
  The installation of packages by the system agent (\<open>agent/service/service.go\<close> with
  \<open>agent/msgs/msgs.go\<close>): reading the request, unpacking the archive into a temporary
  directory, moving it to its place and starting the program. The decoders of JSON and zip,
  the calls the system refuses and the random part of temporary names are parameters.
\<close>

section \<open>The request\<close>

record install_req =
  req_name :: string
  req_package :: string
  req_binary :: string
  req_args :: "string list"

datatype install_err =
    Read_Body | Unmarshal | Name_Empty | Binary_Empty | Package_Empty
  | Pattern_Separator | Fs fs_error | Bad_Zip | Entry_Open | Entry_Copy | Start_Failed

definition validate_install :: "install_req \<Rightarrow> install_err option" where
  "validate_install r =
     (if req_name r = [] then Some Name_Empty
      else if req_binary r = [] then Some Binary_Empty
      else if length (req_package r) = 0 then Some Package_Empty
      else None)"

text \<open>An entry of the archive; \<open>e_sound\<close> says that its checksum is right.\<close>

record entry =
  e_name :: string
  e_dir :: bool
  e_mode :: nat
  e_text :: "string option"
  e_sound :: bool

record agent_env =
  refuses :: "os_call \<Rightarrow> bool"
  tmp_dir :: string
  draws :: "nat list"
  decode_req :: "string \<Rightarrow> install_req option"
  unzip :: "string \<Rightarrow> entry list option"

definition max_install_size :: nat where
  "max_install_size = 1 * 1024 * 1024 * 1024"

definition get_install_req :: "agent_env \<Rightarrow> string option \<Rightarrow> install_err + install_req" where
  "get_install_req env body =
     (case body of
        None \<Rightarrow> Inl Read_Body
      | Some b \<Rightarrow>
          (case decode_req env (take max_install_size b) of
             None \<Rightarrow> Inl Unmarshal
           | Some r \<Rightarrow> (case validate_install r of Some e \<Rightarrow> Inl e | None \<Rightarrow> Inr r)))"

section \<open>Unpacking\<close>

text \<open>\<open>os.MkdirTemp\<close> replaces the last star of its pattern by random digits.\<close>

fun try_temp :: "agent_env \<Rightarrow> string \<Rightarrow> string \<Rightarrow> nat list \<Rightarrow> files \<Rightarrow> files \<times> (install_err + string)" where
  "try_temp env pre suf [] fs = (fs, Inl (Fs Already_Exists))"
| "try_temp env pre suf (r # rs) fs =
     (let p = pre @ dec_nat r @ suf in
      case os_mkdir (refuses env) p fs of
        Inr fs' \<Rightarrow> (fs', Inr p)
      | Inl Already_Exists \<Rightarrow> try_temp env pre suf rs fs
      | Inl e \<Rightarrow> (fs, Inl (Fs e)))"

definition mkdir_temp :: "agent_env \<Rightarrow> string \<Rightarrow> files \<Rightarrow> files \<times> (install_err + string)" where
  "mkdir_temp env pattern fs =
     (if CHR ''/'' \<in> set pattern then (fs, Inl Pattern_Separator)
      else let (pre, suf) =
             (case last_index_byte (CHR ''*'') pattern of
                Some i \<Rightarrow> (take i pattern, drop (Suc i) pattern)
              | None \<Rightarrow> (pattern, []));
             dir = (if tmp_dir env \<noteq> [] \<and> last (tmp_dir env) = CHR ''/'' then tmp_dir env
                    else tmp_dir env @ ''/'')
           in try_temp env (dir @ pre) suf (draws env) fs)"

definition write_file :: "agent_env \<Rightarrow> entry \<Rightarrow> string \<Rightarrow> files \<Rightarrow> files \<times> install_err option" where
  "write_file env e dir fs =
     (let p = file_join [dir, e_name e] in
      if e_dir e then
        (case os_mkdir (refuses env) p fs of
           Inl x \<Rightarrow> (fs, Some (Fs x)) | Inr fs' \<Rightarrow> (fs', None))
      else
        (case e_text e of
           None \<Rightarrow> (fs, Some Entry_Open)
         | Some text \<Rightarrow>
             (case os_open (refuses env) p (e_mode e) fs of
                Inl x \<Rightarrow> (fs, Some (Fs x))
              | Inr fs1 \<Rightarrow>
                  (case os_write (refuses env) p text fs1 of
                     Inl x \<Rightarrow> (fs1, Some Entry_Copy)
                   | Inr fs2 \<Rightarrow> (fs2, if e_sound e then None else Some Entry_Copy)))))"

fun write_files :: "agent_env \<Rightarrow> string \<Rightarrow> entry list \<Rightarrow> files \<Rightarrow> files \<times> install_err option" where
  "write_files env dir [] fs = (fs, None)"
| "write_files env dir (e # es) fs =
     (case write_file env e dir fs of
        (fs', Some x) \<Rightarrow> (fs', Some x)
      | (fs', None) \<Rightarrow> write_files env dir es fs')"

definition unpack :: "agent_env \<Rightarrow> install_req \<Rightarrow> files \<Rightarrow> files \<times> (install_err + string)" where
  "unpack env r fs =
     (case mkdir_temp env (''sa_install_'' @ req_name r @ ''_*'') fs of
        (fs1, Inl e) \<Rightarrow> (fs1, Inl e)
      | (fs1, Inr dir) \<Rightarrow>
          (case unzip env (req_package r) of
             None \<Rightarrow> (fs1, Inl Bad_Zip)
           | Some es \<Rightarrow>
               (case write_files env dir es fs1 of
                  (fs2, Some e) \<Rightarrow> (fs2, Inl e)
                | (fs2, None) \<Rightarrow> (fs2, Inr dir))))"

section \<open>Moving and starting\<close>

record agent =
  home_path :: string
  qotd_addr :: string

record machine =
  m_agent :: agent
  m_files :: files
  m_started :: "string list"

definition pkg_dir :: string where
  "pkg_dir = ''sa/packages/''"

definition migrate :: "agent \<Rightarrow> agent_env \<Rightarrow> install_req \<Rightarrow> string \<Rightarrow> files \<Rightarrow> files \<times> install_err option" where
  "migrate a env r from fs =
     (let to = file_join [home_path a, pkg_dir, req_name r] in
      case os_mkdir_all (refuses env) (file_dir to) fs of
        (Some e, fs1) \<Rightarrow> (fs1, Some (Fs e))
      | (None, fs1) \<Rightarrow>
          (let fs2 = (if os_exists to fs1 then os_remove_all (refuses env) to fs1 else fs1) in
           case os_rename (refuses env) from to fs2 of
             Inl e \<Rightarrow> (fs2, Some (Fs e))
           | Inr fs3 \<Rightarrow> (fs3, None)))"

definition command :: "agent \<Rightarrow> install_req \<Rightarrow> string" where
  "command a r =
     file_join [file_join [home_path a, pkg_dir], req_name r, req_binary r] @ '' '' @
     join_with '' '' (req_args r) @ '' --addr '' @ qotd_addr a @ '' &''"

definition start_program :: "agent_env \<Rightarrow> install_req \<Rightarrow> machine \<Rightarrow> machine \<times> install_err option" where
  "start_program env r m =
     (let a = (if qotd_addr (m_agent m) = [] then (m_agent m)\<lparr>qotd_addr := '':17''\<rparr> else m_agent m);
          m' = m\<lparr>m_agent := a\<rparr>; c = command a r
      in if refuses env (CStart c) then (m', Some Start_Failed)
         else (m'\<lparr>m_started := m_started m' @ [c]\<rparr>, None))"

section \<open>The handler\<close>

datatype response = Response nat "install_err option"

definition install :: "agent_env \<Rightarrow> string option \<Rightarrow> machine \<Rightarrow> machine \<times> response" where
  "install env body m =
     (case get_install_req env body of
        Inl e \<Rightarrow> (m, Response 400 (Some e))
      | Inr r \<Rightarrow>
          (case unpack env r (m_files m) of
             (fs1, Inl e) \<Rightarrow> (m\<lparr>m_files := fs1\<rparr>, Response 400 (Some e))
           | (fs1, Inr from) \<Rightarrow>
               (case migrate (m_agent m) env r from fs1 of
                  (fs2, Some e) \<Rightarrow> (m\<lparr>m_files := fs2\<rparr>, Response 400 (Some e))
                | (fs2, None) \<Rightarrow>
                    (case start_program env r (m\<lparr>m_files := fs2\<rparr>) of
                       (m', Some e) \<Rightarrow> (m', Response 400 (Some e))
                     | (m', None) \<Rightarrow> (m', Response 200 None)))))"

end
