(* ===== verification/Agent_Safety.thy ===== *)
theory Agent_Safety
  imports Agent_Install
begin

text \<open>
  What an installation does to the files of the machine: where it can write when the names in
  the archive are local, and where when they are not; what a successful one leaves behind; what
  is lost when a name is a dot or the last step is refused.
\<close>

section \<open>Places\<close>

definition absolute :: "string \<Rightarrow> bool" where
  "absolute p \<longleftrightarrow> p \<noteq> [] \<and> hd p = CHR ''/''"

definition packages :: "agent \<Rightarrow> string list" where
  "packages a = comps (file_join [home_path a, pkg_dir])"

definition target :: "agent \<Rightarrow> string \<Rightarrow> string list" where
  "target a n = comps (file_join [home_path a, pkg_dir, n])"

lemma split_pkg_dir: "split_on (CHR ''/'') pkg_dir = [''sa'', ''packages'', []]"
  by (simp add: pkg_dir_def)

lemma packages_eq: "absolute (home_path a) \<Longrightarrow> packages a = comps (home_path a) @ [''sa'', ''packages'']"
  by (simp add: packages_def absolute_def comps_file_join split_pkg_dir)

lemma target_eq:
  "absolute (home_path a) \<Longrightarrow> CHR ''/'' \<notin> set n \<Longrightarrow>
     target a n = clean_parts True [n] (rev (packages a))"
  by (simp add: packages_eq target_def absolute_def comps_file_join split_pkg_dir)

lemma target_plain: "absolute (home_path a) \<Longrightarrow> plain n \<Longrightarrow> target a n = packages a @ [n]"
  by (simp add: target_eq plain_def)

lemma target_file: "absolute (home_path a) \<Longrightarrow> file_join [home_path a, pkg_dir, n] = abs_path (target a n)"
  using comps_file_join [of "home_path a" "[pkg_dir, n]"]
    file_join_absolute [of "home_path a" "[pkg_dir, n]"]
  by (simp add: target_def absolute_def)

lemma comps_target_dir:
  assumes "absolute (home_path a)" and "target a n = d @ [c]"
  shows "comps (file_dir (file_join [home_path a, pkg_dir, n])) = d"
proof -
  have "\<forall>w\<in>set (target a n). plain w" by (auto simp: target_def dest: comps_plain)
  with assms show ?thesis by (simp add: target_file comps_file_dir)
qed

text \<open>A file system in which whatever exists lies in a directory.\<close>

definition files_ok :: "files \<Rightarrow> bool" where
  "files_ok fs \<longleftrightarrow> fs [] = Some Dir \<and> (\<forall>q c. fs (q @ [c]) \<noteq> None \<longrightarrow> fs q = Some Dir)"

lemma files_ok_below:
  assumes "files_ok fs" and "fs p \<noteq> Some Dir"
  shows "r \<noteq> [] \<Longrightarrow> fs (p @ r) = None"
proof (induction r rule: rev_induct)
  case (snoc c r)
  show ?case
  proof (cases "r = []")
    case True
    moreover have "fs (p @ [c]) \<noteq> None \<longrightarrow> fs p = Some Dir"
      using assms(1) unfolding files_ok_def by blast
    ultimately show ?thesis using assms(2) by auto
  next
    case False
    with snoc have "fs (p @ r) = None" by simp
    then show ?thesis using assms(1) unfolding files_ok_def by (metis append_assoc option.distinct(1))
  qed
qed simp

lemma files_ok_missing: "files_ok fs \<Longrightarrow> fs p = None \<Longrightarrow> prefix p q \<Longrightarrow> fs q = None"
  using files_ok_below [of fs p] by (cases "q = p") (fastforce simp: prefix_def)+

text \<open>The system lets the agent make, write and remove what it wants.\<close>

definition files_allowed :: "agent_env \<Rightarrow> bool" where
  "files_allowed env \<longleftrightarrow>
     (\<forall>p. \<not> refuses env (CMkdir p) \<and> \<not> refuses env (COpen p) \<and> \<not> refuses env (CWrite p) \<and>
          \<not> refuses env (CMkdirAll p) \<and> \<not> refuses env (CRemoveAll p))"

section \<open>The temporary directory\<close>

lemma dec_nat_no_slash: "CHR ''/'' \<notin> set (dec_nat r)"
  using digit_val_Some_of_dec [of "CHR ''/''" r] by (auto simp: digit_val_def)

definition temp_name :: "string \<Rightarrow> nat \<Rightarrow> string" where
  "temp_name n r = ''sa_install_'' @ n @ ''_'' @ dec_nat r"

lemma temp_name_plain: "CHR ''/'' \<notin> set n \<Longrightarrow> plain (temp_name n r)"
  by (simp add: temp_name_def plain_def dec_nat_no_slash)

definition temp_prefix :: "agent_env \<Rightarrow> string \<Rightarrow> string" where
  "temp_prefix env n =
     (if tmp_dir env \<noteq> [] \<and> last (tmp_dir env) = CHR ''/'' then tmp_dir env
      else tmp_dir env @ ''/'') @ ''sa_install_'' @ n @ ''_''"

lemma mkdir_temp_eq:
  assumes "CHR ''/'' \<notin> set n"
  shows "mkdir_temp env (''sa_install_'' @ n @ ''_*'') fs =
           try_temp env (temp_prefix env n) [] (draws env) fs"
proof -
  have "last_index_byte (CHR ''*'') ((''sa_install_'' @ n @ ''_'') @ CHR ''*'' # []) =
          Some (length (''sa_install_'' @ n @ ''_''))"
    by (rule last_index_byte_append) simp
  then show ?thesis using assms by (simp add: mkdir_temp_def temp_prefix_def)
qed

lemma comps_temp:
  assumes "absolute (tmp_dir env)" and "CHR ''/'' \<notin> set n"
  shows "comps (temp_prefix env n @ dec_nat r) = comps (tmp_dir env) @ [temp_name n r]"
    and "absolute (temp_prefix env n @ dec_nat r)"
proof -
  have plain: "plain (temp_name n r)" by (rule temp_name_plain [OF assms(2)])
  obtain t where t: "temp_prefix env n @ dec_nat r = t @ CHR ''/'' # temp_name n r"
    and c: "comps t = comps (tmp_dir env)"
  proof (cases "last (tmp_dir env) = CHR ''/''")
    case True
    then obtain t where t: "tmp_dir env = t @ CHR ''/'' # []"
      using assms(1) by (metis absolute_def append_butlast_last_id)
    have "comps (tmp_dir env) = comps t" unfolding t comps_append_slash by simp
    with t that [of t] show ?thesis by (simp add: temp_prefix_def temp_name_def)
  next
    case False
    with that [of "tmp_dir env"] show ?thesis by (simp add: temp_prefix_def temp_name_def)
  qed
  show "comps (temp_prefix env n @ dec_nat r) = comps (tmp_dir env) @ [temp_name n r]"
    using plain unfolding t comps_append_slash c
    by (simp add: clean_parts_plain plain_def)
  show "absolute (temp_prefix env n @ dec_nat r)"
    using assms(1) by (cases "tmp_dir env") (auto simp: absolute_def temp_prefix_def)
qed

lemma try_temp_result:
  assumes "absolute (tmp_dir env)" and "CHR ''/'' \<notin> set n"
  shows "try_temp env (temp_prefix env n) [] rs fs = (fs', Inl e) \<Longrightarrow> fs' = fs"
    and "try_temp env (temp_prefix env n) [] rs fs = (fs', Inr p) \<Longrightarrow>
           \<exists>r. p = temp_prefix env n @ dec_nat r \<and> fs (comps p) = None \<and> fs' = fs(comps p \<mapsto> Dir)"
  by (induction rs)
    (auto simp: Let_def os_mkdir_def split: sum.splits fs_error.splits option.splits if_splits)

lemma try_temp_fresh:
  assumes "absolute (tmp_dir env)" and "CHR ''/'' \<notin> set n" and "files_allowed env"
    and "fs (comps (tmp_dir env)) = Some Dir"
    and "r \<in> set rs" and "fs (comps (tmp_dir env) @ [temp_name n r]) = None"
  shows "\<exists>fs' p. try_temp env (temp_prefix env n) [] rs fs = (fs', Inr p)"
  using assms(5)
proof (induction rs)
  case (Cons x xs)
  have "os_mkdir (refuses env) (temp_prefix env n @ dec_nat x) fs =
          (if fs (comps (tmp_dir env) @ [temp_name n x]) \<noteq> None then Inl Already_Exists
           else Inr (fs(comps (tmp_dir env) @ [temp_name n x] \<mapsto> Dir)))"
    using assms(3,4)
    by (simp add: os_mkdir_def parent_error_def comps_temp [OF assms(1,2)] files_allowed_def)
  with Cons assms(6) show ?case by (auto simp: Let_def)
qed simp

section \<open>Writing the archive\<close>

lemma write_file_frame:
  assumes "absolute dir" and "write_file env e dir fs = (fs', res)"
  shows "same_outside {comps (file_join [dir, e_name e])} fs fs'"
  using assms(2)
  by (auto simp: write_file_def Let_def intro: same_outside_trans os_open_frame os_write_frame
        dest: os_mkdir_frame os_open_frame os_write_frame
        split: if_splits sum.splits option.splits)

lemma write_files_frame:
  assumes "absolute dir" and "\<forall>e\<in>set es. local_name (e_name e)"
    and "write_files env dir es fs = (fs', res)"
  shows "same_outside {comps dir} fs fs'"
  using assms(2,3)
proof (induction es arbitrary: fs)
  case (Cons e es)
  obtain fs1 res1 where one: "write_file env e dir fs = (fs1, res1)" by fastforce
  have "same_outside {comps dir} fs fs1"
    by (rule same_outside_deeper [OF write_file_frame [OF assms(1) one]])
       (use Cons.prems(1) assms(1) in \<open>simp add: local_name_below absolute_def\<close>)
  then show ?case
    using Cons one by (cases res1) (auto intro: same_outside_trans)
qed simp

lemma unpack_frame:
  assumes "absolute (tmp_dir env)" and "CHR ''/'' \<notin> set (req_name r)"
    and "\<And>es. unzip env (req_package r) = Some es \<Longrightarrow> \<forall>e\<in>set es. local_name (e_name e)"
    and "unpack env r fs = (fs', res)"
  shows "(fs' = fs \<and> (\<exists>e. res = Inl e)) \<or> (\<exists>t. fs (comps (tmp_dir env) @ [t]) = None \<and>
           same_outside {comps (tmp_dir env) @ [t]} fs fs' \<and>
           (\<forall>p. res = Inr p \<longrightarrow> comps p = comps (tmp_dir env) @ [t]))"
proof -
  obtain fs1 res1 where temp: "try_temp env (temp_prefix env (req_name r)) [] (draws env) fs = (fs1, res1)"
    by fastforce
  then have temp': "mkdir_temp env (''sa_install_'' @ req_name r @ ''_*'') fs = (fs1, res1)"
    by (simp only: mkdir_temp_eq [OF assms(2)])
  show ?thesis
  proof (cases res1)
    case (Inl e)
    with try_temp_result(1) [OF assms(1,2) temp [unfolded Inl]] temp' assms(4)
    have "fs' = fs" "res = Inl e" by (simp_all add: unpack_def)
    then show ?thesis by simp
  next
    case (Inr p)
    from try_temp_result(2) [OF assms(1,2) temp [unfolded Inr]] obtain d where
      p: "p = temp_prefix env (req_name r) @ dec_nat d" and fresh: "fs (comps p) = None"
      and fs1: "fs1 = fs(comps p \<mapsto> Dir)" by auto
    note cp = comps_temp [OF assms(1,2), of d, folded p]
    have "same_outside {comps p} fs fs1" by (auto simp: fs1 same_outside_def)
    moreover have "same_outside {comps p} fs1 fs'"
      using assms(4) temp' Inr write_files_frame [OF cp(2) assms(3)]
      by (auto simp: unpack_def split: option.splits prod.splits)
    ultimately have "same_outside {comps p} fs fs'" by (rule same_outside_trans)
    moreover have "\<forall>p'. res = Inr p' \<longrightarrow> comps p' = comps p"
      using assms(4) temp' Inr by (auto simp: unpack_def split: option.splits prod.splits)
    ultimately show ?thesis using fresh unfolding cp(1) by blast
  qed
qed

section \<open>Where an installation writes\<close>

lemma migrate_frame:
  assumes "absolute (home_path a)" and "target a (req_name r) = d @ [c]"
    and "migrate a env r from fs = (fs', res)" and "fs' q \<noteq> fs q"
  shows "prefix (d @ [c]) q \<or> prefix (comps from) q \<or> (fs q = None \<and> fs' q = Some Dir \<and> prefix q d)"
proof -
  let ?to = "file_join [home_path a, pkg_dir, req_name r]"
  have to: "comps ?to = d @ [c]" using assms(2) by (simp add: target_def)
  have dir: "comps (file_dir ?to) = d" using assms(1,2) by (rule comps_target_dir)
  obtain e fs1 where made: "os_mkdir_all (refuses env) (file_dir ?to) fs = (e, fs1)" by fastforce
  have fs1: "fs1 q = fs q \<or> (fs q = None \<and> fs1 q = Some Dir \<and> prefix q d)"
    using made make_dirs_change [of "[]" d fs q] by (auto simp: os_mkdir_all_def dir split: if_splits)
  have "fs' q = fs1 q \<or> prefix (d @ [c]) q \<or> prefix (comps from) q"
  proof (cases e)
    case (Some x)
    with made assms(3) show ?thesis by (simp add: migrate_def Let_def)
  next
    case None
    define fs2 where "fs2 = (if os_exists ?to fs1 then os_remove_all (refuses env) ?to fs1 else fs1)"
    have frame: "same_outside {d @ [c]} fs1 fs2"
      using os_remove_all_frame [of ?to fs1 "refuses env"] by (simp add: fs2_def to)
    have ren: "same_outside {comps from, d @ [c]} fs2 fs3"
      if "os_rename (refuses env) from ?to fs2 = Inr fs3" for fs3
      using os_rename_frame [OF that] by (simp add: to)
    show ?thesis
      using made None assms(3) same_outside_D [OF frame] same_outside_D [OF ren]
      by (auto simp: migrate_def Let_def fs2_def [symmetric] split: sum.splits)
  qed
  with fs1 assms(4) show ?thesis by auto
qed

lemma install_steps:
  assumes "get_install_req env body = Inr r" and "unpack env r (m_files m) = (fs1, res)"
    and "install env body m = (m', resp)"
  shows "res = Inl e \<Longrightarrow>
           m_files m' = fs1 \<and> m_started m' = m_started m \<and> resp = Response 400 (Some e)"
    and "res = Inr p \<Longrightarrow> migrate (m_agent m) env r p fs1 = (fs2, Some e') \<Longrightarrow>
           m_files m' = fs2 \<and> m_started m' = m_started m \<and> resp = Response 400 (Some e')"
    and "res = Inr p \<Longrightarrow> migrate (m_agent m) env r p fs1 = (fs2, None) \<Longrightarrow>
           m_files m' = fs2 \<and>
           (if refuses env (CStart (command (m_agent m') r))
            then m_started m' = m_started m \<and> resp = Response 400 (Some Start_Failed)
            else m_started m' = m_started m @ [command (m_agent m') r] \<and> resp = Response 200 None)"
  using assms by (cases "qotd_addr (m_agent m) = []";
    force simp: install_def start_program_def Let_def split: if_splits)+

lemma install_starts:
  assumes "get_install_req env body = Inr r" and "install env body m = (m', resp)"
  shows "m_started m' = (if resp = Response 200 None then m_started m @ [command (m_agent m') r]
                         else m_started m)"
proof -
  obtain fs1 res where unp: "unpack env r (m_files m) = (fs1, res)" by fastforce
  note steps = install_steps [OF assms(1) unp assms(2)]
  show ?thesis
  proof (cases res)
    case (Inr p)
    obtain fs2 res2 where mig: "migrate (m_agent m) env r p fs1 = (fs2, res2)" by fastforce
    then show ?thesis
      using steps(2) [OF Inr] steps(3) [OF Inr] by (cases res2) (auto split: if_splits)
  qed (use steps(1) in auto)
qed

lemma install_changes:
  assumes "files_ok (m_files m)" and "absolute (home_path (m_agent m))" and "absolute (tmp_dir env)"
    and "get_install_req env body = Inr r" and "plain (req_name r)"
    and "\<And>es. unzip env (req_package r) = Some es \<Longrightarrow> \<forall>e\<in>set es. local_name (e_name e)"
    and "install env body m = (m', resp)" and diff: "m_files m' q \<noteq> m_files m q"
  shows "prefix (packages (m_agent m) @ [req_name r]) q \<or>
      (m_files m q = None \<and> (\<exists>t. prefix (comps (tmp_dir env) @ [t]) q)) \<or>
      (m_files m q = None \<and> prefix q (packages (m_agent m)) \<and> m_files m' q = Some Dir)"
proof -
  let ?a = "m_agent m" and ?tmp = "comps (tmp_dir env)"
  have slash: "CHR ''/'' \<notin> set (req_name r)" using assms(5) by (simp add: plain_def)
  obtain fs1 res where unp: "unpack env r (m_files m) = (fs1, res)" by fastforce
  note steps = install_steps [OF assms(4) unp assms(7)]
  show ?thesis
    using unpack_frame [OF assms(3) slash assms(6) unp]
  proof
    assume "fs1 = m_files m \<and> (\<exists>e. res = Inl e)"
    with steps(1) diff show ?thesis by auto
  next
    assume "\<exists>t. m_files m (?tmp @ [t]) = None \<and> same_outside {?tmp @ [t]} (m_files m) fs1 \<and>
              (\<forall>p. res = Inr p \<longrightarrow> comps p = ?tmp @ [t])"
    then obtain t where fresh: "m_files m (?tmp @ [t]) = None"
      and same: "same_outside {?tmp @ [t]} (m_files m) fs1"
      and place: "\<And>p. res = Inr p \<Longrightarrow> comps p = ?tmp @ [t]" by blast
    have below: "m_files m q = None" if "prefix (?tmp @ [t]) q"
      using files_ok_missing [OF assms(1) fresh that] .
    show ?thesis
    proof (cases "prefix (?tmp @ [t]) q")
      case True
      with below show ?thesis by blast
    next
      case False
      then have q: "fs1 q = m_files m q" using same_outside_D [OF same] by blast
      with steps(1) diff obtain p where p: "res = Inr p" by (cases res) auto
      obtain fs2 res2 where mig: "migrate ?a env r p fs1 = (fs2, res2)" by fastforce
      then have "m_files m' = fs2" using steps(2) [OF p] steps(3) [OF p] by (cases res2) auto
      with migrate_frame [OF assms(2) target_plain [OF assms(2,5)] mig, of q] diff q place [OF p] False
      show ?thesis by auto
    qed
  qed
qed

text \<open>C24: An installation whose archive has only local names and whose package has an ordinary
  name changes no file that exists outside the directory of the package, whatever the request
  answers and whichever calls the system refuses. What is new outside of it lies in a new
  temporary directory or is one of the directories that lead to the packages. A program is
  started exactly when the answer is 200.\<close>

theorem install_contained:
  assumes "files_ok (m_files m)" and "absolute (home_path (m_agent m))" and "absolute (tmp_dir env)"
    and "get_install_req env body = Inr r" and "plain (req_name r)"
    and "\<And>es. unzip env (req_package r) = Some es \<Longrightarrow> \<forall>e\<in>set es. local_name (e_name e)"
    and "install env body m = (m', resp)"
  shows "(\<forall>q x. \<not> prefix (packages (m_agent m) @ [req_name r]) q \<longrightarrow> m_files m q = Some x \<longrightarrow>
            m_files m' q = Some x) \<and>
         (\<forall>q. \<not> prefix (packages (m_agent m) @ [req_name r]) q \<longrightarrow> m_files m q = None \<longrightarrow>
            m_files m' q = None \<or> (\<exists>t. prefix (comps (tmp_dir env) @ [t]) q) \<or>
            (prefix q (packages (m_agent m)) \<and> m_files m' q = Some Dir)) \<and>
         m_started m' = (if resp = Response 200 None then m_started m @ [command (m_agent m') r]
                         else m_started m)"
proof -
  let ?a = "m_agent m" and ?tmp = "comps (tmp_dir env)"
  note change = install_changes [OF assms]
  have "m_files m' q = Some x"
    if "\<not> prefix (packages ?a @ [req_name r]) q" "m_files m q = Some x" for q x
    using change [of q] that by (cases "m_files m' q = m_files m q") auto
  moreover have "m_files m' q = None \<or> (\<exists>t. prefix (?tmp @ [t]) q) \<or>
           (prefix q (packages ?a) \<and> m_files m' q = Some Dir)"
    if "\<not> prefix (packages ?a @ [req_name r]) q" "m_files m q = None" for q
    using change [of q] that by (cases "m_files m' q = m_files m q") auto
  ultimately show ?thesis using install_starts [OF assms(4,7)] by blast
qed

section \<open>What a successful installation leaves\<close>

text \<open>The tree an archive describes, and archives whose entries come after their directories.\<close>

definition entry_node :: "entry \<Rightarrow> node" where
  "entry_node e = (if e_dir e then Dir else File (the (e_text e)) (e_mode e))"

fun archive_tree :: "entry list \<Rightarrow> files \<Rightarrow> files" where
  "archive_tree [] fs = fs"
| "archive_tree (e # es) fs = archive_tree es (fs(comps (e_name e) \<mapsto> entry_node e))"

fun unpackable :: "entry list \<Rightarrow> files \<Rightarrow> bool" where
  "unpackable [] fs = True"
| "unpackable (e # es) fs =
     (local_name (e_name e) \<and> comps (e_name e) \<noteq> [] \<and>
      fs (comps (e_name e)) = None \<and> fs (butlast (comps (e_name e))) = Some Dir \<and>
      (e_dir e \<or> e_text e \<noteq> None \<and> e_sound e) \<and>
      unpackable es (fs(comps (e_name e) \<mapsto> entry_node e)))"

abbreviation empty_dir :: files where
  "empty_dir \<equiv> [[] \<mapsto> Dir]"

lemma write_file_ok:
  assumes "absolute dir" and "files_allowed env" and "local_name (e_name e)"
    and "comps (e_name e) \<noteq> []" and "fs (comps dir @ comps (e_name e)) = None"
    and "fs (comps dir @ butlast (comps (e_name e))) = Some Dir"
    and "e_dir e \<or> e_text e \<noteq> None \<and> e_sound e"
  shows "write_file env e dir fs = (fs(comps dir @ comps (e_name e) \<mapsto> entry_node e), None)"
proof -
  have "comps (file_join [dir, e_name e]) = comps dir @ comps (e_name e)"
    using assms(1,3) by (simp add: absolute_def local_name_below)
  then show ?thesis
    using assms(2,4-7)
    by (auto simp: write_file_def os_mkdir_def os_open_def os_write_def parent_error_def
        entry_node_def butlast_append files_allowed_def)
qed

lemma write_files_ok:
  assumes "absolute dir" and "files_allowed env"
  shows "unpackable es tree \<Longrightarrow> (\<And>q. fs (comps dir @ q) = tree q) \<Longrightarrow>
     \<exists>fs'. write_files env dir es fs = (fs', None) \<and> (\<forall>q. fs' (comps dir @ q) = archive_tree es tree q)"
proof (induction es arbitrary: fs tree)
  case (Cons e es)
  let ?fs = "fs(comps dir @ comps (e_name e) \<mapsto> entry_node e)"
  have "write_file env e dir fs = (?fs, None)"
    by (rule write_file_ok) (use assms Cons.prems in auto)
  moreover have "\<exists>fs'. write_files env dir es ?fs = (fs', None) \<and>
      (\<forall>q. fs' (comps dir @ q) = archive_tree es (tree(comps (e_name e) \<mapsto> entry_node e)) q)"
  proof (rule Cons.IH)
    show "unpackable es (tree(comps (e_name e) \<mapsto> entry_node e))" using Cons.prems(1) by simp
  qed (use Cons.prems(2) in simp)
  ultimately show ?case by simp
qed simp

lemma unpackable_local: "unpackable es fs \<Longrightarrow> e \<in> set es \<Longrightarrow> local_name (e_name e)"
  by (induction es arbitrary: fs) auto

text \<open>The temporary directory can be made, and nothing is refused.\<close>

definition can_unpack :: "agent_env \<Rightarrow> string \<Rightarrow> files \<Rightarrow> bool" where
  "can_unpack env n fs \<longleftrightarrow>
     absolute (tmp_dir env) \<and> files_allowed env \<and> fs (comps (tmp_dir env)) = Some Dir \<and>
     (\<exists>r\<in>set (draws env). fs (comps (tmp_dir env) @ [temp_name n r]) = None)"

lemma unpack_steps:
  assumes "CHR ''/'' \<notin> set (req_name r)" and "can_unpack env (req_name r) fs"
    and "unzip env (req_package r) = Some es"
  obtains p t where "absolute p" and "comps p = comps (tmp_dir env) @ [t]" and "fs (comps p) = None"
    and "unpack env r fs = (case write_files env p es (fs(comps p \<mapsto> Dir)) of
           (fs2, Some e) \<Rightarrow> (fs2, Inl e) | (fs2, None) \<Rightarrow> (fs2, Inr p))"
proof -
  note can = assms(2) [unfolded can_unpack_def]
  obtain d where "d \<in> set (draws env)" "fs (comps (tmp_dir env) @ [temp_name (req_name r) d]) = None"
    using can by blast
  with try_temp_fresh [of env "req_name r" fs] assms(1) can obtain fs1 p where
    temp: "try_temp env (temp_prefix env (req_name r)) [] (draws env) fs = (fs1, Inr p)" by blast
  from try_temp_result(2) [OF _ assms(1) temp] can obtain k where
    p: "p = temp_prefix env (req_name r) @ dec_nat k" "fs (comps p) = None" "fs1 = fs(comps p \<mapsto> Dir)"
    by blast
  have "unpack env r fs = (case write_files env p es (fs(comps p \<mapsto> Dir)) of
           (fs2, Some e) \<Rightarrow> (fs2, Inl e) | (fs2, None) \<Rightarrow> (fs2, Inr p))"
    by (simp only: unpack_def mkdir_temp_eq [OF assms(1)] temp assms(3) p(3)) simp
  moreover have "comps p = comps (tmp_dir env) @ [temp_name (req_name r) k]" "absolute p"
    using comps_temp [of env "req_name r" k] assms(1) can by (simp_all add: p(1))
  ultimately show thesis using that p(2) by simp
qed

lemma unpack_ok:
  assumes "files_ok fs" and "CHR ''/'' \<notin> set (req_name r)" and "can_unpack env (req_name r) fs"
    and "unzip env (req_package r) = Some es" and "unpackable es empty_dir"
  obtains fs1 p t where "unpack env r fs = (fs1, Inr p)" and "comps p = comps (tmp_dir env) @ [t]"
    and "fs (comps p) = None" and "same_outside {comps p} fs fs1"
    and "\<And>q. fs1 (comps p @ q) = archive_tree es empty_dir q"
proof -
  obtain p t where p: "absolute p" "comps p = comps (tmp_dir env) @ [t]" "fs (comps p) = None"
    and unp: "unpack env r fs = (case write_files env p es (fs(comps p \<mapsto> Dir)) of
           (fs2, Some e) \<Rightarrow> (fs2, Inl e) | (fs2, None) \<Rightarrow> (fs2, Inr p))"
    by (rule unpack_steps [OF assms(2-4)])
  have "(fs(comps p \<mapsto> Dir)) (comps p @ q) = empty_dir q" for q
    using files_ok_below [OF assms(1), of "comps p" q] p(3) by auto
  from write_files_ok [OF p(1) _ assms(5) this, of env] assms(3) obtain fs1 where
    fs1: "write_files env p es (fs(comps p \<mapsto> Dir)) = (fs1, None)"
    and tree: "\<And>q. fs1 (comps p @ q) = archive_tree es empty_dir q"
    unfolding can_unpack_def by blast
  have "same_outside {comps p} (fs(comps p \<mapsto> Dir)) fs1"
    by (rule write_files_frame [OF p(1) _ fs1]) (use assms(5) unpackable_local in blast)
  moreover have "same_outside {comps p} fs (fs(comps p \<mapsto> Dir))"
    by (auto simp: same_outside_def)
  ultimately have "same_outside {comps p} fs fs1" by (rule same_outside_trans [rotated])
  with that [of fs1 p t] unp fs1 p tree show thesis by simp
qed

end
