(* ===== verification/Agent_Results.thy ===== *)
theory Agent_Results
  imports Agent_Safety
begin

text \<open>
  What an installation leaves behind: the archive in the place of the old version of the
  package, everything else as it was; and three ways in which that fails, because a name in
  the archive climbs, because the package is called by a dot, or because the last step is
  refused after the old version has gone.
\<close>

section \<open>Moving the unpacked package\<close>

lemma make_dirs_all:
  "fst (make_dirs ds cs fs) = None \<Longrightarrow> fs ds = Some Dir \<Longrightarrow> prefix p cs \<Longrightarrow>
     snd (make_dirs ds cs fs) (ds @ p) = Some Dir"
proof (induction ds cs fs arbitrary: p rule: make_dirs.induct)
  case (2 ds c cs fs)
  show ?case
  proof (cases p)
    case Nil
    with "2.prems"(2) make_dirs_keeps [of fs ds ds "c # cs"] show ?thesis by simp
  next
    case (Cons x p')
    with "2.prems"(3) have p: "p = c # p'" "prefix p' cs" by auto
    show ?thesis
    proof (cases "fs (ds @ [c])")
      case None
      with "2.IH"(1) [OF None _ _ p(2)] "2.prems"(1) show ?thesis by (simp add: p(1) fun_upd_def)
    next
      case (Some n)
      with "2.prems"(1) have n: "n = Dir" by (cases n) auto
      with "2.IH"(2) [OF Some n _ _ p(2)] "2.prems"(1) Some show ?thesis by (simp add: p(1))
    qed
  qed
qed simp

definition no_file_on :: "string list \<Rightarrow> files \<Rightarrow> bool" where
  "no_file_on d fs \<longleftrightarrow> list_all (\<lambda>p. fs p = None \<or> fs p = Some Dir) (prefixes d)"

lemma no_file_onD: "no_file_on d fs \<Longrightarrow> prefix p d \<Longrightarrow> fs p = None \<or> fs p = Some Dir"
  by (simp add: no_file_on_def list_all_iff)

lemma migrate_prepared:
  assumes "absolute (home_path a)" and "target a (req_name r) = d @ [c]" and "files_allowed env"
    and "fs [] = Some Dir" and "no_file_on d fs"
    and "fs (d @ [c]) = None \<Longrightarrow> \<forall>q. prefix (d @ [c]) q \<longrightarrow> fs q = None"
  obtains fs2 where "migrate a env r place fs =
      (case os_rename (refuses env) place (file_join [home_path a, pkg_dir, req_name r]) fs2 of
         Inl e \<Rightarrow> (fs2, Some (Fs e)) | Inr fs3 \<Rightarrow> (fs3, None))"
    and "\<And>q. prefix (d @ [c]) q \<Longrightarrow> fs2 q = None"
    and "\<And>q. \<not> prefix (d @ [c]) q \<Longrightarrow> fs2 q = (if prefix q d then Some Dir else fs q)"
proof -
  let ?to = "file_join [home_path a, pkg_dir, req_name r]"
  have to: "comps ?to = d @ [c]" using assms(2) by (simp add: target_def)
  have dir: "comps (file_dir ?to) = d" using assms(1,2) by (rule comps_target_dir)
  define fs1 where "fs1 = snd (make_dirs [] d fs)"
  have made: "fst (make_dirs [] d fs) = None"
    by (rule make_dirs_ok) (use assms(5) in \<open>auto dest: no_file_onD\<close>)
  have fs1: "fs1 q = (if prefix q d then Some Dir else fs q)" for q
    using make_dirs_all [OF made assms(4), of q] make_dirs_others [of q "[]" d fs]
    by (simp add: fs1_def)
  have all: "os_mkdir_all (refuses env) (file_dir ?to) fs = (None, fs1)"
    using assms(3) made by (cases "make_dirs [] d fs") (simp add: os_mkdir_all_def dir fs1_def files_allowed_def)
  define fs2 where "fs2 = (if os_exists ?to fs1 then os_remove_all (refuses env) ?to fs1 else fs1)"
  have gone: "fs2 q = None" if "prefix (d @ [c]) q" for q
  proof (cases "fs (d @ [c])")
    case None
    moreover have "\<not> prefix q d"
    proof
      assume "prefix q d"
      with that have "prefix (d @ [c]) d" by (rule prefix_order.trans)
      then show False by (auto dest: prefix_length_le)
    qed
    ultimately show ?thesis
      using assms(6) that fs1 by (simp add: fs2_def os_exists_def to fs1)
  next
    case (Some n)
    then show ?thesis
      using that assms(3) by (simp add: fs2_def os_exists_def to fs1 os_remove_all_def files_allowed_def)
  qed
  have rest: "fs2 q = (if prefix q d then Some Dir else fs q)" if "\<not> prefix (d @ [c]) q" for q
    using that fs1 by (simp add: fs2_def os_remove_all_def to)
  have "migrate a env r place fs = (case os_rename (refuses env) place ?to fs2 of
          Inl e \<Rightarrow> (fs2, Some (Fs e)) | Inr fs3 \<Rightarrow> (fs3, None))"
    by (simp only: migrate_def Let_def all fs2_def) simp
  from that [OF this gone rest] show thesis .
qed

definition apart :: "string list \<Rightarrow> string list \<Rightarrow> bool" where
  "apart p q \<longleftrightarrow> \<not> prefix p q \<and> \<not> prefix q p"

lemma apart_append: "apart p q \<Longrightarrow> \<not> prefix p (q @ r)"
  by (auto simp: apart_def dest: prefix_same_cases [of p "q @ r" q])

lemma rename_ready:
  assumes "comps to = d @ [c]" and "apart (comps place) (d @ [c])"
    and "fs (comps place) = Some Dir" and "\<And>q. prefix (d @ [c]) q \<Longrightarrow> fs q = None" and "fs d = Some Dir"
  shows "refuses env (CRename place to) \<Longrightarrow> os_rename (refuses env) place to fs = Inl Refused"
    and "\<not> refuses env (CRename place to) \<Longrightarrow> os_rename (refuses env) place to fs =
           Inr (\<lambda>q. if prefix (d @ [c]) q then fs (comps place @ drop (length (d @ [c])) q)
                    else if prefix (comps place) q then None else fs q)"
  using assms by (simp_all add: os_rename_def Let_def apart_def parent_error_def)

section \<open>The whole installation\<close>

definition can_install :: "agent_env \<Rightarrow> string \<Rightarrow> machine \<Rightarrow> bool" where
  "can_install env n m \<longleftrightarrow>
     files_ok (m_files m) \<and> absolute (home_path (m_agent m)) \<and> CHR ''/'' \<notin> set n \<and>
     can_unpack env n (m_files m) \<and> target (m_agent m) n \<noteq> [] \<and>
     no_file_on (butlast (target (m_agent m) n)) (m_files m) \<and>
     apart (comps (tmp_dir env)) (target (m_agent m) n)"

lemma apart_temp: "apart p q \<Longrightarrow> apart (p @ [t]) q"
  by (auto simp: apart_def dest: append_prefixD)

text \<open>What holds when the archive has been unpacked to \<open>p\<close>, up to the renaming.\<close>

lemma install_until_rename:
  assumes can: "can_install env (req_name r) m" and req: "get_install_req env body = Inr r"
    and unp: "unpack env r (m_files m) = (fs1, Inr p)" and p: "comps p = comps (tmp_dir env) @ [t]"
    and dirs: "fs1 (comps p) = Some Dir"
    and others: "\<And>q. \<not> prefix (comps p) q \<Longrightarrow> prefix (target (m_agent m) (req_name r)) q \<or>
                    prefix q (target (m_agent m) (req_name r)) \<Longrightarrow> fs1 q = m_files m q"
  obtains fs2 where
      "migrate (m_agent m) env r p fs1 =
         (if refuses env (CRename p (file_join [home_path (m_agent m), pkg_dir, req_name r]))
          then (fs2, Some (Fs Refused))
          else (\<lambda>q. if prefix (target (m_agent m) (req_name r)) q
                    then fs1 (comps p @ drop (length (target (m_agent m) (req_name r))) q)
                    else if prefix (comps p) q then None else fs2 q, None))"
    and "\<And>q. prefix (target (m_agent m) (req_name r)) q \<Longrightarrow> fs2 q = None"
    and "\<And>q. \<not> prefix (target (m_agent m) (req_name r)) q \<Longrightarrow>
           fs2 q = (if prefix q (butlast (target (m_agent m) (req_name r))) then Some Dir else fs1 q)"
proof -
  let ?a = "m_agent m" and ?to = "file_join [home_path (m_agent m), pkg_dir, req_name r]"
  note can' = can [unfolded can_install_def]
  obtain d c where dc: "target ?a (req_name r) = d @ [c]"
    using can' by (cases "target ?a (req_name r)" rule: rev_cases) auto
  have to: "comps ?to = d @ [c]" using dc by (simp add: target_def)
  have away: "apart (comps p) (d @ [c])" using can' by (simp add: p dc apart_temp)
  then have notp: "\<not> prefix (comps p) q" if "prefix q (d @ [c]) \<or> prefix (d @ [c]) q" for q
    using that apart_append [of "comps p" "d @ [c]"] by (auto simp: apart_def prefix_def [of "d @ [c]"] dest: prefix_order.trans)
  have same: "fs1 q = m_files m q" if "prefix q (d @ [c]) \<or> prefix (d @ [c]) q" for q
    using others [of q] notp [OF that] that by (auto simp: dc)
  have n: "no_file_on d fs1"
    using can' same by (auto simp: no_file_on_def list_all_iff dc)
  have root: "fs1 [] = Some Dir" using can' same [of "[]"] by (simp add: files_ok_def)
  have new: "\<forall>q. prefix (d @ [c]) q \<longrightarrow> fs1 q = None" if "fs1 (d @ [c]) = None"
    using that can' same files_ok_missing [of "m_files m" "d @ [c]"] by auto
  have allowed: "files_allowed env" using can' by (simp add: can_unpack_def)
  have home: "absolute (home_path ?a)" using can' by simp
  obtain fs2 where mig: "migrate ?a env r p fs1 =
      (case os_rename (refuses env) p ?to fs2 of
         Inl e \<Rightarrow> (fs2, Some (Fs e)) | Inr fs3 \<Rightarrow> (fs3, None))"
    and gone: "\<And>q. prefix (d @ [c]) q \<Longrightarrow> fs2 q = None"
    and rest: "\<And>q. \<not> prefix (d @ [c]) q \<Longrightarrow> fs2 q = (if prefix q d then Some Dir else fs1 q)"
    by (rule migrate_prepared [OF home dc allowed root n, where place = p]) (erule new, rule that)
  have at_p: "fs2 (comps p) = Some Dir" using rest [of "comps p"] away dirs by (auto simp: apart_def)
  have at_d: "fs2 d = Some Dir" using rest [of d] by simp
  have ren: "os_rename (refuses env) p ?to fs2 =
      (if refuses env (CRename p ?to) then Inl Refused
       else Inr (\<lambda>q. if prefix (d @ [c]) q then fs2 (comps p @ drop (length (d @ [c])) q)
                     else if prefix (comps p) q then None else fs2 q))"
    using rename_ready [where env = env, OF to away at_p _ at_d] gone
    by simp
  show thesis
  proof (rule that)
    show "migrate ?a env r p fs1 =
         (if refuses env (CRename p ?to) then (fs2, Some (Fs Refused))
          else (\<lambda>q. if prefix (target ?a (req_name r)) q
                    then fs1 (comps p @ drop (length (target ?a (req_name r))) q)
                    else if prefix (comps p) q then None else fs2 q, None))"
    proof -
      have inside: "fs2 (comps p @ q) = fs1 (comps p @ q)" for q
        using rest [of "comps p @ q"] notp [of "comps p @ q"] apart_append [of "d @ [c]" "comps p" q] away
        by (auto simp: apart_def)
      show ?thesis
        by (cases "refuses env (CRename p ?to)") (simp_all add: mig ren dc inside fun_eq_iff)
    qed
  qed (use gone rest in \<open>simp_all add: dc\<close>)
qed

lemma install_unpacked:
  assumes can: "can_install env (req_name r) m"
    and zip: "unzip env (req_package r) = Some es" and list: "unpackable es empty_dir"
  obtains fs1 p t where "unpack env r (m_files m) = (fs1, Inr p)"
    and "comps p = comps (tmp_dir env) @ [t]" and "m_files m (comps p) = None"
    and "\<And>q. \<not> prefix (comps p) q \<Longrightarrow> fs1 q = m_files m q"
    and "\<And>q. fs1 (comps p @ q) = archive_tree es empty_dir q" and "fs1 (comps p) = Some Dir"
proof -
  obtain fs1 p t where unp: "unpack env r (m_files m) = (fs1, Inr p)"
    and p: "comps p = comps (tmp_dir env) @ [t]" and fresh: "m_files m (comps p) = None"
    and same: "same_outside {comps p} (m_files m) fs1"
    and tree: "\<And>q. fs1 (comps p @ q) = archive_tree es empty_dir q"
    by (rule unpack_ok [OF _ _ _ zip list, of "m_files m"]) (use can in \<open>auto simp: can_install_def\<close>)
  have "unpackable es fs \<Longrightarrow> fs [] = Some Dir \<Longrightarrow> archive_tree es fs [] = Some Dir" for fs
    by (induction es arbitrary: fs) auto
  with list tree [of "[]"] have "fs1 (comps p) = Some Dir" by simp
  with unp p fresh tree same_outside_D [OF same] that [of fs1 p t] show thesis by blast
qed

lemma install_ok:
  assumes can: "can_install env (req_name r) m" and req: "get_install_req env body = Inr r"
    and zip: "unzip env (req_package r) = Some es" and list: "unpackable es empty_dir"
    and go: "\<And>p q. \<not> refuses env (CRename p q)" "\<And>s. \<not> refuses env (CStart s)"
  obtains m' where "install env body m = (m', Response 200 None)"
    and "\<And>q. m_files m' (target (m_agent m) (req_name r) @ q) = archive_tree es empty_dir q"
    and "\<And>q. \<not> prefix (target (m_agent m) (req_name r)) q \<Longrightarrow>
           m_files m' q = (if prefix q (butlast (target (m_agent m) (req_name r))) then Some Dir
                           else m_files m q)"
    and "m_started m' = m_started m @ [command (m_agent m') r]"
proof -
  let ?t = "target (m_agent m) (req_name r)"
  note can' = can [unfolded can_install_def]
  obtain fs1 p t where unp: "unpack env r (m_files m) = (fs1, Inr p)"
    and p: "comps p = comps (tmp_dir env) @ [t]" and fresh: "m_files m (comps p) = None"
    and same: "\<And>q. \<not> prefix (comps p) q \<Longrightarrow> fs1 q = m_files m q"
    and tree: "\<And>q. fs1 (comps p @ q) = archive_tree es empty_dir q"
    and dir: "fs1 (comps p) = Some Dir"
    by (rule install_unpacked [OF can zip list]) blast
  obtain fs2 where mig: "migrate (m_agent m) env r p fs1 =
         (\<lambda>q. if prefix ?t q then fs1 (comps p @ drop (length ?t) q)
               else if prefix (comps p) q then None else fs2 q, None)"
    and rest: "\<And>q. \<not> prefix ?t q \<Longrightarrow> fs2 q = (if prefix q (butlast ?t) then Some Dir else fs1 q)"
    by (rule install_until_rename [OF can req unp p dir same]) (use go that in auto)
  obtain m' resp where inst: "install env body m = (m', resp)" by fastforce
  note steps = install_steps(3) [OF req unp inst refl mig]
  show thesis
  proof (rule that)
    show "install env body m = (m', Response 200 None)" using inst steps go by simp
    show "m_started m' = m_started m @ [command (m_agent m') r]" using steps go by simp
    show "m_files m' (?t @ q) = archive_tree es empty_dir q" for q
      using steps tree by simp
    show "m_files m' q = (if prefix q (butlast ?t) then Some Dir else m_files m q)"
      if "\<not> prefix ?t q" for q
    proof (cases "prefix (comps p) q")
      case True
      then have "m_files m q = None" using files_ok_missing [of "m_files m" "comps p" q] fresh can' by blast
      moreover have "\<not> prefix q (butlast ?t)"
      proof
        assume "prefix q (butlast ?t)"
        with True have "prefix (comps p) (butlast ?t)" by (rule prefix_order.trans)
        then have "prefix (comps p) ?t" using prefixeq_butlast prefix_order.trans by blast
        then show False using can' apart_temp [of "comps (tmp_dir env)" ?t t] by (simp add: p apart_def)
      qed
      ultimately show ?thesis using steps True that by simp
    next
      case False
      then show ?thesis using steps that rest same by simp
    qed
  qed
qed

lemma command_plain:
  assumes "absolute (home_path a)" and "plain n" and "plain b"
    and "req_name r = n" and "req_binary r = b"
  shows "command a r = abs_path (packages a @ [n, b]) @ '' '' @ join_with '' '' (req_args r) @
           '' --addr '' @ qotd_addr a @ '' &''"
proof -
  have abs: "abs_path (packages a) \<noteq> []" "hd (abs_path (packages a)) = CHR ''/''"
    by (simp_all add: abs_path_def)
  have home: "home_path a \<noteq> []" "hd (home_path a) = CHR ''/''" using assms(1) by (auto simp: absolute_def)
  have p: "file_join [home_path a, pkg_dir] = abs_path (packages a)"
    unfolding packages_def comps_file_join [OF home] by (rule file_join_absolute [OF home])
  have "comps (abs_path (packages a)) = packages a" by (simp add: packages_def)
  then have "file_join [abs_path (packages a), n, b] = abs_path (packages a @ [n, b])"
    using assms(2,3) by (simp add: file_join_absolute [OF abs] plain_def)
  then show ?thesis using assms(4,5) by (simp add: command_def p)
qed

lemma install_agent_home: "install env body m = (m', resp) \<Longrightarrow> home_path (m_agent m') = home_path (m_agent m)"
  by (auto simp: install_def start_program_def Let_def
      split: sum.splits prod.splits option.splits if_splits)


section \<open>Three ways to lose files\<close>

definition written_over :: "node option \<Rightarrow> string \<Rightarrow> nat \<Rightarrow> node" where
  "written_over n text mode =
     (case n of Some (File old perm) \<Rightarrow> File (text @ drop (length text) old) perm | _ \<Rightarrow> File text mode)"

lemma comps_climb:
  assumes "absolute p" and "place \<noteq> []" and "\<forall>w\<in>set place. plain w"
  shows "comps (file_join [p, join_with ''/'' (replicate (length (comps p)) ''..'' @ place)]) = place"
proof -
  let ?ws = "replicate (length (comps p)) ''..'' @ place"
  have "split_on (CHR ''/'') (join_with ''/'' ?ws) = ?ws"
  proof (rule split_on_join)
    show "\<forall>w\<in>set ?ws. CHR ''/'' \<notin> set w"
      using assms(3) by (simp add: plain_def ball_Un split: if_splits)
  qed (use assms(2) in simp)
  moreover have "''..'' \<notin> set (rev (comps p))" by (auto dest: comps_plain simp: plain_def)
  ultimately show ?thesis
    using assms clean_parts_climb [of "rev (comps p)" place]
    by (simp add: absolute_def comps_file_join clean_parts_plain)
qed

lemma write_file_over:
  assumes "\<forall>c. \<not> refuses env c" and "\<not> e_dir e" and "e_text e = Some text" and "e_sound e"
    and "comps (file_join [dir, e_name e]) = place"
    and "fs (butlast place) = Some Dir" and "fs place \<noteq> Some Dir"
  shows "write_file env e dir fs = (fs(place \<mapsto> written_over (fs place) text (e_mode e)), None)"
proof (cases "fs place")
  case None
  with assms show ?thesis
    by (simp add: write_file_def Let_def os_open_def os_write_def parent_error_def written_over_def)
next
  case (Some n)
  with assms(7) obtain old perm where "n = File old perm" by (cases n) auto
  with Some assms show ?thesis
    by (simp add: write_file_def Let_def os_open_def os_write_def written_over_def)
qed

text \<open>A request whose package is named by one dot is accepted, and its archive takes the
  place of the whole directory of packages; with two dots, of the directory above it. Nothing
  is left of the other packages.\<close>

theorem dotted_name_replaces_all_packages:
  assumes "can_install env (req_name r) m" and "get_install_req env body = Inr r"
    and "unzip env (req_package r) = Some es" and "unpackable es empty_dir"
    and "\<forall>c. \<not> refuses env c" and "req_name r = ''.'' \<or> req_name r = ''..''"
  shows "\<exists>m'. install env body m = (m', Response 200 None) \<and>
           (\<forall>q. m_files m' ((if req_name r = ''.'' then packages (m_agent m)
                          else comps (home_path (m_agent m)) @ [''sa'']) @ q) = archive_tree es empty_dir q)"
proof -
  have home: "absolute (home_path (m_agent m))" and slash: "CHR ''/'' \<notin> set (req_name r)"
    using assms(1) by (auto simp: can_install_def)
  have "target (m_agent m) (req_name r) = (if req_name r = ''.'' then packages (m_agent m)
          else comps (home_path (m_agent m)) @ [''sa''])"
    using assms(6) by (auto simp: target_eq [OF home slash] packages_eq [OF home])
  moreover obtain m' where "install env body m = (m', Response 200 None)"
    "\<And>q. m_files m' (target (m_agent m) (req_name r) @ q) = archive_tree es empty_dir q"
    by (rule install_ok [OF assms(1-4)]) (use assms(5) in auto)
  ultimately show ?thesis by auto
qed

text \<open>When the system refuses to rename, as it does for a temporary directory on another
  device, a request is answered by an error after the installed version of the package has
  been deleted, and the unpacked archive stays in the temporary directory.\<close>

theorem refused_rename_loses_package:
  assumes "can_install env (req_name r) m" and "get_install_req env body = Inr r"
    and "unzip env (req_package r) = Some es" and "unpackable es empty_dir"
    and "\<forall>p q. refuses env (CRename p q)" and "plain (req_name r)"
  shows "\<exists>m' t. install env body m = (m', Response 400 (Some (Fs Refused))) \<and>
           (\<forall>q. m_files m' (packages (m_agent m) @ req_name r # q) = None) \<and>
           (\<forall>q. m_files m' (comps (tmp_dir env) @ t # q) = archive_tree es empty_dir q) \<and>
           m_started m' = m_started m"
proof -
  have home: "absolute (home_path (m_agent m))" using assms(1) by (simp add: can_install_def)
  note tgt = target_plain [OF home assms(6)]
  let ?t = "packages (m_agent m) @ [req_name r]"
  obtain fs1 p t where unp: "unpack env r (m_files m) = (fs1, Inr p)"
    and p: "comps p = comps (tmp_dir env) @ [t]"
    and same: "\<And>q. \<not> prefix (comps p) q \<Longrightarrow> fs1 q = m_files m q"
    and tree: "\<And>q. fs1 (comps p @ q) = archive_tree es empty_dir q"
    and dir: "fs1 (comps p) = Some Dir"
    by (rule install_unpacked [OF assms(1,3,4)]) blast
  obtain fs2 where mig: "migrate (m_agent m) env r p fs1 = (fs2, Some (Fs Refused))"
    and gone: "\<And>q. prefix ?t q \<Longrightarrow> fs2 q = None"
    and rest: "\<And>q. \<not> prefix ?t q \<Longrightarrow> fs2 q = (if prefix q (packages (m_agent m)) then Some Dir else fs1 q)"
    by (rule install_until_rename [OF assms(1,2) unp p dir same]) (use assms(5) that in \<open>auto simp: tgt\<close>)
  have away: "apart (comps p) ?t"
    using assms(1) apart_temp [of "comps (tmp_dir env)" ?t t] by (simp add: can_install_def tgt p)
  have "fs2 (comps p @ q) = archive_tree es empty_dir q" for q
  proof -
    have "\<not> prefix ?t (comps p @ q)"
      using away apart_append [of ?t "comps p" q] by (simp add: apart_def)
    moreover have "\<not> prefix (comps p @ q) (packages (m_agent m))"
      using away by (auto simp: apart_def dest: append_prefixD)
    ultimately show ?thesis using rest tree by simp
  qed
  moreover obtain m' resp where inst: "install env body m = (m', resp)" by fastforce
  moreover note install_steps(2) [OF assms(2) unp inst refl mig]
  ultimately show ?thesis using gone by (auto simp: p)
qed

text \<open>An archive whose only entry climbs out of the temporary directory is unpacked and
  the request answered by 200: the entry is written to any place whose directory exists, over
  what a file there holds, outside of the package.\<close>

theorem climbing_entry_writes_anywhere:
  assumes "can_install env (req_name r) m" and "get_install_req env body = Inr r"
    and "\<forall>c. \<not> refuses env c"
    and "place \<noteq> []" and "\<forall>w\<in>set place. plain w"
    and "m_files m (butlast place) = Some Dir" and "m_files m place \<noteq> Some Dir"
    and "apart place (target (m_agent m) (req_name r))" and "\<not> prefix (comps (tmp_dir env)) place"
    and "unzip env (req_package r) =
           Some [\<lparr>e_name = join_with ''/'' (replicate (Suc (length (comps (tmp_dir env)))) ''..'' @ place),
                  e_dir = False, e_mode = mode, e_text = Some text, e_sound = True\<rparr>]"
  shows "\<exists>m'. install env body m = (m', Response 200 None) \<and>
           m_files m' place = Some (written_over (m_files m place) text mode)"
proof -
  let ?t = "target (m_agent m) (req_name r)"
  let ?e = "\<lparr>e_name = join_with ''/'' (replicate (Suc (length (comps (tmp_dir env)))) ''..'' @ place),
                  e_dir = False, e_mode = mode, e_text = Some text, e_sound = True\<rparr>"
  note can = assms(1) [unfolded can_install_def]
  obtain p t where p: "absolute p" "comps p = comps (tmp_dir env) @ [t]" "m_files m (comps p) = None"
    and unp: "unpack env r (m_files m) =
      (case write_files env p [?e] ((m_files m)(comps p \<mapsto> Dir)) of
         (fs2, Some e) \<Rightarrow> (fs2, Inl e) | (fs2, None) \<Rightarrow> (fs2, Inr p))"
    by (rule unpack_steps [OF _ _ assms(10), of "m_files m"]) (use can that in auto)
  have notp: "\<not> prefix (comps p) place" using assms(9) append_prefixD unfolding p(2) by blast
  have there: "comps (file_join [p, e_name ?e]) = place"
    using comps_climb [OF p(1) assms(4,5)] by (simp only: p(2) length_append_singleton entry.select_convs)
  define fs1 where
    "fs1 = (m_files m)(comps p \<mapsto> Dir, place \<mapsto> written_over (m_files m place) text mode)"
  have ne: "place \<noteq> comps p" "butlast place \<noteq> comps p"
    using notp prefixeq_butlast [of place] by auto
  have "write_file env ?e p ((m_files m)(comps p \<mapsto> Dir)) = (fs1, None)"
    using write_file_over [OF assms(3) _ _ _ there, of "text" "(m_files m)(comps p \<mapsto> Dir)"] assms(6,7) ne
    by (simp add: fs1_def)
  then have unp1: "unpack env r (m_files m) = (fs1, Inr p)" by (simp add: unp)
  have dir: "fs1 (comps p) = Some Dir" using notp by (auto simp: fs1_def)
  have others: "fs1 q = m_files m q"
    if "\<not> prefix (comps p) q" "prefix ?t q \<or> prefix q ?t" for q
    using that assms(8) by (auto simp: fs1_def apart_def)
  obtain fs2 where mig: "migrate (m_agent m) env r p fs1 =
         (\<lambda>q. if prefix ?t q then fs1 (comps p @ drop (length ?t) q)
               else if prefix (comps p) q then None else fs2 q, None)"
    and rest: "\<And>q. \<not> prefix ?t q \<Longrightarrow> fs2 q = (if prefix q (butlast ?t) then Some Dir else fs1 q)"
    by (rule install_until_rename [OF assms(1,2) unp1 p(2) dir others]) (use assms(3) that in auto)
  have "\<not> prefix place (butlast ?t)" "\<not> prefix ?t place"
    using assms(8) prefixeq_butlast prefix_order.trans unfolding apart_def by blast+
  moreover obtain m' resp where inst: "install env body m = (m', resp)" by fastforce
  moreover note install_steps(3) [OF assms(2) unp1 inst refl mig]
  ultimately show ?thesis using assms(3) notp rest [of place] by (auto simp: fs1_def)
qed

section \<open>A machine to try them on\<close>

definition demo_files :: files where
  "demo_files =
     [[] \<mapsto> Dir, [''tmp''] \<mapsto> Dir, [''home''] \<mapsto> Dir, [''home'', ''ann''] \<mapsto> Dir,
      [''home'', ''ann'', ''notes''] \<mapsto> File ''abcdef'' 420,
      [''home'', ''ann'', ''sa''] \<mapsto> Dir, [''home'', ''ann'', ''sa'', ''packages''] \<mapsto> Dir,
      [''home'', ''ann'', ''sa'', ''packages'', ''old''] \<mapsto> Dir]"

definition demo_machine :: machine where
  "demo_machine = \<lparr>m_agent = \<lparr>home_path = ''/home/ann'', qotd_addr = []\<rparr>,
     m_files = demo_files, m_started = []\<rparr>"

definition demo_request :: "string \<Rightarrow> install_req" where
  "demo_request n = \<lparr>req_name = n, req_package = ''zip'', req_binary = ''server'', req_args = [''-v'']\<rparr>"

definition demo_archive :: "entry list" where
  "demo_archive =
     [\<lparr>e_name = ''etc/'', e_dir = True, e_mode = 493, e_text = None, e_sound = True\<rparr>,
      \<lparr>e_name = ''etc/conf'', e_dir = False, e_mode = 420, e_text = Some ''x'', e_sound = True\<rparr>,
      \<lparr>e_name = ''server'', e_dir = False, e_mode = 493, e_text = Some ''ELF'', e_sound = True\<rparr>]"

definition climbing_archive :: "entry list" where
  "climbing_archive =
     [\<lparr>e_name = ''../../home/ann/notes'', e_dir = False, e_mode = 420, e_text = Some ''own'', e_sound = True\<rparr>]"

definition demo_install_env :: "(os_call \<Rightarrow> bool) \<Rightarrow> string \<Rightarrow> entry list \<Rightarrow> agent_env" where
  "demo_install_env no n es = \<lparr>refuses = no, tmp_dir = ''/tmp'', draws = [7],
     decode_req = \<lambda>_. Some (demo_request n), unzip = \<lambda>_. Some es\<rparr>"

lemma demo_tree: "files_ok demo_files"
  by (auto simp: files_ok_def demo_files_def append_eq_Cons_conv split: if_splits)

lemma demo_comps:
  "comps ''/tmp'' = [''tmp'']" "comps ''/home/ann'' = [''home'', ''ann'']"
  "comps ''etc/'' = [''etc'']" "comps ''etc/conf'' = [''etc'', ''conf'']" "comps ''server'' = [''server'']"
  by (simp_all add: comps_def)

lemma demo_packages: "packages (m_agent demo_machine) = [''home'', ''ann'', ''sa'', ''packages'']"
  by (simp add: packages_eq demo_machine_def absolute_def demo_comps)

lemma demo_target:
  "CHR ''/'' \<notin> set n \<Longrightarrow> target (m_agent demo_machine) n =
     clean_parts True [n] (rev [''home'', ''ann'', ''sa'', ''packages''])"
  using demo_packages by (simp add: target_eq demo_machine_def absolute_def)

lemma demo_request_ok: "n \<noteq> [] \<Longrightarrow> get_install_req (demo_install_env no n es) (Some b) = Inr (demo_request n)"
  by (simp add: get_install_req_def demo_install_env_def demo_request_def validate_install_def)

lemma demo_install_env_simps [simp]:
  "refuses (demo_install_env no n es) = no" "unzip (demo_install_env no n es) b = Some es"
  "tmp_dir (demo_install_env no n es) = ''/tmp''" "draws (demo_install_env no n es) = [7]"
  "req_name (demo_request n) = n" "req_binary (demo_request n) = ''server''"
  by (simp_all add: demo_install_env_def demo_request_def)

lemma demo_archive_ok: "unpackable demo_archive empty_dir"
  by (simp add: demo_archive_def demo_comps entry_node_def local_name_def)

lemma demo_can_install:
  assumes "n \<in> {''web'', ''.'', ''..''}" and "no \<in> {\<lambda>_. False, \<lambda>c. \<exists>p q. c = CRename p q}"
  shows "can_install (demo_install_env no n es) n demo_machine"
proof -
  have "can_unpack (demo_install_env no n es) n demo_files"
    using assms(2) by (auto simp: can_unpack_def absolute_def files_allowed_def demo_comps demo_files_def)
  moreover have "no_file_on (butlast (target (m_agent demo_machine) n)) demo_files"
    "target (m_agent demo_machine) n \<noteq> []" "apart [''tmp''] (target (m_agent demo_machine) n)" "CHR ''/'' \<notin> set n"
    using assms(1) by (auto simp: demo_target no_file_on_def demo_files_def apart_def)
  ultimately show ?thesis
    using demo_tree by (simp add: can_install_def demo_comps absolute_def) (simp add: demo_machine_def)
qed

lemma demo_tree_at:
  "archive_tree demo_archive empty_dir [''etc'', ''conf''] = Some (File ''x'' 420)"
  "archive_tree demo_archive empty_dir [''old''] = None"
  by (simp_all add: demo_archive_def demo_comps entry_node_def)

lemma demo_machine_at:
  "m_files demo_machine [''home'', ''ann'', ''notes''] = Some (File ''abcdef'' 420)"
  "m_files demo_machine [''home'', ''ann'', ''sa'', ''packages'', ''old''] = Some Dir"
  by (simp_all add: demo_machine_def demo_files_def)

lemma demo_server_plain: "plain ''server''" "plain ''web''"
  by (simp_all add: plain_def)


lemma dotted_name_replaces_all_packages_witness:
  "\<exists>m'. install (demo_install_env (\<lambda>_. False) ''.'' demo_archive) (Some []) demo_machine = (m', Response 200 None) \<and>
     m_files m' [''home'', ''ann'', ''sa'', ''packages'', ''old''] = None \<and>
     m_files demo_machine [''home'', ''ann'', ''sa'', ''packages'', ''old''] = Some Dir"
proof -
  let ?r = "demo_request ''.''" and ?env = "demo_install_env (\<lambda>_. False) ''.'' demo_archive"
  obtain m' where run: "install ?env (Some []) demo_machine = (m', Response 200 None)"
    and new: "\<forall>q. m_files m' (packages (m_agent demo_machine) @ q) = archive_tree demo_archive empty_dir q"
    using dotted_name_replaces_all_packages [of ?env ?r demo_machine "Some []" demo_archive]
      demo_can_install [of "''.''" "\<lambda>_. False" demo_archive] demo_request_ok demo_archive_ok
    by auto
  have "m_files m' [''home'', ''ann'', ''sa'', ''packages'', ''old''] = None"
    using spec [OF new, of "[''old'']"] by (simp only: demo_packages demo_tree_at append.simps)
  with run show ?thesis using demo_machine_at by blast
qed

lemma refused_rename_loses_package_witness:
  "\<exists>m'. install (demo_install_env (\<lambda>c. \<exists>p q. c = CRename p q) ''web'' demo_archive) (Some []) demo_machine =
       (m', Response 400 (Some (Fs Refused))) \<and>
     m_files m' [''home'', ''ann'', ''sa'', ''packages'', ''web''] = None"
proof -
  let ?no = "\<lambda>c. \<exists>p q. c = CRename p q"
  let ?r = "demo_request ''web''" and ?env = "demo_install_env ?no ''web'' demo_archive"
  obtain m' where "install ?env (Some []) demo_machine = (m', Response 400 (Some (Fs Refused)))"
    "\<forall>q. m_files m' (packages (m_agent demo_machine) @ ''web'' # q) = None"
    using refused_rename_loses_package [of ?env ?r demo_machine "Some []" demo_archive]
      demo_can_install [of "''web''" ?no demo_archive] demo_request_ok demo_archive_ok demo_server_plain
    by auto
  then show ?thesis by (intro exI [of _ m']) (auto simp: demo_packages dest: spec [of _ "[]"])
qed

lemma climbing_entry_writes_anywhere_witness:
  "\<exists>m'. install (demo_install_env (\<lambda>_. False) ''web'' climbing_archive) (Some []) demo_machine = (m', Response 200 None) \<and>
     m_files m' [''home'', ''ann'', ''notes''] = Some (File ''owndef'' 420)"
proof -
  let ?r = "demo_request ''web''" and ?env = "demo_install_env (\<lambda>_. False) ''web'' climbing_archive"
  have "apart [''home'', ''ann'', ''notes''] (target (m_agent demo_machine) ''web'')"
    by (simp add: demo_target apart_def)
  then show ?thesis
    using climbing_entry_writes_anywhere
        [of ?env ?r demo_machine "Some []" "[''home'', ''ann'', ''notes'']" 420 "''own''"]
      demo_can_install [of "''web''" "\<lambda>_. False" climbing_archive] demo_request_ok
    by (simp add: demo_comps climbing_archive_def demo_machine_def demo_files_def plain_def
        written_over_def numeral_2_eq_2)
qed

lemma install_contained_witness:
  "\<exists>m' resp. install (demo_install_env (\<lambda>_. False) ''web'' demo_archive) (Some []) demo_machine = (m', resp) \<and>
     m_files m' [''home'', ''ann'', ''notes''] = Some (File ''abcdef'' 420)"
proof -
  let ?r = "demo_request ''web''" and ?env = "demo_install_env (\<lambda>_. False) ''web'' demo_archive"
  obtain m' resp where run: "install ?env (Some []) demo_machine = (m', resp)" by fastforce
  have "files_ok (m_files demo_machine)" "absolute (home_path (m_agent demo_machine))" "absolute (tmp_dir ?env)"
    using demo_tree by (simp_all add: demo_machine_def absolute_def)
  moreover have "\<forall>e\<in>set es. local_name (e_name e)" if "unzip ?env (req_package ?r) = Some es" for es
    using that demo_archive_ok unpackable_local by auto
  ultimately have "m_files m' [''home'', ''ann'', ''notes''] = Some (File ''abcdef'' 420)"
    using install_contained [of demo_machine ?env "Some []" ?r m' resp] run demo_machine_at demo_request_ok demo_server_plain
    by (simp add: demo_packages)
  with run show ?thesis by blast
qed

end
