(* ===== verification/Agent_Client.thy ===== *)
theory Agent_Client
  imports Agent_Results
begin

text \<open>
  The start of the system agent (\<open>New\<close> in \<open>agent/service/service.go\<close>), its client
  (\<open>agent/client/client.go\<close>) and the command that installs a package
  (\<open>agent/client/cli/cmd/install.go\<close>), composed with the handler of installations. JSON
  encoding, files and the network answer through arguments.
\<close>

section \<open>The agent\<close>

definition agent_home :: "string \<Rightarrow> string \<Rightarrow> string option" where
  "agent_home goos user =
     (if goos = ''linux'' then Some (file_join [''/home'', user])
      else if goos = ''darwin'' then Some (file_join [''/Users'', user])
      else None)"

definition new_agent :: "string option \<Rightarrow> string \<Rightarrow> string \<Rightarrow> bool \<Rightarrow> (agent \<times> string) option" where
  "new_agent user goos addr perf_fails =
     (case user of
        None \<Rightarrow> None
      | Some u \<Rightarrow>
          (let addr' = (if addr = [] then ''localhost:8080'' else addr) in
           case agent_home goos u of
             None \<Rightarrow> None
           | Some h \<Rightarrow>
               if perf_fails then None else Some (\<lparr>home_path = h, qotd_addr = []\<rparr>, addr')))"

lemma agent_home_absolute: "agent_home goos user = Some h \<Longrightarrow> absolute h"
  by (auto simp: agent_home_def absolute_def file_join_absolute abs_path_def split: if_splits)

section \<open>The client\<close>

datatype agent_client_err =
    Marshal_Failed | Url_Failed | Transport_Failed | Answer_Unreadable | Answer_Undecodable
  | Install_Failed "install_err option"

text \<open>What becomes of a request: it does not arrive, its answer is lost, or it is answered.\<close>

datatype delivery = Undelivered | Answer_Lost | Answered

record wire =
  encode_req :: "install_req \<Rightarrow> string option"
  url_ok :: "string \<Rightarrow> bool"
  delivers :: delivery
  body_readable :: bool
  body_decodable :: bool

definition client_install ::
    "wire \<Rightarrow> string \<Rightarrow> agent_env \<Rightarrow> install_req \<Rightarrow> machine \<Rightarrow> machine \<times> (agent_client_err + unit)" where
  "client_install w endpoint env r m =
     (case encode_req w r of
        None \<Rightarrow> (m, Inl Marshal_Failed)
      | Some b \<Rightarrow>
          if \<not> url_ok w (''http://'' @ endpoint @ ''/api/v1.0.0/install'') then (m, Inl Url_Failed)
          else (case delivers w of
             Undelivered \<Rightarrow> (m, Inl Transport_Failed)
           | Answer_Lost \<Rightarrow> (fst (install env (Some b) m), Inl Transport_Failed)
           | Answered \<Rightarrow>
               (case install env (Some b) m of
                  (m', Response status e) \<Rightarrow>
                    (m', if status \<noteq> 200 then
                           (if \<not> body_readable w then Inl Answer_Unreadable
                            else if \<not> body_decodable w then Inl Answer_Undecodable
                            else Inl (Install_Failed e))
                         else Inr ()))))"

section \<open>The command\<close>

datatype exit_code = Done | Failed_Args | Not_Zip | No_File | Install_Error agent_client_err

definition install_cmd ::
    "wire \<Rightarrow> agent_env \<Rightarrow> (string \<Rightarrow> string option) \<Rightarrow> string list \<Rightarrow> machine \<Rightarrow> machine \<times> exit_code" where
  "install_cmd w env read_file args m =
     (if length args \<noteq> 4 then (m, Failed_Args)
      else if \<not> suffix ''.zip'' (args ! 2) then (m, Not_Zip)
      else (case read_file (args ! 2) of
              None \<Rightarrow> (m, No_File)
            | Some b \<Rightarrow>
                (case client_install w (args ! 0) env
                        \<lparr>req_name = args ! 1, req_package = b, req_binary = args ! 3, req_args = []\<rparr> m of
                   (m', Inl e) \<Rightarrow> (m', Install_Error e)
                 | (m', Inr _) \<Rightarrow> (m', Done))))"

text \<open>The two ends of the wire agree: what is encoded decodes, and nothing shorter does, as for
  every JSON object.\<close>

definition wire_ok :: "wire \<Rightarrow> agent_env \<Rightarrow> bool" where
  "wire_ok w env \<longleftrightarrow> (\<forall>r b. encode_req w r = Some b \<longrightarrow>
     decode_req env b = Some r \<and> (\<forall>k<length b. decode_req env (take k b) = None))"

lemma sent_request:
  assumes "wire_ok w env" and "encode_req w r = Some b"
  shows "get_install_req env (Some b) =
           (if max_install_size < length b then Inl Unmarshal
            else case validate_install r of Some e \<Rightarrow> Inl e | None \<Rightarrow> Inr r)"
  using assms by (auto simp: wire_ok_def get_install_req_def)


definition demo_sent :: install_req where
  "demo_sent = \<lparr>req_name = ''web'', req_package = ''zip'', req_binary = ''server'', req_args = []\<rparr>"

definition demo_wire :: wire where
  "demo_wire = \<lparr>encode_req = \<lambda>r. if r = demo_sent then Some ''{}'' else None, url_ok = \<lambda>_. True,
     delivers = Answered, body_readable = True, body_decodable = True\<rparr>"

definition demo_agent_env :: agent_env where
  "demo_agent_env = (demo_install_env (\<lambda>_. False) ''web'' demo_archive)
     \<lparr>decode_req := \<lambda>b. if b = ''{}'' then Some demo_sent else None\<rparr>"

definition demo_disk :: "string \<Rightarrow> string option" where
  "demo_disk p = (if p = ''q.zip'' then Some ''zip'' else None)"

lemma can_install_decode: "can_install (env\<lparr>decode_req := d\<rparr>) n m = can_install env n m"
  by (simp add: can_install_def can_unpack_def files_allowed_def)


end
