(* ===== verification/Agent_Perf.thy ===== *)
theory Agent_Perf
  imports Go_Path "HOL-Library.Word"
begin

text \<open>
  The figures of the monitor of the system agent (\<open>agent/service/sysmon_others.go\<close>,
  \<open>sysmon_darwin.go\<close>): the collectors for processors and memory, and the parser of the
  output of \<open>vm_stat\<close>. What the system and its commands answer is an argument.
\<close>

section \<open>Figures\<close>

text \<open>Shares of time are floating point numbers, which the code copies and never computes with.\<close>

record 'f cpu_perf =
  cpu_id :: string
  cpu_user :: 'f
  cpu_system :: 'f
  cpu_idle :: 'f
  cpu_iowait :: 'f
  cpu_irq :: 'f

record 'f cpu_perfs =
  cpus_resolution :: "32 word"
  cpus_time :: "64 word"
  cpus :: "'f cpu_perf list"

record mem_perf =
  mem_resolution :: "32 word"
  mem_time :: "64 word"
  mem_total :: "64 word"
  mem_free :: "64 word"
  mem_avail :: "64 word"

definition resolution_secs :: "32 word" where
  "resolution_secs = 10"

section \<open>Collectors for other systems than Darwin\<close>

text \<open>What the library reports for one processor, and for the memory.\<close>

record 'f times_stat =
  ts_cpu :: string
  ts_user :: 'f
  ts_system :: 'f
  ts_idle :: 'f
  ts_iowait :: 'f
  ts_irq :: 'f

definition cpu_of_stat :: "'f times_stat \<Rightarrow> 'f cpu_perf" where
  "cpu_of_stat s =
     \<lparr>cpu_id = ts_cpu s, cpu_user = ts_user s, cpu_system = ts_system s, cpu_idle = ts_idle s,
      cpu_iowait = ts_iowait s, cpu_irq = ts_irq s\<rparr>"

text \<open>A collector leaves the figures it cannot replace; the flag says whether it failed.\<close>

definition collect_cpu ::
    "'f times_stat list option \<Rightarrow> 64 word \<Rightarrow> 'f cpu_perfs option \<Rightarrow> 'f cpu_perfs option \<times> bool" where
  "collect_cpu stats now old =
     (case stats of
        None \<Rightarrow> (old, True)
      | Some ss \<Rightarrow>
          (Some \<lparr>cpus_resolution = resolution_secs, cpus_time = now, cpus = map cpu_of_stat ss\<rparr>, False))"

definition collect_mem ::
    "(64 word \<times> 64 word \<times> 64 word) option \<Rightarrow> 32 word \<Rightarrow> 64 word \<Rightarrow> mem_perf option \<Rightarrow>
     mem_perf option \<times> bool" where
  "collect_mem stats resolution now old =
     (case stats of
        None \<Rightarrow> (old, True)
      | Some (all, free, avail) \<Rightarrow>
          (Some \<lparr>mem_resolution = resolution, mem_time = now, mem_total = all, mem_free = free,
                 mem_avail = avail\<rparr>, False))"

section \<open>The output of vm-stat\<close>

definition is_digit :: "char \<Rightarrow> bool" where
  "is_digit c \<longleftrightarrow> digit_val c \<noteq> None"

text \<open>The first match of \<open>page size of (\d+) bytes\<close>, as its digits.\<close>

definition page_size_here :: "string \<Rightarrow> string option" where
  "page_size_here s =
     (if prefix ''page size of '' s
      then let rest = drop (length ''page size of '') s; ds = takeWhile is_digit rest
           in if ds \<noteq> [] \<and> prefix '' bytes'' (drop (length ds) rest) then Some ds else None
      else None)"

fun find_page_size :: "string \<Rightarrow> string option" where
  "find_page_size [] = None"
| "find_page_size (c # cs) =
     (case page_size_here (c # cs) of Some ds \<Rightarrow> Some ds | None \<Rightarrow> find_page_size cs)"

datatype vm_error = Empty_Output | Bad_Header string | Bad_Page_Size string | Bad_Line string | Bad_Number string

definition mem_total_prefix :: string where
  "mem_total_prefix = ''Mach Virtual Memory Statistics''"

definition trim_suffix :: "string \<Rightarrow> string \<Rightarrow> string" where
  "trim_suffix s suf = (if suffix suf s then take (length s - length suf) s else s)"

fun vm_lines :: "string list \<Rightarrow> (string, int) gomap \<Rightarrow> vm_error + (string, int) gomap" where
  "vm_lines [] m = Inr m"
| "vm_lines (l # ls) m =
     (let b = trim_space l in
      if b = [] then vm_lines ls m
      else if prefix mem_total_prefix b then
        (case find_page_size b of
           None \<Rightarrow> Inl (Bad_Header b)
         | Some ds \<Rightarrow>
             (case atoi ds of
                (n, bad) \<Rightarrow> if bad then Inl (Bad_Page_Size b) else vm_lines ls (gput ''Page size'' n m)))
      else
        (case split_on (CHR '':'') b of
           [a, v] \<Rightarrow>
             (case atoi (trim_space (trim_suffix v ''.'')) of
                (n, bad) \<Rightarrow> if bad then Inl (Bad_Number v) else vm_lines ls (gput (trim_space a) n m))
         | _ \<Rightarrow> Inl (Bad_Line b)))"

definition vm_stat_to_map :: "string \<Rightarrow> vm_error + (string, int) gomap" where
  "vm_stat_to_map output =
     (if length output = 0 then Inl Empty_Output else vm_lines (split_on (CHR 0x0A) output) [])"

definition go_get :: "(string, int) gomap \<Rightarrow> string \<Rightarrow> int" where
  "go_get m k = (case map_of m k of None \<Rightarrow> 0 | Some n \<Rightarrow> n)"

datatype calc_error = No_Pages_Free | No_Page_Size

text \<open>Products of \<open>int\<close> and the conversion to \<open>uint64\<close> are modulo \<open>2 ^ 64\<close>.\<close>

definition calc_perf :: "64 word \<Rightarrow> int \<Rightarrow> (string, int) gomap \<Rightarrow> calc_error + mem_perf" where
  "calc_perf now memory stats =
     (if go_get stats ''Pages free'' = 0 then Inl No_Pages_Free
      else if go_get stats ''Page size'' = 0 then Inl No_Page_Size
      else Inr \<lparr>mem_resolution = resolution_secs, mem_time = now, mem_total = word_of_int memory,
                mem_free = word_of_int (go_get stats ''Pages free'' * go_get stats ''Page size''),
                mem_avail = 0\<rparr>)"

text \<open>The size of the memory, read once from \<open>sysctl\<close>; anything else ends the program.\<close>

definition total_memory :: "string option \<Rightarrow> int option" where
  "total_memory output =
     (case output of
        None \<Rightarrow> None
      | Some b \<Rightarrow>
          (case split_on (CHR '':'') b of
             [_, v] \<Rightarrow> (case atoi (trim_space v) of (n, bad) \<Rightarrow> if bad then None else Some n)
           | _ \<Rightarrow> None))"

section \<open>Reading back what vm-stat writes\<close>

definition clean_ends :: "string \<Rightarrow> bool" where
  "clean_ends s \<longleftrightarrow> list_all (\<lambda>w. \<not> prefix w s \<and> \<not> suffix w s) white_runes"

lemma trim_clean: "clean_ends s \<Longrightarrow> trim_space s = s"
proof -
  assume clean: "clean_ends s"
  then have "strip_front white_runes s = s"
    by (intro strip_front_fixed) (auto simp: clean_ends_def list_all_iff)
  moreover have "strip_front (map rev white_runes) (rev s) = rev s"
    using clean by (intro strip_front_fixed) (auto simp: clean_ends_def list_all_iff suffix_to_prefix)
  ultimately show ?thesis by (simp add: trim_space_def)
qed

definition visible :: "char \<Rightarrow> bool" where
  "visible c \<longleftrightarrow> 32 < (of_char c :: nat) \<and> (of_char c :: nat) < 127"

lemma white_not_visible: "w \<in> set white_runes \<Longrightarrow> c \<in> set w \<Longrightarrow> \<not> visible c"
  by (auto simp: white_runes_def visible_def)

text \<open>A text is clean when it begins and ends with visible characters; more generally, white
  space cannot reach beyond one.\<close>

lemma prefix_before: "c \<notin> set w \<Longrightarrow> prefix w (a @ c # b) \<Longrightarrow> prefix w a"
  by (auto simp: prefix_append prefix_Cons)

lemma prefix_stops: "visible c \<Longrightarrow> w \<in> set white_runes \<Longrightarrow> prefix w (a @ c # b) \<Longrightarrow> prefix w a"
  using white_not_visible by (intro prefix_before [of c w a b]) auto

lemma clean_between:
  assumes "clean_ends a" and "a \<noteq> []" and "visible c" and "visible d"
  shows "clean_ends (a @ c # b @ [d])"
proof -
  have "\<not> suffix w (a @ c # b @ [d])" if w: "w \<in> set white_runes" for w
  proof
    assume "suffix w (a @ c # b @ [d])"
    moreover have "w \<noteq> []" using w by (rule white_runes_nonempty)
    ultimately have "d \<in> set w" by (cases w rule: rev_cases) (auto simp: suffix_def)
    with w assms(4) white_not_visible show False by blast
  qed
  moreover have "\<not> prefix w (a @ c # b @ [d])" if "w \<in> set white_runes" for w
    using prefix_stops [OF assms(3) that, of a "b @ [d]"] assms(1) that by (auto simp: clean_ends_def list_all_iff)
  ultimately show ?thesis by (simp add: clean_ends_def list_all_iff)
qed

lemma strip_visible: "visible c \<Longrightarrow> strip_front white_runes (c # s) = c # s"
  by (rule strip_front_fixed) (use prefix_stops [of c _ "[]" s] in auto)

lemma strip_visible_rev: "visible c \<Longrightarrow> strip_front (map rev white_runes) (c # s) = c # s"
proof (rule strip_front_fixed)
  fix w assume "visible c" "w \<in> set (map rev white_runes)" "w \<noteq> []"
  moreover then obtain v where "v \<in> set white_runes" "w = rev v" by auto
  ultimately show "\<not> prefix w (c # s)"
    using white_not_visible [of v c] by (auto simp: prefix_Cons)
qed

lemma strip_blanks: "strip_front white_runes (replicate k (CHR '' '') @ s) = strip_front white_runes s"
proof (induction k)
  case (Suc k)
  have "find (\<lambda>w. w \<noteq> [] \<and> prefix w (CHR '' '' # x)) white_runes = Some '' ''" for x
    by (simp add: white_runes_def)
  then have "strip_front white_runes (CHR '' '' # x) = strip_front white_runes x" for x
    by (subst strip_front.simps) simp
  with Suc show ?case by simp
qed simp

lemma trim_blanks:
  assumes "s \<noteq> []" and "visible (hd s)" and "visible (last s)"
  shows "trim_space (replicate k (CHR '' '') @ s) = s"
proof -
  have "strip_front white_runes s = s"
    using strip_visible [OF assms(2), of "tl s"] assms(1) by simp
  moreover have "strip_front (map rev white_runes) (rev s) = rev s"
    using strip_visible_rev [OF assms(3), of "tl (rev s)"] assms(1)
    by (simp add: hd_rev [symmetric] del: hd_rev)
  ultimately show ?thesis by (simp add: trim_space_def strip_blanks)
qed

lemma digit_visible: "digit_val c \<noteq> None \<Longrightarrow> visible c"
  by (auto simp: digit_val_def visible_def split: if_splits)

lemma itoa_visible: "c \<in> set (itoa i) \<Longrightarrow> visible c"
  using itoa_no_char [of c i] digit_visible [of c]
  by (cases "digit_val c = None"; cases "c = CHR ''-''") (auto simp: visible_def)

definition vm_line :: "string \<times> nat \<times> int \<Rightarrow> string" where
  "vm_line e = (case e of (a, k, n) \<Rightarrow> a @ '':'' @ replicate k (CHR '' '') @ itoa n @ ''.'')"

definition vm_header :: "nat \<Rightarrow> string" where
  "vm_header pg = mem_total_prefix @ '': (page size of '' @ dec_nat pg @ '' bytes)''"

definition vm_text :: "nat \<Rightarrow> (string \<times> nat \<times> int) list \<Rightarrow> string" where
  "vm_text pg es = join_with [CHR 0x0A] (vm_header pg # map vm_line es)"

definition vm_entry_ok :: "string \<times> nat \<times> int \<Rightarrow> bool" where
  "vm_entry_ok e \<longleftrightarrow> (case e of (a, k, n) \<Rightarrow>
     a \<noteq> [] \<and> clean_ends a \<and> CHR '':'' \<notin> set a \<and> CHR 0x0A \<notin> set a \<and>
     \<not> prefix mem_total_prefix a \<and> - (2 ^ 63) \<le> n \<and> n \<le> 2 ^ 63 - 1)"

lemma itoa_plain: "CHR '':'' \<notin> set (itoa n)" "CHR 0x0A \<notin> set (itoa n)"
  by (rule itoa_no_char; simp add: digit_val_def)+

lemma vm_line_step:
  assumes "vm_entry_ok (a, k, n)"
  shows "vm_lines (vm_line (a, k, n) # ls) m = vm_lines ls (gput a n m)"
proof -
  let ?v = "replicate k (CHR '' '') @ itoa n @ ''.''"
  note ok = assms [unfolded vm_entry_ok_def, simplified]
  have line: "vm_line (a, k, n) = a @ CHR '':'' # (replicate k (CHR '' '') @ itoa n) @ [CHR ''.'']"
    by (simp add: vm_line_def)
  have trim: "trim_space (vm_line (a, k, n)) = vm_line (a, k, n)"
    unfolding line by (rule trim_clean, rule clean_between) (use ok in \<open>auto simp: visible_def\<close>)
  have split: "split_on (CHR '':'') (vm_line (a, k, n)) = [a, ?v]"
    using ok itoa_plain [of n] by (simp add: line split_on_append)
  have "\<not> prefix mem_total_prefix (vm_line (a, k, n))"
  proof
    assume "prefix mem_total_prefix (vm_line (a, k, n))"
    then have "prefix mem_total_prefix a"
      unfolding line by (rule prefix_before [rotated]) (simp add: mem_total_prefix_def)
    with ok show False by simp
  qed
  moreover have "vm_line (a, k, n) \<noteq> []" by (simp add: line)
  moreover have "trim_suffix ?v ''.'' = replicate k (CHR '' '') @ itoa n"
    by (simp add: trim_suffix_def suffix_def)
  moreover have "trim_space (replicate k (CHR '' '') @ itoa n) = itoa n"
    by (rule trim_blanks) (simp_all add: itoa_visible [of _ n])
  ultimately show ?thesis
    using ok trim_clean [of a] by (simp add: trim split atoi_itoa Let_def)
qed

lemma dec_nat_itoa: "dec_nat n = itoa (int n)"
  by (simp add: itoa_def)

lemma vm_header_step:
  assumes "int pg \<le> 2 ^ 63 - 1"
  shows "vm_lines (vm_header pg # ls) m = vm_lines ls (gput ''Page size'' (int pg) m)"
proof -
  have text_eq: "vm_header pg = ''M'' @ CHR ''a'' # (tl (tl mem_total_prefix) @ '': (page size of '' @ dec_nat pg @ '' bytes'') @ [CHR '')'']"
    by (simp add: vm_header_def mem_total_prefix_def)
  have trim: "trim_space (vm_header pg) = vm_header pg"
    unfolding text_eq by (rule trim_clean, rule clean_between)
      (simp_all add: visible_def clean_ends_def white_runes_def suffix_to_prefix)
  have "takeWhile is_digit (dec_nat pg @ '' bytes)'') = dec_nat pg"
    using digit_val_Some_of_dec [of _ pg] by (subst takeWhile_append2) (auto simp: is_digit_def digit_val_def)
  then have "find_page_size (vm_header pg) = Some (dec_nat pg)"
    by (simp add: vm_header_def mem_total_prefix_def page_size_here_def Let_def)
  moreover have "prefix mem_total_prefix (vm_header pg)" "vm_header pg \<noteq> []"
    by (simp_all add: vm_header_def mem_total_prefix_def)
  moreover have "atoi (dec_nat pg) = (int pg, False)"
    using assms by (simp add: dec_nat_itoa atoi_itoa)
  ultimately show ?thesis by (simp add: trim Let_def)
qed

lemma calc_perf_free:
  assumes "go_get m ''Pages free'' \<noteq> 0" and "go_get m ''Page size'' \<noteq> 0"
  shows "\<exists>p. calc_perf now memory m = Inr p \<and>
           uint (mem_free p) = go_get m ''Pages free'' * go_get m ''Page size'' mod 2 ^ 64"
proof -
  define k where "k = go_get m ''Pages free'' * go_get m ''Page size''"
  have "uint (word_of_int k :: 64 word) = k mod 2 ^ 64" by (simp add: uint_word_of_int)
  with assms show ?thesis unfolding calc_perf_def k_def [symmetric] by simp
qed

lemma vm_stat_to_map_text:
  assumes "int pg \<le> 2 ^ 63 - 1" and "\<forall>e\<in>set es. vm_entry_ok e"
  shows "vm_stat_to_map (vm_text pg es) = Inr (foldl (\<lambda>m (a, k, n). gput a n m) [(''Page size'', int pg)] es)"
proof -
  have lines: "vm_lines (map vm_line es) m = Inr (foldl (\<lambda>m (a, k, n). gput a n m) m es)" for m
    using assms(2)
  proof (induction es arbitrary: m)
    case (Cons e es)
    obtain a k n where "e = (a, k, n)" by (cases e)
    with Cons vm_line_step show ?case by simp
  qed simp
  have "\<forall>w\<in>set (vm_header pg # map vm_line es). CHR 0x0A \<notin> set w"
    using assms(2) itoa_plain
    by (auto simp: vm_header_def mem_total_prefix_def dec_nat_itoa vm_line_def vm_entry_ok_def)
  then have "split_on (CHR 0x0A) (vm_text pg es) = vm_header pg # map vm_line es"
    unfolding vm_text_def by (intro split_on_join) simp
  moreover have "vm_text pg es \<noteq> []"
    by (cases es) (simp_all add: vm_text_def vm_header_def mem_total_prefix_def)
  ultimately show ?thesis
    using vm_header_step [OF assms(1)] lines by (simp add: vm_stat_to_map_def)
qed

text \<open>C0: What \<open>vm_stat\<close> prints is read back exactly: every line becomes an entry under its
  name and the header the size of a page, however the numbers are aligned; and the free memory
  reported is the number of free pages times that size, modulo \<open>2 ^ 64\<close>.\<close>

theorem vm_stat_read_back:
  assumes "int pg \<le> 2 ^ 63 - 1" and "\<forall>e\<in>set es. vm_entry_ok e"
  shows "\<exists>m. vm_stat_to_map (vm_text pg es) = Inr m \<and>
           m = foldl (\<lambda>m (a, k, n). gput a n m) [(''Page size'', int pg)] es \<and>
           (go_get m ''Pages free'' \<noteq> 0 \<and> go_get m ''Page size'' \<noteq> 0 \<longrightarrow>
              (\<exists>p. calc_perf now memory m = Inr p \<and>
                 uint (mem_free p) = go_get m ''Pages free'' * go_get m ''Page size'' mod 2 ^ 64))"
  using vm_stat_to_map_text [OF assms] calc_perf_free by blast

lemma vm_stat_read_back_witness:
  "\<exists>p m. vm_stat_to_map (vm_text 16384 [(''Pages free'', 30, 96637)]) = Inr m \<and>
     calc_perf 0 0 m = Inr p \<and> uint (mem_free p) = 1583300608"
proof -
  have "\<forall>e\<in>set [(''Pages free'', 30, 96637)]. vm_entry_ok e"
    by (simp add: vm_entry_ok_def clean_ends_def white_runes_def mem_total_prefix_def suffix_to_prefix)
  from vm_stat_read_back [OF _ this, of 16384 0 0] show ?thesis
    by (auto simp: go_get_def)
qed

end
