(* ===== verification/Agent_Monitor.thy ===== *)
theory Agent_Monitor
  imports Agent_Perf
begin

text \<open>
  The loop of the monitor (\<open>agent/service/sysmon.go\<close>): rounds of a collector for the
  processors and one for the memory, of which the last good figures are served. The
  collectors are those of one of the two build variants, so the loop takes them as
  arguments and its lemmas are proved once for what both promise; and the processor
  collector of \<open>sysmon_darwin.go\<close>, with its parser of the output of \<open>top\<close>.
\<close>

section \<open>The loop\<close>

record 'f monitor =
  cpu_data :: "'f cpu_perfs option"
  mem_data :: "mem_perf option"
  published :: bool

text \<open>A collector leaves the figures it cannot replace; the flag says whether it failed.\<close>

type_synonym ('a, 'd) collector = "'a \<Rightarrow> 'd option \<Rightarrow> 'd option \<times> bool"

definition perf_round :: "('a, 'f cpu_perfs) collector \<Rightarrow> ('a, mem_perf) collector
    \<Rightarrow> 'a \<Rightarrow> 'f monitor \<Rightarrow> 'f monitor" where
  "perf_round cc cm a m =
     m\<lparr>cpu_data := fst (cc a (cpu_data m)), mem_data := fst (cm a (mem_data m))\<rparr>"

text \<open>The first round is made before anything is published, and its errors are those of \<open>New\<close>.\<close>

definition perf_start :: "('a, 'f cpu_perfs) collector \<Rightarrow> ('a, mem_perf) collector
    \<Rightarrow> 'a \<Rightarrow> 'f monitor option" where
  "perf_start cc cm a =
     (let (c, bad_cpu) = cc a None in
      if bad_cpu then None
      else let (d, bad_mem) = cm a None in
        if bad_mem then None
        else Some \<lparr>cpu_data = c, mem_data = d, published = True\<rparr>)"

fun perf_rounds :: "('a, 'f cpu_perfs) collector \<Rightarrow> ('a, mem_perf) collector
    \<Rightarrow> 'a list \<Rightarrow> 'f monitor \<Rightarrow> 'f monitor" where
  "perf_rounds cc cm [] m = m"
| "perf_rounds cc cm (a # as) m = perf_rounds cc cm as (perf_round cc cm a m)"

lemma perf_rounds_snoc: "perf_rounds cc cm (as @ [a]) m = perf_round cc cm a (perf_rounds cc cm as m)"
  by (induction as arbitrary: m) simp_all

fun last_good :: "('a \<Rightarrow> 'b option) \<Rightarrow> 'a list \<Rightarrow> 'b option" where
  "last_good f [] = None"
| "last_good f (a # as) = (case last_good f as of Some b \<Rightarrow> Some b | None \<Rightarrow> f a)"

lemma last_good_snoc: "last_good f (as @ [a]) = (case f a of Some b \<Rightarrow> Some b | None \<Rightarrow> last_good f as)"
  by (induction as) (auto split: option.splits)

lemma last_good_some: "f a \<noteq> None \<Longrightarrow> last_good f (a # as) \<noteq> None"
  by (auto split: option.splits)

text \<open>
  The contract of the collectors: each has a reading of what the system answers in a
  round, stores it when there is one, and otherwise fails and leaves the old figures.
\<close>

locale collectors =
  fixes cc :: "('a, 'f cpu_perfs) collector" and cm :: "('a, mem_perf) collector"
    and rc :: "'a \<Rightarrow> 'f cpu_perfs option" and rm :: "'a \<Rightarrow> mem_perf option"
  assumes cpu_law: "cc a c = (case rc a of Some b \<Rightarrow> (Some b, False) | None \<Rightarrow> (c, True))"
    and mem_law: "cm a d = (case rm a of Some b \<Rightarrow> (Some b, False) | None \<Rightarrow> (d, True))"
begin

lemma round_data:
  "cpu_data (perf_round cc cm a m) = (case rc a of Some b \<Rightarrow> Some b | None \<Rightarrow> cpu_data m)"
  "mem_data (perf_round cc cm a m) = (case rm a of Some b \<Rightarrow> Some b | None \<Rightarrow> mem_data m)"
  by (simp_all add: perf_round_def cpu_law mem_law split: option.splits)

lemma starts: "perf_start cc cm a = Some m \<longleftrightarrow>
    rc a \<noteq> None \<and> rm a \<noteq> None \<and> m = \<lparr>cpu_data = rc a, mem_data = rm a, published = True\<rparr>"
  by (auto simp: perf_start_def cpu_law mem_law split: option.splits)

text \<open>The agent starts only after both sources have answered once; from then on it serves, of
  each source, the last answer it got, whatever fails later.\<close>

lemma serves_last_answers:
  assumes "perf_start cc cm a = Some m"
  shows "cpu_data (perf_rounds cc cm as m) = last_good rc (a # as)
    \<and> mem_data (perf_rounds cc cm as m) = last_good rm (a # as)
    \<and> last_good rc (a # as) \<noteq> None \<and> last_good rm (a # as) \<noteq> None"
proof -
  have "cpu_data (perf_rounds cc cm as m) = last_good rc (a # as)
      \<and> mem_data (perf_rounds cc cm as m) = last_good rm (a # as)"
  proof (induction as rule: rev_induct)
    case Nil
    then show ?case using assms by (simp add: starts)
  next
    case (snoc b as)
    then show ?case
      by (simp only: perf_rounds_snoc round_data append_Cons [symmetric] last_good_snoc)
  qed
  then show ?thesis using assms last_good_some [of rc a as] last_good_some [of rm a as] by (simp add: starts)
qed

end

section \<open>Systems other than Darwin\<close>

text \<open>What the two sources answer in one round, and when.\<close>

record 'f answers =
  an_cpu :: "'f times_stat list option"
  an_mem :: "(64 word \<times> 64 word \<times> 64 word) option"
  an_now :: "64 word"

definition cpu_reading :: "'f answers \<Rightarrow> 'f cpu_perfs option" where
  "cpu_reading a = map_option
     (\<lambda>ss. \<lparr>cpus_resolution = resolution_secs, cpus_time = an_now a, cpus = map cpu_of_stat ss\<rparr>) (an_cpu a)"

definition mem_reading :: "'f answers \<Rightarrow> mem_perf option" where
  "mem_reading a = map_option
     (\<lambda>(t, f, v). \<lparr>mem_resolution = resolution_secs, mem_time = an_now a, mem_total = t, mem_free = f,
                   mem_avail = v\<rparr>) (an_mem a)"

interpretation others: collectors "\<lambda>a. collect_cpu (an_cpu a) (an_now a)"
    "\<lambda>a. collect_mem (an_mem a) resolution_secs (an_now a)" cpu_reading mem_reading
  by unfold_locales
    (auto simp: collect_cpu_def collect_mem_def cpu_reading_def mem_reading_def split: option.splits)

section \<open>The output of top\<close>

text \<open>
  The first match of the expression for \<open>user\<close>, \<open>sys\<close> and \<open>idle\<close> in a line: numbers with
  a point, each followed by a fixed text.
\<close>

definition lit_here :: "string \<Rightarrow> string \<Rightarrow> string option" where
  "lit_here w s = (if prefix w s then Some (drop (length w) s) else None)"

definition number_here :: "string \<Rightarrow> ((string \<times> string) \<times> string) option" where
  "number_here s =
     (let a = takeWhile is_digit s; r = dropWhile is_digit s;
          b = takeWhile is_digit (tl r)
      in if a \<noteq> [] \<and> r \<noteq> [] \<and> hd r = CHR ''.'' \<and> b \<noteq> [] then Some ((a, b), dropWhile is_digit (tl r)) else None)"

definition cpu_here :: "string \<Rightarrow> ((string \<times> string) \<times> (string \<times> string) \<times> (string \<times> string)) option" where
  "cpu_here s =
     Option.bind (number_here s) (\<lambda>(u, s1).
     Option.bind (lit_here ''% user, '' s1) (\<lambda>s2.
     Option.bind (number_here s2) (\<lambda>(y, s3).
     Option.bind (lit_here ''% sys, '' s3) (\<lambda>s4.
     Option.bind (number_here s4) (\<lambda>(i, s5).
     Option.bind (lit_here ''% idle'' s5) (\<lambda>_. Some (u, y, i)))))))"

fun find_cpu :: "string \<Rightarrow> ((string \<times> string) \<times> (string \<times> string) \<times> (string \<times> string)) option" where
  "find_cpu [] = None"
| "find_cpu (c # cs) = (case cpu_here (c # cs) of Some r \<Rightarrow> Some r | None \<Rightarrow> find_cpu cs)"

fun text_contains :: "string \<Rightarrow> string \<Rightarrow> bool" where
  "text_contains w [] = (w = [])"
| "text_contains w (c # cs) = (prefix w (c # cs) \<or> text_contains w cs)"

text \<open>
  \<open>ParseFloat\<close> of digits with a point is the floating point number nearest to a decimal
  fraction: \<open>near m k\<close> is the one nearest to \<open>m / 10 ^ k\<close>.
\<close>

fun digits_value :: "string \<Rightarrow> nat \<Rightarrow> nat" where
  "digits_value [] v = v"
| "digits_value (c # cs) v = digits_value cs (10 * v + (case digit_val c of Some d \<Rightarrow> d | None \<Rightarrow> 0))"

definition parse_float :: "(nat \<Rightarrow> nat \<Rightarrow> 'f) \<Rightarrow> string \<times> string \<Rightarrow> 'f" where
  "parse_float near x = near (digits_value (fst x @ snd x) 0) (length (snd x))"

definition cpu_usage :: string where
  "cpu_usage = ''CPU usage:''"

fun top_lines :: "(nat \<Rightarrow> nat \<Rightarrow> 'f) \<Rightarrow> string list \<Rightarrow> 'f cpu_perf option" where
  "top_lines near [] = None"
| "top_lines near (l # ls) =
     (if text_contains cpu_usage l then
        (case find_cpu l of
           Some (u, y, i) \<Rightarrow>
             Some \<lparr>cpu_id = ''CPU'', cpu_user = parse_float near u, cpu_system = parse_float near y,
                   cpu_idle = parse_float near i, cpu_iowait = near 0 0, cpu_irq = near 0 0\<rparr>
         | None \<Rightarrow> top_lines near ls)
      else top_lines near ls)"

definition get_cpu_perf :: "(nat \<Rightarrow> nat \<Rightarrow> 'f) \<Rightarrow> string option \<Rightarrow> 'f cpu_perf option" where
  "get_cpu_perf near output =
     (case output of None \<Rightarrow> None | Some b \<Rightarrow> top_lines near (split_on (CHR 0x0A) b))"

section \<open>Darwin\<close>

text \<open>What the two commands print in one round, and when.\<close>

record darwin_answers =
  da_top :: "string option"
  da_vm :: "string option"
  da_now :: "64 word"

definition collect_cpu_darwin :: "(nat \<Rightarrow> nat \<Rightarrow> 'f) \<Rightarrow> (darwin_answers, 'f cpu_perfs) collector" where
  "collect_cpu_darwin near a old =
     (case get_cpu_perf near (da_top a) of
        None \<Rightarrow> (old, True)
      | Some p \<Rightarrow> (Some \<lparr>cpus_resolution = resolution_secs, cpus_time = da_now a, cpus = [p]\<rparr>, False))"

definition collect_mem_darwin :: "int \<Rightarrow> (darwin_answers, mem_perf) collector" where
  "collect_mem_darwin memory a old =
     (case da_vm a of
        None \<Rightarrow> (old, True)
      | Some b \<Rightarrow>
          (case vm_stat_to_map b of
             Inl e \<Rightarrow> (old, True)
           | Inr stats \<Rightarrow>
               (case calc_perf (da_now a) memory stats of
                  Inl e \<Rightarrow> (old, True)
                | Inr msg \<Rightarrow> (Some msg, False))))"

definition darwin_cpu_reading :: "(nat \<Rightarrow> nat \<Rightarrow> 'f) \<Rightarrow> darwin_answers \<Rightarrow> 'f cpu_perfs option" where
  "darwin_cpu_reading near a = fst (collect_cpu_darwin near a None)"

definition darwin_mem_reading :: "int \<Rightarrow> darwin_answers \<Rightarrow> mem_perf option" where
  "darwin_mem_reading memory a = fst (collect_mem_darwin memory a None)"

interpretation darwin: collectors "collect_cpu_darwin near" "collect_mem_darwin memory"
    "darwin_cpu_reading near" "darwin_mem_reading memory" for near memory
  by unfold_locales
    (auto simp: collect_cpu_darwin_def collect_mem_darwin_def darwin_cpu_reading_def darwin_mem_reading_def
      split: option.splits sum.splits)

section \<open>Reading back what top writes\<close>

definition number_ok :: "string \<times> string \<Rightarrow> bool" where
  "number_ok x \<longleftrightarrow> fst x \<noteq> [] \<and> snd x \<noteq> [] \<and> list_all is_digit (fst x) \<and> list_all is_digit (snd x)"

definition number_text :: "string \<times> string \<Rightarrow> string" where
  "number_text x = fst x @ ''.'' @ snd x"

definition top_line :: "string \<times> string \<Rightarrow> string \<times> string \<Rightarrow> string \<times> string \<Rightarrow> string" where
  "top_line u y i = cpu_usage @ '' '' @ number_text u @ ''% user, '' @ number_text y @ ''% sys, ''
     @ number_text i @ ''% idle''"

lemma digit_take:
  "list_all is_digit a \<Longrightarrow> \<not> is_digit c \<Longrightarrow> takeWhile is_digit (a @ c # s) = a \<and> dropWhile is_digit (a @ c # s) = c # s"
  by (induction a) simp_all

lemma not_digits [simp]: "\<not> is_digit (CHR ''.'')" "\<not> is_digit (CHR ''%'')" "\<not> is_digit (CHR '' '')"
  by (simp_all add: is_digit_def digit_val_def)

lemma number_here_text:
  assumes "number_ok x"
  shows "number_here (number_text x @ CHR ''%'' # s) = Some (x, CHR ''%'' # s)"
  using assms digit_take [of "fst x" "CHR ''.''" "snd x @ CHR ''%'' # s"] digit_take [of "snd x" "CHR ''%''" s]
  by (simp add: number_ok_def number_text_def number_here_def Let_def)

lemma cpu_here_line:
  assumes "number_ok u" "number_ok y" "number_ok i"
  shows "cpu_here (number_text u @ ''% user, '' @ number_text y @ ''% sys, '' @ number_text i @ ''% idle'') = Some (u, y, i)"
  using assms by (simp add: cpu_here_def lit_here_def number_here_text)

lemma cpu_here_digit: "\<not> is_digit c \<Longrightarrow> cpu_here (c # s) = None"
  by (simp add: cpu_here_def number_here_def)

lemma find_cpu_skip: "list_all (\<lambda>c. \<not> is_digit c) p \<Longrightarrow> find_cpu (p @ s) = find_cpu s"
  by (induction p) (simp_all add: cpu_here_digit)

lemma find_cpu_here: "cpu_here s = Some r \<Longrightarrow> find_cpu s = Some r"
  by (cases s) (simp_all add: cpu_here_def number_here_def)

lemma find_cpu_line:
  assumes "number_ok u" "number_ok y" "number_ok i"
  shows "find_cpu (top_line u y i) = Some (u, y, i)"
proof -
  have "list_all (\<lambda>c. \<not> is_digit c) (cpu_usage @ '' '')" by code_simp
  then show ?thesis
    using find_cpu_skip [of "cpu_usage @ '' ''"] find_cpu_here [OF cpu_here_line [OF assms]]
    by (simp add: top_line_def)
qed

lemma top_lines_skip:
  "\<forall>l \<in> set ls. \<not> text_contains cpu_usage l \<Longrightarrow> top_lines near (ls @ ms) = top_lines near ms"
  by (induction ls) simp_all

lemma cpu_usage_here: "text_contains cpu_usage (top_line u y i)"
proof -
  have "text_contains w (w @ t)" if "w \<noteq> []" for w t using that by (cases w) simp_all
  then show ?thesis by (simp add: top_line_def cpu_usage_def)
qed

lemma last_good_append_none: "\<forall>a \<in> set as. f a = None \<Longrightarrow> last_good f as = None"
  by (induction as) simp_all

lemma last_good_at:
  assumes "f b = Some r" "\<forall>a \<in> set cs. f a = None"
  shows "last_good f (bs @ b # cs) = Some r"
  using assms last_good_append_none [OF assms(2)] by (induction bs) simp_all

lemma get_cpu_perf_line:
  assumes "number_ok u" "number_ok y" "number_ok i"
    and "\<forall>l \<in> set (pre @ top_line u y i # post). CHR 0x0A \<notin> set l"
    and "\<forall>l \<in> set pre. \<not> text_contains cpu_usage l"
  shows "get_cpu_perf near (Some (join_with [CHR 0x0A] (pre @ top_line u y i # post)))
    = Some \<lparr>cpu_id = ''CPU'', cpu_user = parse_float near u, cpu_system = parse_float near y,
            cpu_idle = parse_float near i, cpu_iowait = near 0 0, cpu_irq = near 0 0\<rparr>"
proof -
  have "split_on (CHR 0x0A) (join_with [CHR 0x0A] (pre @ top_line u y i # post)) = pre @ top_line u y i # post"
    using assms(4) by (intro split_on_join) simp_all
  then show ?thesis
    using top_lines_skip [OF assms(5), where near = near] find_cpu_line [OF assms(1-3)] cpu_usage_here by (simp add: get_cpu_perf_def)
qed


definition demo_darwin :: darwin_answers where
  "demo_darwin = \<lparr>da_top = Some (join_with [CHR 0x0A] [''Load Avg: 2'', top_line (''12'', ''50'') (''7'', ''5'') (''80'', ''0'')]),
     da_vm = Some (vm_text 16384 [(''Pages free'', 3, 96637)]), da_now = 1\<rparr>"


end
