(* ===== verification/Go_Steps.thy ===== *)
theory Go_Steps
  imports Go_Prelude
begin

text \<open>
  Programs of several goroutines are step relations: one step is one operation of one of
  them. This theory holds the contract of a program that ends however its goroutines are
  interleaved: an invariant, a measure of the work left and progress until the end.
\<close>

locale ending_steps =
  fixes step :: "'s \<Rightarrow> 's \<Rightarrow> bool" and inv :: "'s \<Rightarrow> bool"
    and left :: "'s \<Rightarrow> nat" and final :: "'s \<Rightarrow> bool"
  assumes inv_step: "inv s \<Longrightarrow> step s t \<Longrightarrow> inv t"
    and left_step: "inv s \<Longrightarrow> step s t \<Longrightarrow> left t < left s"
    and progress: "inv s \<Longrightarrow> \<not> final s \<Longrightarrow> \<exists>t. step s t"
begin

lemma inv_steps: "step\<^sup>*\<^sup>* s t \<Longrightarrow> inv s \<Longrightarrow> inv t"
  by (induction rule: rtranclp_induct) (auto intro: inv_step)

lemma reaches_end: "inv s \<Longrightarrow> \<exists>t. step\<^sup>*\<^sup>* s t \<and> final t"
proof (induction "left s" arbitrary: s rule: less_induct)
  case less
  show ?case
  proof (cases "final s")
    case True
    then show ?thesis by blast
  next
    case False
    then obtain t where t: "step s t" using progress [OF less.prems] by blast
    obtain u where "step\<^sup>*\<^sup>* t u" "final u"
      using less.hyps [OF left_step [OF less.prems t] inv_step [OF less.prems t]] by blast
    then show ?thesis using t by (blast intro: converse_rtranclp_into_rtranclp)
  qed
qed

lemma stuck_final: "inv s \<Longrightarrow> step\<^sup>*\<^sup>* s t \<Longrightarrow> \<not> (\<exists>u. step t u) \<Longrightarrow> final t"
  using inv_steps progress by blast

lemma no_endless_run:
  assumes "inv s"
  shows "\<not> (\<exists>f. f 0 = s \<and> (\<forall>i. step (f i) (f (Suc i))))"
proof
  assume "\<exists>f. f 0 = s \<and> (\<forall>i. step (f i) (f (Suc i)))"
  then obtain f where f: "f 0 = s" "\<And>i. step (f i) (f (Suc i))" by blast
  have "inv (f i)" for i
    by (induction i) (use f assms in \<open>auto intro: inv_step\<close>)
  with f(2) have "left (f (Suc i)) < left (f i)" for i by (blast intro: left_step)
  then have "\<exists>g. \<forall>i. (g (Suc i), g i) \<in> {(x, y::nat). x < y}"
    by (intro exI [of _ "\<lambda>i. left (f i)"]) simp
  then show False using wf_less wf_iff_no_infinite_down_chain by blast
qed

lemmas ends = reaches_end stuck_final no_endless_run

end

end
