(* ===== verification/Signals.thy ===== *)
theory Signals
  imports Go_Steps
begin

text \<open>
  The program that handles signals (\<open>cli_apps/signals/signals.go\<close>): a loop that prints numbers, a
  goroutine that receives signals and starts one handler for each that asks to end, and the
  lock that decides whether the main goroutine or a handler ends the program. Every goroutine
  moves one operation at a time, in any interleaving.
\<close>

section \<open>Goroutines\<close>

datatype signal = SIGHUP | SIGINT | SIGTERM | SIGQUIT

datatype main_pc = Starting | Iter nat | Waiting nat | Locking | Checking

datatype handler = Wants_Lock signal | Holds_Lock signal | Waits_Group signal

datatype lock_owner = Main_Goroutine | Handler nat

datatype ending = Exit nat | Core_Dump

record sig_prog =
  pending :: "signal option"
  main_at :: main_pc
  in_group :: bool
  cancelled :: bool
  exit_lock :: "lock_owner option"
  handlers :: "handler list"
  printed :: "nat list"
  ended :: "ending option"

definition sig_init :: sig_prog where
  "sig_init = \<lparr>pending = None, main_at = Starting, in_group = False, cancelled = False, exit_lock = None,
     handlers = [], printed = [], ended = None\<rparr>"

text \<open>The channel of signals has room for one; what arrives meanwhile is dropped.\<close>

definition signal_arrives :: "signal \<Rightarrow> sig_prog \<Rightarrow> sig_prog" where
  "signal_arrives s p = (if ended p = None \<and> pending p = None then p\<lparr>pending := Some s\<rparr> else p)"

text \<open>The number of iterations is the flag \<open>n\<close>, which is positive.\<close>

inductive sig_step :: "nat \<Rightarrow> sig_prog \<Rightarrow> sig_prog \<Rightarrow> bool" for n where
  add: "ended p = None \<Longrightarrow> main_at p = Starting \<Longrightarrow>
     sig_step n p (p\<lparr>in_group := True, main_at := Iter 0\<rparr>)"
| print: "ended p = None \<Longrightarrow> main_at p = Iter i \<Longrightarrow> i < n \<Longrightarrow>
     sig_step n p (p\<lparr>printed := printed p @ [i], main_at := Waiting i\<rparr>)"
| tick: "ended p = None \<Longrightarrow> main_at p = Waiting i \<Longrightarrow>
     sig_step n p (p\<lparr>main_at := Iter (Suc i)\<rparr>)"
| stop: "ended p = None \<Longrightarrow> main_at p = Waiting i \<Longrightarrow> cancelled p \<Longrightarrow>
     sig_step n p (p\<lparr>in_group := False, main_at := Locking\<rparr>)"
| finish: "ended p = None \<Longrightarrow> main_at p = Iter i \<Longrightarrow> \<not> i < n \<Longrightarrow>
     sig_step n p (p\<lparr>in_group := False, main_at := Locking\<rparr>)"
| main_lock: "ended p = None \<Longrightarrow> main_at p = Locking \<Longrightarrow> exit_lock p = None \<Longrightarrow>
     sig_step n p (p\<lparr>exit_lock := Some Main_Goroutine, main_at := Checking\<rparr>)"
| main_check: "ended p = None \<Longrightarrow> main_at p = Checking \<Longrightarrow>
     sig_step n p (p\<lparr>ended := Some (Exit (if cancelled p then 1 else 0))\<rparr>)"
| ignore: "ended p = None \<Longrightarrow> pending p = Some SIGHUP \<Longrightarrow>
     sig_step n p (p\<lparr>pending := None\<rparr>)"
| dispatch: "ended p = None \<Longrightarrow> pending p = Some s \<Longrightarrow> s \<noteq> SIGHUP \<Longrightarrow>
     sig_step n p (p\<lparr>pending := None, handlers := handlers p @ [Wants_Lock s]\<rparr>)"
| lock: "ended p = None \<Longrightarrow> k < length (handlers p) \<Longrightarrow> handlers p ! k = Wants_Lock s \<Longrightarrow>
     exit_lock p = None \<Longrightarrow>
     sig_step n p (p\<lparr>exit_lock := Some (Handler k), handlers := (handlers p)[k := Holds_Lock s]\<rparr>)"
| cancel: "ended p = None \<Longrightarrow> k < length (handlers p) \<Longrightarrow> handlers p ! k = Holds_Lock s \<Longrightarrow>
     sig_step n p (p\<lparr>cancelled := True, handlers := (handlers p)[k := Waits_Group s]\<rparr>)"
| leave: "ended p = None \<Longrightarrow> k < length (handlers p) \<Longrightarrow> handlers p ! k = Waits_Group s \<Longrightarrow>
     \<not> in_group p \<Longrightarrow>
     sig_step n p (p\<lparr>ended := Some (if s = SIGQUIT then Core_Dump else Exit 1)\<rparr>)"

inductive sig_reach :: "nat \<Rightarrow> sig_prog \<Rightarrow> bool" for n where
  init: "sig_reach n sig_init"
| arrival: "sig_reach n p \<Longrightarrow> sig_reach n (signal_arrives s p)"
| run: "sig_reach n p \<Longrightarrow> sig_step n p q \<Longrightarrow> sig_reach n q"

section \<open>The invariant\<close>

definition waits_for_lock :: "handler \<Rightarrow> bool" where
  "waits_for_lock h \<longleftrightarrow> (\<exists>s. h = Wants_Lock s)"

fun printed_ok :: "nat \<Rightarrow> main_pc \<Rightarrow> bool \<Rightarrow> nat \<Rightarrow> bool" where
  "printed_ok n Starting c k = (k = 0)"
| "printed_ok n (Iter i) c k = (k = i \<and> i \<le> n)"
| "printed_ok n (Waiting i) c k = (k = Suc i \<and> i < n)"
| "printed_ok n Locking c k = (k \<le> n \<and> (c \<or> k = n))"
| "printed_ok n Checking c k = (k \<le> n \<and> (c \<or> k = n))"

definition lock_ok :: "sig_prog \<Rightarrow> bool" where
  "lock_ok p \<longleftrightarrow>
     (exit_lock p = None \<longrightarrow>
        \<not> cancelled p \<and> main_at p \<noteq> Checking \<and> (\<forall>h\<in>set (handlers p). waits_for_lock h)) \<and>
     (exit_lock p = Some Main_Goroutine \<longrightarrow>
        \<not> cancelled p \<and> main_at p = Checking \<and> (\<forall>h\<in>set (handlers p). waits_for_lock h)) \<and>
     (\<forall>k. exit_lock p = Some (Handler k) \<longrightarrow>
        main_at p \<noteq> Checking \<and> k < length (handlers p) \<and>
        (\<exists>s. s \<noteq> SIGHUP \<and> handlers p ! k = (if cancelled p then Waits_Group s else Holds_Lock s)) \<and>
        (\<forall>j<length (handlers p). j \<noteq> k \<longrightarrow> waits_for_lock (handlers p ! j)))"

definition ended_ok :: "sig_prog \<Rightarrow> bool" where
  "ended_ok p \<longleftrightarrow>
     (\<forall>e. ended p = Some e \<longrightarrow>
        (exit_lock p = Some Main_Goroutine \<and> e = Exit 0) \<or>
        (\<exists>k s. exit_lock p = Some (Handler k) \<and> handlers p ! k = Waits_Group s \<and>
           e = (if s = SIGQUIT then Core_Dump else Exit 1)))"

definition sig_inv :: "nat \<Rightarrow> sig_prog \<Rightarrow> bool" where
  "sig_inv n p \<longleftrightarrow>
     (\<exists>k. printed p = [0..<k] \<and> printed_ok n (main_at p) (cancelled p) k) \<and>
     in_group p = (\<exists>i. main_at p = Iter i \<or> main_at p = Waiting i) \<and>
     (\<forall>s. Wants_Lock s \<in> set (handlers p) \<longrightarrow> s \<noteq> SIGHUP) \<and> lock_ok p \<and> ended_ok p"

lemma sig_inv_init: "sig_inv n sig_init"
  by (simp add: sig_inv_def sig_init_def lock_ok_def ended_ok_def)

lemma sig_inv_arrives: "sig_inv n p \<Longrightarrow> sig_inv n (signal_arrives s p)"
  by (simp add: sig_inv_def signal_arrives_def lock_ok_def ended_ok_def)

lemma owner_unique:
  assumes "lock_ok p" and "k < length (handlers p)" and "\<not> waits_for_lock (handlers p ! k)"
  shows "exit_lock p = Some (Handler k)"
proof (cases "exit_lock p")
  case None
  with assms show ?thesis by (auto simp: lock_ok_def)
next
  case (Some x)
  with assms show ?thesis by (cases x) (auto simp: lock_ok_def)
qed

lemma checking_lock:
  assumes "lock_ok p" and "main_at p = Checking"
  shows "exit_lock p = Some Main_Goroutine" and "\<not> cancelled p"
proof -
  show "exit_lock p = Some Main_Goroutine"
  proof (cases "exit_lock p")
    case None
    with assms show ?thesis by (simp add: lock_ok_def)
  next
    case (Some x)
    with assms show ?thesis by (cases x) (simp_all add: lock_ok_def)
  qed
  with assms show "\<not> cancelled p" by (simp add: lock_ok_def)
qed

lemma printed_ok_cancel: "printed_ok n m c k \<Longrightarrow> printed_ok n m True k"
  by (cases m) auto

lemma group_iff: "sig_inv n p \<Longrightarrow> in_group p = (\<exists>i. main_at p = Iter i \<or> main_at p = Waiting i)"
  by (simp add: sig_inv_def)

lemma sig_inv_step:
  assumes "sig_step n p q" and inv: "sig_inv n p"
  shows "sig_inv n q"
  using assms(1)
proof cases
  case (lock k s)
  then have "Wants_Lock s \<in> set (handlers p)" using nth_mem [of k "handlers p"] by simp
  then have "s \<noteq> SIGHUP" using inv by (auto simp: sig_inv_def)
  moreover have "Wants_Lock t \<in> set ((handlers p)[k := Holds_Lock s]) \<Longrightarrow> Wants_Lock t \<in> set (handlers p)" for t
    using set_update_subset_insert [of "handlers p" k "Holds_Lock s"] by auto
  ultimately show ?thesis
    using lock inv by (auto simp: sig_inv_def lock_ok_def ended_ok_def nth_list_update)
next
  case (cancel k s)
  then have "exit_lock p = Some (Handler k)"
    using inv by (intro owner_unique) (auto simp: sig_inv_def waits_for_lock_def)
  moreover have "Wants_Lock t \<in> set ((handlers p)[k := Waits_Group s]) \<Longrightarrow> Wants_Lock t \<in> set (handlers p)" for t
    using set_update_subset_insert [of "handlers p" k "Waits_Group s"] by auto
  ultimately show ?thesis
    using cancel inv
    by (auto simp: sig_inv_def lock_ok_def ended_ok_def nth_list_update printed_ok_cancel split: if_splits)
next
  case (leave k s)
  then have "exit_lock p = Some (Handler k)"
    using inv by (intro owner_unique) (auto simp: sig_inv_def waits_for_lock_def)
  with leave inv show ?thesis by (auto simp: sig_inv_def lock_ok_def ended_ok_def)
next
  case (stop i)
  with inv have "printed p = [0..<Suc i]" "Suc i \<le> n" by (auto simp: sig_inv_def)
  then have "\<exists>k. printed q = [0..<k] \<and> printed_ok n (main_at q) (cancelled q) k"
    using stop by (intro exI [of _ "Suc i"]) (simp del: upt_Suc)
  moreover have "lock_ok q" "ended_ok q" "\<forall>s. Wants_Lock s \<in> set (handlers q) \<longrightarrow> s \<noteq> SIGHUP"
    using stop inv by (simp_all add: sig_inv_def lock_ok_def ended_ok_def)
  moreover have "in_group q = (\<exists>i. main_at q = Iter i \<or> main_at q = Waiting i)" using stop by simp
  ultimately show ?thesis unfolding sig_inv_def by (intro conjI)
next
  case main_check
  have "lock_ok p" using inv by (simp add: sig_inv_def)
  then have own: "exit_lock p = Some Main_Goroutine" "\<not> cancelled p"
    using checking_lock main_check by blast+
  then have "lock_ok q" "ended_ok q"
    using main_check inv by (simp_all add: sig_inv_def lock_ok_def ended_ok_def)
  with main_check inv show ?thesis by (simp add: sig_inv_def)
next
  case (dispatch s)
  with inv show ?thesis
    by (auto simp: sig_inv_def lock_ok_def ended_ok_def waits_for_lock_def nth_append)
qed (use inv in \<open>auto simp: sig_inv_def lock_ok_def ended_ok_def\<close>)

lemma sig_inv_reach: "sig_reach n p \<Longrightarrow> sig_inv n p"
  by (induction rule: sig_reach.induct) (auto intro: sig_inv_init sig_inv_arrives sig_inv_step)

section \<open>How the program ends\<close>

text \<open>C25: In every interleaving of signals and goroutines: the program ends with code 0 only after
  all numbers are printed and with nothing cancelled, when the main goroutine got the lock
  first; with code 1 or a core dump only when a handler of a signal of that kind got it; SIGHUP
  never ends it; it never prints a number twice or out of order; and the main goroutine never
  finds the context cancelled once it has the lock, so its last test is never true.\<close>

theorem signal_endings:
  assumes "sig_reach n p"
  shows "(\<exists>k\<le>n. printed p = [0..<k]) \<and>
         (ended p = Some (Exit 0) \<longrightarrow>
            printed p = [0..<n] \<and> \<not> cancelled p \<and> exit_lock p = Some Main_Goroutine) \<and>
         (\<forall>e. ended p = Some e \<and> e \<noteq> Exit 0 \<longrightarrow>
            (\<exists>k s. exit_lock p = Some (Handler k) \<and> handlers p ! k = Waits_Group s \<and> cancelled p \<and>
               s \<noteq> SIGHUP \<and> e = (if s = SIGQUIT then Core_Dump else Exit 1))) \<and>
         (main_at p = Checking \<longrightarrow> \<not> cancelled p)"
proof -
  note inv = sig_inv_reach [OF assms, unfolded sig_inv_def]
  then obtain k where k: "printed p = [0..<k]" "printed_ok n (main_at p) (cancelled p) k" by blast
  have bound: "k \<le> n" using k(2) by (cases "main_at p") auto
  have lock: "lock_ok p" and ending: "ended_ok p" using inv by blast+
  have zero: "printed p = [0..<n] \<and> \<not> cancelled p \<and> exit_lock p = Some Main_Goroutine"
    if "ended p = Some (Exit 0)"
  proof -
    have own: "exit_lock p = Some Main_Goroutine" using ending that by (auto simp: ended_ok_def split: if_splits)
    then have "\<not> cancelled p" "main_at p = Checking" using lock by (simp_all add: lock_ok_def)
    with k own show ?thesis by simp
  qed
  have other: "\<exists>k s. exit_lock p = Some (Handler k) \<and> handlers p ! k = Waits_Group s \<and> cancelled p \<and>
               s \<noteq> SIGHUP \<and> e = (if s = SIGQUIT then Core_Dump else Exit 1)"
    if e: "ended p = Some e" "e \<noteq> Exit 0" for e
  proof -
    obtain k s where ks: "exit_lock p = Some (Handler k)" "handlers p ! k = Waits_Group s"
      "e = (if s = SIGQUIT then Core_Dump else Exit 1)" using ending e by (auto simp: ended_ok_def)
    then have "cancelled p \<and> s \<noteq> SIGHUP" using lock by (auto simp: lock_ok_def split: if_splits)
    with ks show ?thesis by blast
  qed
  show ?thesis using k(1) bound zero other checking_lock [OF lock] by blast
qed

section \<open>It ends\<close>

fun main_left :: "nat \<Rightarrow> main_pc \<Rightarrow> nat" where
  "main_left n Starting = 2 * n + 5"
| "main_left n (Iter i) = 2 * (n - i) + 4"
| "main_left n (Waiting i) = 2 * (n - i) + 3"
| "main_left n Locking = 2"
| "main_left n Checking = 1"

fun handler_left :: "handler \<Rightarrow> nat" where
  "handler_left (Wants_Lock s) = 3"
| "handler_left (Holds_Lock s) = 2"
| "handler_left (Waits_Group s) = 1"

definition sig_left :: "nat \<Rightarrow> sig_prog \<Rightarrow> nat" where
  "sig_left n p =
     main_left n (main_at p) + sum_list (map handler_left (handlers p)) +
     (if pending p = None then 0 else 4) + (if ended p = None then 1 else 0)"

lemma sum_handlers_update:
  "k < length hs \<Longrightarrow> handler_left h < handler_left (hs ! k) \<Longrightarrow>
     sum_list (map handler_left (hs[k := h])) < sum_list (map handler_left hs)"
  by (induction hs arbitrary: k) (auto split: nat.splits)

lemma sig_step_less: "sig_step n p q \<Longrightarrow> sig_inv n p \<Longrightarrow> sig_left n q < sig_left n p"
proof (induction rule: sig_step.induct)
  case (tick p i)
  then have "i < n" by (auto simp: sig_inv_def)
  with tick show ?case by (simp add: sig_left_def)
next
  case (stop p i)
  then have "i < n" by (auto simp: sig_inv_def)
  with stop show ?case by (simp add: sig_left_def)
next
  case (lock p k s)
  then show ?case using sum_handlers_update [of k "handlers p" "Holds_Lock s"] by (simp add: sig_left_def)
next
  case (cancel p k s)
  then show ?case using sum_handlers_update [of k "handlers p" "Waits_Group s"] by (simp add: sig_left_def)
qed (auto simp: sig_left_def)

lemma sig_progress:
  assumes "sig_inv n p" and "ended p = None"
  shows "\<exists>q. sig_step n p q"
proof (cases "main_at p")
  case Starting
  with assms(2) show ?thesis by (blast intro: sig_step.add)
next
  case (Iter i)
  with assms(2) show ?thesis by (cases "i < n") (blast intro: sig_step.print sig_step.finish)+
next
  case (Waiting i)
  with assms(2) show ?thesis by (blast intro: sig_step.tick)
next
  case Checking
  with assms(2) show ?thesis by (blast intro: sig_step.main_check)
next
  case Locking
  have lock: "lock_ok p" and free: "\<not> in_group p" using assms(1) Locking by (auto simp: sig_inv_def)
  show ?thesis
  proof (cases "exit_lock p")
    case None
    with assms(2) Locking show ?thesis by (blast intro: sig_step.main_lock)
  next
    case (Some owner)
    then obtain k where k: "exit_lock p = Some (Handler k)"
      using lock Locking by (cases owner) (auto simp: lock_ok_def)
    then obtain s where "k < length (handlers p)"
      "handlers p ! k = (if cancelled p then Waits_Group s else Holds_Lock s)"
      using lock unfolding lock_ok_def by blast
    with assms(2) free show ?thesis
      by (cases "cancelled p") (auto intro: sig_step.cancel sig_step.leave)
  qed
qed

interpretation signal_goroutines: ending_steps "sig_step n" "sig_inv n" "sig_left n" "\<lambda>p. ended p \<noteq> None" for n
  by unfold_locales (auto intro: sig_inv_step sig_step_less sig_progress)

text \<open>C26: Unless more and more signals arrive the program ends: from every reachable state the
  goroutines reach an end, whatever order they run in, and cannot go on for ever without one;
  none of them can be stuck with the lock.\<close>

theorem signal_program_ends:
  assumes "sig_reach n p"
  shows "(\<exists>q. (sig_step n)\<^sup>*\<^sup>* p q \<and> ended q \<noteq> None) \<and>
         (\<forall>q. (sig_step n)\<^sup>*\<^sup>* p q \<and> \<not> (\<exists>r. sig_step n q r) \<longrightarrow> ended q \<noteq> None) \<and>
         \<not> (\<exists>f. f 0 = p \<and> (\<forall>i. sig_step n (f i) (f (Suc i))))"
  using signal_goroutines.ends [OF sig_inv_reach [OF assms]] by blast

section \<open>One run\<close>

definition interrupted :: sig_prog where
  "interrupted = \<lparr>pending = None, main_at = Locking, in_group = False, cancelled = True,
     exit_lock = Some (Handler 0), handlers = [Waits_Group SIGINT], printed = [0], ended = Some (Exit 1)\<rparr>"

lemma interrupted_reach: "sig_reach 2 interrupted"
proof -
  have "sig_reach 2 (signal_arrives SIGINT sig_init)" by (intro sig_reach.intros)
  from sig_reach.run [OF this sig_step.add]
  have 1: "sig_reach 2 (sig_init\<lparr>pending := Some SIGINT, in_group := True, main_at := Iter 0\<rparr>)"
    by (simp add: signal_arrives_def sig_init_def)
  from sig_reach.run [OF 1 sig_step.print [of _ 0]]
  have 2: "sig_reach 2 (sig_init\<lparr>pending := Some SIGINT, in_group := True, printed := [0], main_at := Waiting 0\<rparr>)"
    by (simp add: sig_init_def)
  from sig_reach.run [OF 2 sig_step.dispatch [of _ SIGINT]]
  have 3: "sig_reach 2 (sig_init\<lparr>handlers := [Wants_Lock SIGINT], in_group := True, printed := [0], main_at := Waiting 0\<rparr>)"
    by (simp add: sig_init_def)
  from sig_reach.run [OF 3 sig_step.lock [of _ 0 SIGINT]]
  have 4: "sig_reach 2 (sig_init\<lparr>handlers := [Holds_Lock SIGINT], exit_lock := Some (Handler 0), in_group := True, printed := [0], main_at := Waiting 0\<rparr>)"
    by (simp add: sig_init_def)
  from sig_reach.run [OF 4 sig_step.cancel [of _ 0 SIGINT]]
  have 5: "sig_reach 2 (sig_init\<lparr>handlers := [Waits_Group SIGINT], exit_lock := Some (Handler 0), cancelled := True, in_group := True, printed := [0], main_at := Waiting 0\<rparr>)"
    by (simp add: sig_init_def)
  from sig_reach.run [OF 5 sig_step.stop [of _ 0]]
  have 6: "sig_reach 2 (sig_init\<lparr>handlers := [Waits_Group SIGINT], exit_lock := Some (Handler 0), cancelled := True, printed := [0], main_at := Locking\<rparr>)"
    by (simp add: sig_init_def)
  from sig_reach.run [OF 6 sig_step.leave [of _ 0 SIGINT]]
  show ?thesis by (simp add: sig_init_def interrupted_def)
qed

lemma signal_endings_witness: "cancelled interrupted \<and> printed interrupted = [0]"
  using signal_endings [OF interrupted_reach] by (auto simp: interrupted_def)

lemma signal_program_ends_witness: "\<exists>q. (sig_step 2)\<^sup>*\<^sup>* sig_init q \<and> ended q \<noteq> None"
  using signal_program_ends [OF sig_reach.init, of 2] by blast

end
