(* ===== verification/Workloads.thy ===== *)
theory Workloads
  imports Go_Path
begin

text \<open>
  The program that deploys a web server on Kubernetes (\<open>kubernetes/workloads/main.go\<close>): the
  objects it creates and the order in which it does, with panics, deferred calls, the goroutines
  that follow the logs of the pods, and signals. What the cluster answers is open: every call may
  succeed or fail.
\<close>

section \<open>Objects\<close>

type_synonym labels = "(string \<times> string) list"

record deployment =
  dp_name :: string
  dp_namespace :: string
  dp_labels :: labels
  dp_replicas :: int
  dp_selector :: labels
  dp_pod_labels :: labels
  dp_container :: string
  dp_image :: string
  dp_port :: int

record service =
  sv_name :: string
  sv_namespace :: string
  sv_labels :: labels
  sv_selector :: labels
  sv_port :: int
  sv_protocol :: string
  sv_port_name :: string

record ingress =
  in_name :: string
  in_namespace :: string
  in_path_type :: string
  in_path :: string
  in_service :: string
  in_service_port :: string

definition nginx_deployment :: "string \<Rightarrow> string \<Rightarrow> deployment" where
  "nginx_deployment ns name =
     (let match_label = [(''app'', ''nginx'')] in
      \<lparr>dp_name = name, dp_namespace = ns, dp_labels = match_label, dp_replicas = 2,
       dp_selector = match_label, dp_pod_labels = match_label,
       dp_container = name, dp_image = ''nginxdemos/hello:latest'', dp_port = 80\<rparr>)"

definition nginx_service :: "string \<Rightarrow> string \<Rightarrow> service" where
  "nginx_service ns name =
     (let match_label = [(''app'', ''nginx'')] in
      \<lparr>sv_name = name, sv_namespace = ns, sv_labels = match_label, sv_selector = match_label,
       sv_port = 80, sv_protocol = ''TCP'', sv_port_name = ''http''\<rparr>)"

definition nginx_ingress :: "string \<Rightarrow> string \<Rightarrow> ingress" where
  "nginx_ingress ns name =
     \<lparr>in_name = name, in_namespace = ns, in_path_type = ''Prefix'', in_path = ''/hello'',
      in_service = name, in_service_port = ''http''\<rparr>"

text \<open>The objects fit together: a deployment selects its own pods, a service pods of the same
  namespace by labels they carry, and an ingress a port the service names.\<close>

definition selects :: "labels \<Rightarrow> labels \<Rightarrow> bool" where
  "selects sel ls \<longleftrightarrow> set sel \<subseteq> set ls"

definition wired :: "deployment \<Rightarrow> service \<Rightarrow> ingress \<Rightarrow> bool" where
  "wired d s i \<longleftrightarrow>
     selects (dp_selector d) (dp_pod_labels d) \<and>
     selects (sv_selector s) (dp_pod_labels d) \<and> sv_namespace s = dp_namespace d \<and>
     sv_port s = dp_port d \<and>
     in_service i = sv_name s \<and> in_namespace i = sv_namespace s \<and> in_service_port i = sv_port_name s"

section \<open>The run\<close>

datatype place =
    At_Namespace | At_Deployment | At_Ready | At_Service | At_Ingress | At_List
  | At_Follow "string list" | At_Signal | At_Delete

datatype finish = Returned | Crashed | Killed

record workload =
  place :: place
  namespace :: bool
  deployed :: "deployment option"
  serviced :: "service option"
  ingressed :: "ingress option"
  following :: "string list"
  panicking :: bool
  stream_failed :: bool
  delete_failed :: bool
  finish :: "finish option"

definition wl_init :: workload where
  "wl_init = \<lparr>place = At_Namespace, namespace = False, deployed = None, serviced = None, ingressed = None,
     following = [], panicking = False, stream_failed = False, delete_failed = False, finish = None\<rparr>"

text \<open>A call of the cluster that fails makes \<open>panicIfError\<close> panic. Once the namespace exists the
  panic runs the deferred deletion; before, there is none.\<close>

definition panic_in_main :: "workload \<Rightarrow> workload" where
  "panic_in_main w =
     (if place w = At_Namespace then w\<lparr>finish := Some Crashed\<rparr>
      else w\<lparr>panicking := True, place := At_Delete\<rparr>)"

text \<open>The steps of \<open>main\<close>, with namespace \<open>ns\<close> and name \<open>nm\<close>: the successful calls, the polls of the
  replicas that are ready, and the end.\<close>

definition replicas_ready :: "deployment \<Rightarrow> int \<Rightarrow> bool" where
  "replicas_ready d k \<longleftrightarrow> k = dp_replicas d"

text \<open>
  The functions of the program by what they do to it, given what the cluster answers: whether a
  namespace could be created or deleted, how many replicas are ready, which pods there are.
\<close>

definition create_namespace_call :: "bool \<Rightarrow> workload \<Rightarrow> workload" where
  "create_namespace_call ok w = (if ok then w\<lparr>namespace := True, place := At_Deployment\<rparr> else panic_in_main w)"

definition delete_namespace_call :: "bool \<Rightarrow> workload \<Rightarrow> workload" where
  "delete_namespace_call ok w =
     (if ok then w\<lparr>namespace := False, finish := Some (if panicking w then Crashed else Returned)\<rparr>
      else w\<lparr>delete_failed := True, finish := Some Crashed\<rparr>)"

definition get_ready_replicas :: "int option \<Rightarrow> (int \<Rightarrow> workload) \<Rightarrow> workload \<Rightarrow> workload" where
  "get_ready_replicas answer next w = (case answer of None \<Rightarrow> panic_in_main w | Some k \<Rightarrow> next k)"

definition poll_replicas :: "deployment \<Rightarrow> int option \<Rightarrow> workload \<Rightarrow> workload" where
  "poll_replicas d answer w =
     get_ready_replicas answer (\<lambda>k. if replicas_ready d k then w\<lparr>place := At_Service\<rparr> else w) w"

definition list_pods_call :: "string list option \<Rightarrow> workload \<Rightarrow> workload" where
  "list_pods_call answer w =
     (case answer of None \<Rightarrow> panic_in_main w | Some pods \<Rightarrow> w\<lparr>place := At_Follow pods\<rparr>)"

text \<open>\<open>listenToPodLogs\<close> starts one goroutine for each pod, and an error of its stream is a panic
  outside of \<open>main\<close>, which runs no deferred call of \<open>main\<close>.\<close>

definition listen_to_pod_logs :: "string list \<Rightarrow> workload \<Rightarrow> workload" where
  "listen_to_pod_logs pods w =
     (case pods of [] \<Rightarrow> w\<lparr>place := At_Signal\<rparr>
      | p # ps \<Rightarrow> w\<lparr>following := following w @ [p], place := At_Follow ps\<rparr>)"

definition stream_error :: "workload \<Rightarrow> workload" where
  "stream_error w = w\<lparr>stream_failed := True, finish := Some Crashed\<rparr>"

inductive wl_step :: "string \<Rightarrow> string \<Rightarrow> workload \<Rightarrow> workload \<Rightarrow> bool" for ns nm where
  create_namespace: "finish w = None \<Longrightarrow> place w = At_Namespace \<Longrightarrow>
     wl_step ns nm w (create_namespace_call ok w)"
| create_deployment: "finish w = None \<Longrightarrow> place w = At_Deployment \<Longrightarrow>
     wl_step ns nm w (w\<lparr>deployed := Some (nginx_deployment ns nm), place := At_Ready\<rparr>)"
| poll: "finish w = None \<Longrightarrow> place w = At_Ready \<Longrightarrow> deployed w = Some d \<Longrightarrow>
     wl_step ns nm w (poll_replicas d answer w)"
| create_service: "finish w = None \<Longrightarrow> place w = At_Service \<Longrightarrow>
     wl_step ns nm w (w\<lparr>serviced := Some (nginx_service ns nm), place := At_Ingress\<rparr>)"
| create_ingress: "finish w = None \<Longrightarrow> place w = At_Ingress \<Longrightarrow>
     wl_step ns nm w (w\<lparr>ingressed := Some (nginx_ingress ns nm), place := At_List\<rparr>)"
| list_pods: "finish w = None \<Longrightarrow> place w = At_List \<Longrightarrow>
     wl_step ns nm w (list_pods_call answer w)"
| follow: "finish w = None \<Longrightarrow> place w = At_Follow pods \<Longrightarrow>
     wl_step ns nm w (listen_to_pod_logs pods w)"
| call_fails: "finish w = None \<Longrightarrow> place w \<in> {At_Deployment, At_Service, At_Ingress} \<Longrightarrow>
     wl_step ns nm w (panic_in_main w)"
| stream_fails: "finish w = None \<Longrightarrow> following w \<noteq> [] \<Longrightarrow>
     wl_step ns nm w (stream_error w)"
| signal_waited: "finish w = None \<Longrightarrow> place w = At_Signal \<Longrightarrow>
     wl_step ns nm w (w\<lparr>place := At_Delete\<rparr>)"
| signal_early: "finish w = None \<Longrightarrow> place w \<noteq> At_Signal \<Longrightarrow> place w \<noteq> At_Delete \<or> panicking w \<Longrightarrow>
     wl_step ns nm w (w\<lparr>finish := Some Killed\<rparr>)"
| delete: "finish w = None \<Longrightarrow> place w = At_Delete \<Longrightarrow>
     wl_step ns nm w (delete_namespace_call ok w)"

lemmas call_defs = create_namespace_call_def delete_namespace_call_def poll_replicas_def get_ready_replicas_def
  list_pods_call_def listen_to_pod_logs_def stream_error_def panic_in_main_def

section \<open>Getting at the cluster\<close>

text \<open>
  \<open>getClientSet\<close>: the file with the configuration is the one of the flag, whose default is in the
  home directory if there is one. What the library makes of the file is an argument. An error
  panics before anything was created.
\<close>

definition default_kubeconfig :: "string \<Rightarrow> string" where
  "default_kubeconfig home = (if home \<noteq> [] then file_join [home, ''.kube'', ''config''] else [])"

definition get_client_set ::
    "(string \<Rightarrow> 'c option) \<Rightarrow> ('c \<Rightarrow> 's option) \<Rightarrow> string \<Rightarrow> string option \<Rightarrow> (string, 's) outcome" where
  "get_client_set build mk home flag =
     (case build (case flag of Some f \<Rightarrow> f | None \<Rightarrow> default_kubeconfig home) of
        None \<Rightarrow> Panics (PanicMsg ''kubeconfig'')
      | Some c \<Rightarrow> (case mk c of None \<Rightarrow> Panics (PanicMsg ''client set'') | Some cs \<Rightarrow> Ok cs))"

definition wl_start ::
    "(string \<Rightarrow> 'c option) \<Rightarrow> ('c \<Rightarrow> 's option) \<Rightarrow> string \<Rightarrow> string option \<Rightarrow> workload" where
  "wl_start build mk home flag =
     (case get_client_set build mk home flag of Ok _ \<Rightarrow> wl_init | _ \<Rightarrow> wl_init\<lparr>finish := Some Crashed\<rparr>)"

section \<open>The invariant\<close>

definition all_created :: "string \<Rightarrow> string \<Rightarrow> workload \<Rightarrow> bool" where
  "all_created ns nm w \<longleftrightarrow>
     deployed w = Some (nginx_deployment ns nm) \<and> serviced w = Some (nginx_service ns nm) \<and>
     ingressed w = Some (nginx_ingress ns nm)"

fun running_ok :: "string \<Rightarrow> string \<Rightarrow> place \<Rightarrow> workload \<Rightarrow> bool" where
  "running_ok ns nm At_Namespace w = (\<not> namespace w \<and> \<not> panicking w \<and> following w = [])"
| "running_ok ns nm At_Deployment w = (namespace w \<and> \<not> panicking w \<and> following w = [])"
| "running_ok ns nm At_Ready w =
     (namespace w \<and> \<not> panicking w \<and> following w = [] \<and> deployed w = Some (nginx_deployment ns nm))"
| "running_ok ns nm At_Service w =
     (namespace w \<and> \<not> panicking w \<and> following w = [] \<and> deployed w = Some (nginx_deployment ns nm))"
| "running_ok ns nm At_Ingress w =
     (namespace w \<and> \<not> panicking w \<and> following w = [] \<and>
      deployed w = Some (nginx_deployment ns nm) \<and> serviced w = Some (nginx_service ns nm))"
| "running_ok ns nm At_List w =
     (namespace w \<and> \<not> panicking w \<and> following w = [] \<and> all_created ns nm w)"
| "running_ok ns nm (At_Follow ps) w = (namespace w \<and> \<not> panicking w \<and> all_created ns nm w)"
| "running_ok ns nm At_Signal w = (namespace w \<and> \<not> panicking w \<and> all_created ns nm w)"
| "running_ok ns nm At_Delete w =
     (namespace w \<and> (if panicking w then following w = [] else all_created ns nm w))"

fun finished_ok :: "string \<Rightarrow> string \<Rightarrow> finish \<Rightarrow> workload \<Rightarrow> bool" where
  "finished_ok ns nm Returned w =
     (\<not> namespace w \<and> \<not> stream_failed w \<and> \<not> delete_failed w \<and> all_created ns nm w)"
| "finished_ok ns nm Crashed w =
     (namespace w \<longleftrightarrow> stream_failed w \<or> delete_failed w)"
| "finished_ok ns nm Killed w = (\<not> stream_failed w \<and> \<not> delete_failed w)"

definition wl_inv :: "string \<Rightarrow> string \<Rightarrow> workload \<Rightarrow> bool" where
  "wl_inv ns nm w \<longleftrightarrow>
     (case finish w of
        None \<Rightarrow> running_ok ns nm (place w) w \<and> \<not> stream_failed w \<and> \<not> delete_failed w
      | Some e \<Rightarrow> finished_ok ns nm e w)"

lemma wl_inv_start: "wl_inv ns nm (wl_start build mk home flag)"
  by (auto simp: wl_inv_def wl_init_def wl_start_def split: outcome.splits)

lemma wl_start_runs:
  assumes "build (default_kubeconfig home) = Some c" "mk c = Some cs"
  shows "wl_start build mk home None = wl_init"
  using assms by (simp add: wl_start_def get_client_set_def)

lemma finished_stays: "(wl_step ns nm)\<^sup>*\<^sup>* w v \<Longrightarrow> finish w \<noteq> None \<Longrightarrow> v = w"
  by (induction rule: converse_rtranclp_induct) (auto elim: wl_step.cases)

lemma wl_start_refused:
  assumes "(wl_step ns nm)\<^sup>*\<^sup>* (wl_start build mk home flag) w" "namespace w"
  shows "\<exists>cs. get_client_set build mk home flag = Ok cs"
proof (cases "get_client_set build mk home flag")
  case (Ok cs)
  then show ?thesis by simp
qed (use finished_stays [OF assms(1)] assms(2) in \<open>simp_all add: wl_start_def wl_init_def\<close>)

lemma running_following:
  "running_ok ns nm p w \<Longrightarrow> following w \<noteq> [] \<Longrightarrow> namespace w"
  by (cases p) auto

lemma wl_inv_step:
  assumes "wl_step ns nm w v" and "wl_inv ns nm w"
  shows "wl_inv ns nm v"
  using assms(1)
proof cases
  case (create_namespace ok)
  with assms(2) show ?thesis by (auto simp: wl_inv_def call_defs)
next
  case (poll d answer)
  with assms(2) show ?thesis by (auto simp: wl_inv_def call_defs split: option.splits)
next
  case (list_pods answer)
  with assms(2) show ?thesis by (auto simp: wl_inv_def call_defs all_created_def split: option.splits)
next
  case (follow pods)
  with assms(2) show ?thesis by (auto simp: wl_inv_def call_defs all_created_def split: list.splits)
next
  case call_fails
  with assms(2) show ?thesis by (auto simp: wl_inv_def call_defs)
next
  case stream_fails
  then show ?thesis using assms(2) running_following by (auto simp: wl_inv_def call_defs)
next
  case (delete ok)
  with assms(2) show ?thesis by (auto simp: wl_inv_def call_defs all_created_def)
qed (use assms(2) in \<open>auto simp: wl_inv_def all_created_def split: if_splits\<close>)


text \<open>A signal while the program waits for the replicas kills it with the namespace left behind.\<close>

theorem early_signal_leaves_namespace:
  "\<exists>w. (wl_step ns nm)\<^sup>*\<^sup>* wl_init w \<and> finish w = Some Killed \<and> namespace w"
proof -
  have "wl_step ns nm wl_init (wl_init\<lparr>namespace := True, place := At_Deployment\<rparr>)"
    using wl_step.create_namespace [of wl_init ns nm True] by (simp add: wl_init_def call_defs)
  moreover have "wl_step ns nm (wl_init\<lparr>namespace := True, place := At_Deployment\<rparr>)
      (wl_init\<lparr>namespace := True, place := At_Deployment, finish := Some Killed\<rparr>)"
    using wl_step.signal_early [of "wl_init\<lparr>namespace := True, place := At_Deployment\<rparr>"]
    by (simp add: wl_init_def)
  ultimately have "(wl_step ns nm)\<^sup>*\<^sup>* wl_init
      (wl_init\<lparr>namespace := True, place := At_Deployment, finish := Some Killed\<rparr>)"
    by (meson rtranclp.rtrancl_into_rtrancl rtranclp.rtrancl_refl)
  then show ?thesis by (intro exI conjI) (assumption | simp)+
qed

text \<open>A whole run with one pod.\<close>

definition demo_done :: workload where
  "demo_done = \<lparr>place = At_Delete, namespace = False,
     deployed = Some (nginx_deployment ''foo'' ''hello-world''), serviced = Some (nginx_service ''foo'' ''hello-world''),
     ingressed = Some (nginx_ingress ''foo'' ''hello-world''), following = [''pod''], panicking = False,
     stream_failed = False, delete_failed = False, finish = Some Returned\<rparr>"

lemma demo_workload_run: "(wl_step ''foo'' ''hello-world'')\<^sup>*\<^sup>* wl_init demo_done"
proof -
  let ?step = "wl_step ''foo'' ''hello-world''"
  let ?d = "nginx_deployment ''foo'' ''hello-world''" and ?s = "nginx_service ''foo'' ''hello-world''"
    and ?i = "nginx_ingress ''foo'' ''hello-world''"
  let ?w = "\<lambda>p d s i f. wl_init\<lparr>place := p, namespace := True, deployed := d, serviced := s, ingressed := i,
              following := f\<rparr>"
  note run = rtranclp.rtrancl_into_rtrancl [of ?step wl_init]
  have "?step\<^sup>*\<^sup>* wl_init (?w At_Deployment None None None [])"
    using run [OF rtranclp.rtrancl_refl wl_step.create_namespace [of _ _ _ True]] by (simp add: wl_init_def call_defs)
  from run [OF this wl_step.create_deployment]
  have "?step\<^sup>*\<^sup>* wl_init (?w At_Ready (Some ?d) None None [])" by (simp add: wl_init_def)
  from run [OF this wl_step.poll [of _ ?d _ _ "Some (dp_replicas ?d)"]]
  have "?step\<^sup>*\<^sup>* wl_init (?w At_Service (Some ?d) None None [])" by (simp add: wl_init_def call_defs replicas_ready_def)
  from run [OF this wl_step.create_service]
  have "?step\<^sup>*\<^sup>* wl_init (?w At_Ingress (Some ?d) (Some ?s) None [])" by (simp add: wl_init_def)
  from run [OF this wl_step.create_ingress]
  have "?step\<^sup>*\<^sup>* wl_init (?w At_List (Some ?d) (Some ?s) (Some ?i) [])" by (simp add: wl_init_def)
  from run [OF this wl_step.list_pods [of _ _ _ "Some [''pod'']"]]
  have "?step\<^sup>*\<^sup>* wl_init (?w (At_Follow [''pod'']) (Some ?d) (Some ?s) (Some ?i) [])" by (simp add: wl_init_def call_defs)
  from run [OF this wl_step.follow [of _ "[''pod'']"]]
  have "?step\<^sup>*\<^sup>* wl_init (?w (At_Follow []) (Some ?d) (Some ?s) (Some ?i) [''pod''])" by (simp add: wl_init_def call_defs)
  from run [OF this wl_step.follow [of _ "[]"]]
  have "?step\<^sup>*\<^sup>* wl_init (?w At_Signal (Some ?d) (Some ?s) (Some ?i) [''pod''])" by (simp add: wl_init_def call_defs)
  from run [OF this wl_step.signal_waited]
  have "?step\<^sup>*\<^sup>* wl_init (?w At_Delete (Some ?d) (Some ?s) (Some ?i) [''pod''])" by (simp add: wl_init_def)
  from run [OF this wl_step.delete [of _ _ _ True]]
  show ?thesis by (simp add: wl_init_def demo_done_def call_defs)
qed

lemma demo_start:
  "(wl_step ''foo'' ''hello-world'')\<^sup>*\<^sup>* (wl_start Some Some ''/home/u'' None) demo_done"
  using demo_workload_run wl_start_runs [of Some "''/home/u''" _ Some] by simp


end
