(* ===== verification/LB_Cli.thy ===== *)
theory LB_Cli
  imports Rollout_Serving
begin

text \<open>
  The command line tool of the load balancer, \<open>lb/client/cli/cli.go\<close>, on top of the
  client and the control service: the flags as \<open>flag.Parse\<close> leaves them, one command
  per run, every failure a panic. What it prints are the rows of its tables.
\<close>

record cli_flags =
  fl_lb :: string
  fl_ip :: string
  fl_port :: int
  fl_url_path :: string
  fl_pattern :: string

definition cli_checks :: client_checks where
  "cli_checks = \<lparr>cc_checks = [ClientStatusCheck ''/healthz'' [''ok'', ''OK'']], cc_interval = 10000000000\<rparr>"

datatype dial = Connected | DialFails | NeverConnects

text \<open>
  \<open>ce_late\<close>: the deadline of the call is over when the service looks at it.
\<close>

record cli_env =
  ce_dial :: "string \<Rightarrow> dial"
  ce_net :: net_env
  ce_late :: bool

datatype row = PoolRow string pool_status | BackendRow string backend_status

text \<open>
  How the program ends. \<open>PanicLost\<close> is a call without an answer of the service, because
  the service crashed or the deadline of the call passed; \<open>Hangs\<close> is a connection that
  is waited for without a limit.
\<close>

datatype cli_end = Printed "row list" | PanicText string | PanicErr lb_err | PanicLost | Hangs

fun call_end :: "('a \<Rightarrow> row list) \<Rightarrow> (lb_err, 'a) outcome \<Rightarrow> cli_end" where
  "call_end f (Ok x) = Printed (f x)"
| "call_end f (Err e) = PanicErr e"
| "call_end f (Panics q) = PanicLost"
| "call_end f Blocked = PanicLost"

definition cli_backend :: "cli_flags \<Rightarrow> client_backend" where
  "cli_backend f = ClientIP (ip_bytes (parse_ip (fl_ip f))) (to_int32 (fl_port f)) (fl_url_path f)"

definition health_rows :: "string \<Rightarrow> pool_health \<Rightarrow> row list" where
  "health_rows pattern ph =
     PoolRow pattern (ph_status ph)
     # map (\<lambda>b. BackendRow (bh_ip b @ '':'' @ itoa (bh_port b) @ bh_url_path b) (bh_status b)) (ph_backends ph)"

definition cli_main :: "cli_env \<Rightarrow> cli_flags \<Rightarrow> string list \<Rightarrow> load_balancer \<Rightarrow> load_balancer \<times> cli_end" where
  "cli_main env f args l =
     (if length args \<noteq> 1 then (l, PanicText ''bad args'')
      else case ce_dial env (fl_lb f) of
             NeverConnects \<Rightarrow> (l, Hangs)
           | DialFails \<Rightarrow> (l, PanicLost)
           | Connected \<Rightarrow>
               if args ! 0 = ''addPool'' then
                 (case client_add_pool (ce_net env) (fl_pattern f) 1 cli_checks l of
                    (l', r) \<Rightarrow> (l', call_end (\<lambda>_. []) r))
               else if args ! 0 = ''removePool'' then
                 (case client_remove_pool (fl_pattern f) l of (l', r) \<Rightarrow> (l', call_end (\<lambda>_. []) r))
               else if args ! 0 = ''addBackend'' then
                 (case client_add_backend (ce_late env) (fl_pattern f) (cli_backend f) l of
                    (l', r) \<Rightarrow> (l', call_end (\<lambda>_. []) r))
               else if args ! 0 = ''removeBackend'' then
                 (case client_add_backend (ce_late env) (fl_pattern f) (cli_backend f) l of
                    (l', r) \<Rightarrow> (l', call_end (\<lambda>_. []) r))
               else if args ! 0 = ''poolHealth'' then
                 (l, call_end (health_rows (fl_pattern f)) (client_pool_health (fl_pattern f) True True l))
               else (l, PanicText ''non-recognized command''))"

section \<open>What the commands do to a pool\<close>

lemma grpc_add_pool_heap:
  "p < next_pool l \<Longrightarrow> pool_heap (fst (grpc_add_pool env req l)) p = pool_heap l p"
  by (auto simp: grpc_add_pool_def lb_add_pool_def Let_def split: option.splits outcome.splits prod.splits)

lemma grpc_add_pool_pools:
  "map_of (pools l) k = Some p \<Longrightarrow> map_of (pools (fst (grpc_add_pool env req l))) k = Some p"
  by (auto simp: grpc_add_pool_def lb_add_pool_def Let_def map_of_gput
      split: option.splits outcome.splits prod.splits)

lemma add_pool_keeps:
  assumes "known_pool l k p"
  shows "known_pool (fst (client_add_pool env pattern pt hcs l)) k p
    \<and> served (fst (client_add_pool env pattern pt hcs l)) p = served l p"
proof -
  have "p < next_pool l" using assms by (auto simp: known_pool_def lb_inv_def)
  then show ?thesis
    using assms grpc_add_pool_heap lb_inv_grpc_add_pool grpc_add_pool_pools
    by (simp add: known_pool_def client_add_pool_def served_def)
qed

lemma on_pool_add_keeps:
  assumes "known_pool l k p" "map_of (pools l) k' = Some p'"
  shows "served l p \<subseteq> served (fst (on_pool p' (\<lambda>q. p2c_add c (po_hc q) bk (po_state q)) l)) p"
proof (cases "p' = p")
  case True
  then show ?thesis
    using p2c_pool.serving_add [OF known_pool_inv [OF assms(1)], of c "po_hc (pool_heap l p)" bk]
    by (cases "p2c_add c (po_hc (pool_heap l p)) bk (po_state (pool_heap l p))")
       (auto simp: on_pool_def served_def)
next
  case False
  then show ?thesis by (simp add: on_pool_def served_def split: prod.splits)
qed

lemma grpc_add_backend_cases:
  obtains e where "grpc_add_backend c pattern b l = (l, Err e)"
  | p bk where "map_of (pools l) pattern = Some p"
      "grpc_add_backend c pattern b l = on_pool p (\<lambda>q. p2c_add c (po_hc q) bk (po_state q)) l"
proof -
  have "(\<exists>e. backend_of b = Err e) \<or> (\<exists>bk. backend_of b = Ok bk)"
    using backend_of_cases [of b] by blast
  then show ?thesis
  proof (elim disjE exE)
    fix e assume "backend_of b = Err e"
    then have "\<exists>e. grpc_add_backend c pattern b l = (l, Err e)"
      by (simp add: grpc_add_backend_def lb_get_pool_def split: option.splits)
    then show ?thesis using that(1) by blast
  next
    fix bk assume bk: "backend_of b = Ok bk"
    show ?thesis
    proof (cases "trim_space pattern = [] \<or> map_of (pools l) pattern = None")
      case True
      then have "\<exists>e. grpc_add_backend c pattern b l = (l, Err e)"
        by (auto simp: grpc_add_backend_def lb_get_pool_def)
      then show ?thesis using that(1) by blast
    next
      case False
      then obtain p where p: "map_of (pools l) pattern = Some p" by auto
      then have "grpc_add_backend c pattern b l = on_pool p (\<lambda>q. p2c_add c (po_hc q) bk (po_state q)) l"
        using False bk by (simp add: grpc_add_backend_def lb_get_pool_def)
      then show ?thesis using that(2) p by blast
    qed
  qed
qed

lemma pools_on_pool [simp]: "pools (fst (on_pool p f l)) = pools l"
  by (simp add: on_pool_def split: prod.splits)

lemma add_backend_keeps:
  assumes "known_pool l k p"
  shows "known_pool (fst (client_add_backend c pattern b l)) k p
    \<and> served l p \<subseteq> served (fst (client_add_backend c pattern b l)) p"
proof (cases "backend_to_pb b")
  case None
  then show ?thesis using assms by (simp add: client_add_backend_def)
next
  case (Some pb)
  have eq: "client_add_backend c pattern b l = grpc_add_backend c pattern pb l"
    by (simp add: client_add_backend_def Some)
  have inv: "lb_inv (fst (grpc_add_backend c pattern pb l))"
    using control_step_inv [of l "AddBackend c pattern pb"] assms by (simp add: known_pool_def)
  show ?thesis
  proof (cases rule: grpc_add_backend_cases [of c pattern pb l])
    case (1 e)
    then show ?thesis using assms by (simp add: eq)
  next
    case (2 p' bk)
    then show ?thesis
      using inv assms on_pool_add_keeps [OF assms 2(1)] unfolding eq by (simp add: known_pool_def)
  qed
qed

lemma cli_main_keeps:
  assumes "known_pool l k p" "args \<noteq> [''removePool'']"
  shows "known_pool (fst (cli_main env f args l)) k p \<and> served l p \<subseteq> served (fst (cli_main env f args l)) p"
proof (cases "length args = 1 \<and> ce_dial env (fl_lb f) = Connected")
  case True
  then obtain a where a: "args = [a]" "a \<noteq> ''removePool''" using assms(2) by (cases args) auto
  show ?thesis
    using True a assms(1) add_pool_keeps [OF assms(1), of "ce_net env" "fl_pattern f" 1 cli_checks]
      add_backend_keeps [OF assms(1), of "ce_late env" "fl_pattern f" "cli_backend f"]
    by (simp add: cli_main_def case_prod_unfold)
next
  case False
  then show ?thesis using assms(1) by (auto simp: cli_main_def split: dial.splits)
qed

text \<open>
  C9: What each command of the tool does to a pool that is registered and serves: addBackend
  brings in the endpoint of the flags when the service accepts it, removeBackend does the
  very same, and apart from removing the whole pool no command line takes a backend out
  of service.
\<close>

theorem cli_never_removes_backend:
  assumes "known_pool l k p" "args \<noteq> [''removePool'']"
  shows "cli_main env f [''removeBackend''] l = cli_main env f [''addBackend''] l
    \<and> served l p \<subseteq> served (fst (cli_main env f args l)) p
    \<and> (\<forall>ip. ce_dial env (fl_lb f) = Connected \<and> fl_pattern f = k \<and> parse_ip (fl_ip f) = Some ip
          \<and> proper ip (to_int32 (fl_port f)) \<longrightarrow>
        served (fst (cli_main env f [''removeBackend''] l)) p
          = (if snd (cli_main env f [''removeBackend''] l) = Printed []
             then insert (backend_url ip (to_int32 (fl_port f))) (served l p) else served l p))"
proof -
  let ?run = "cli_main env f [''removeBackend''] l" and ?port = "to_int32 (fl_port f)"
  have add: "served (fst ?run) p
      = (if snd ?run = Printed [] then insert (backend_url ip ?port) (served l p) else served l p)"
    if "ce_dial env (fl_lb f) = Connected" "fl_pattern f = k" "parse_ip (fl_ip f) = Some ip" "proper ip ?port"
    for ip
  proof -
    have "snd ?run = Printed [] \<longleftrightarrow> is_ok (snd (client_add_backend (ce_late env) k (cli_backend f) l))"
      using that(1,2) by (cases "snd (client_add_backend (ce_late env) k (cli_backend f) l)")
        (simp_all add: cli_main_def case_prod_unfold)
    then show ?thesis
      using client_add_serves [OF assms(1) that(4), of "ce_late env" "fl_url_path f"] that
      by (simp add: cli_main_def case_prod_unfold cli_backend_def)
  qed
  show ?thesis
    using cli_main_keeps [OF assms, of env f] add by (simp add: cli_main_def)
qed

definition demo_cli_env :: cli_env where
  "demo_cli_env = \<lparr>ce_dial = (\<lambda>_. Connected), ce_net = \<lparr>get_page = (\<lambda>_ _. Some ''ok''), arrive = (\<lambda>es. es)\<rparr>,
     ce_late = False\<rparr>"

definition demo_cli_flags :: cli_flags where
  "demo_cli_flags = \<lparr>fl_lb = ''localhost:8081'', fl_ip = ''10.0.0.1'', fl_port = 80, fl_url_path = ''/'',
     fl_pattern = ''/''\<rparr>"

theorem cli_never_removes_backend_witness:
  "snd (cli_main demo_cli_env demo_cli_flags [''removeBackend''] demo_lb) = Printed []
   \<and> ''http://10.0.0.1:80'' \<in> served (fst (cli_main demo_cli_env demo_cli_flags [''removeBackend''] demo_lb)) 0"
proof -
  have f: "ce_dial demo_cli_env (fl_lb demo_cli_flags) = Connected" "fl_pattern demo_cli_flags = ''/''"
    "to_int32 (fl_port demo_cli_flags) = 80" "backend_url (v4_prefix @ [10, 0, 0, 1]) 80 = ''http://10.0.0.1:80''"
    "parse_ip (fl_ip demo_cli_flags) = Some (v4_prefix @ [10, 0, 0, 1])"
    by code_simp+
  have run: "snd (cli_main demo_cli_env demo_cli_flags [''removeBackend''] demo_lb) = Printed []"
    by code_simp
  have "[] \<noteq> [''removePool'']" by simp
  note cli_never_removes_backend [OF demo_known this, of demo_cli_env demo_cli_flags,
      THEN conjunct2, THEN conjunct2]
  then have "served (fst (cli_main demo_cli_env demo_cli_flags [''removeBackend''] demo_lb)) 0
      = insert ''http://10.0.0.1:80'' (served demo_lb 0)"
    using f demo_proper run by simp
  then show ?thesis using run by simp
qed

end
