(* ===== verification/Rollout_Main.thy ===== *)
theory Rollout_Main
  imports Rollout_Workflow LB_Cli
begin

text \<open>
  The rollout program as a whole (\<open>orchestration.go\<close>): reading its configuration, the
  pool of the load balancer, the run, the retries, the tables it prints and how it ends.
  It composes the configuration, the client with the load balancer behind it, the workflow
  and the upgrades of the single servers.
\<close>

text \<open>The command line, the files, the JSON decoder and dialling.\<close>

record rollout_world =
  rw_args :: "string list"
  rw_file :: "string \<Rightarrow> string option"
  rw_decode :: "string \<Rightarrow> config option"
  rw_dial :: "string \<Rightarrow> dial"

datatype setup_err = NoArgument | NoConfigFile | Misconfigured | NotValidated config_err | NoBalancer | NoWorkflow wf_err

definition rollout_setup :: "rollout_world \<Rightarrow> (setup_err, workflow) outcome" where
  "rollout_setup W =
     (if length (rw_args W) \<noteq> 1 then Err NoArgument
      else case rw_file W (rw_args W ! 0) of
             None \<Rightarrow> Err NoConfigFile
           | Some b \<Rightarrow>
               (case rw_decode W b of
                  None \<Rightarrow> Err Misconfigured
                | Some cfg \<Rightarrow>
                    then_ok (map_err NotValidated (validate_config cfg)) (\<lambda>_.
                      case rw_dial W (cf_lb cfg) of
                        NeverConnects \<Rightarrow> Blocked
                      | DialFails \<Rightarrow> Err NoBalancer
                      | Connected \<Rightarrow> map_err NoWorkflow (new_workflow cfg))))"

text \<open>
  One row of the last table: the precondition with its error, or an action with its
  endpoint, failed state and error. After retries the code prints the method \<open>Err\<close> itself
  instead of its result, so no error is shown: \<open>None\<close>.
\<close>

datatype report_row = PreconditionRow wf_err | ActionRow string string "act_err option"

definition failure_rows :: "workflow \<Rightarrow> wf_err \<Rightarrow> report_row list" where
  "failure_rows w e =
     (if wf_end w = ESPreconditionFailure then [PreconditionRow e]
      else map (\<lambda>i. ActionRow (ac_endpoint (wf_actions w ! i)) (failure (wf_actions w ! i)) (ac_err (wf_actions w ! i)))
             (status_failures w))"

definition retried_rows :: "workflow \<Rightarrow> report_row list" where
  "retried_rows w =
     map (\<lambda>i. ActionRow (ac_endpoint (wf_actions w ! i))
                (if failure (wf_actions w ! i) = [] then ''during setup'' else failure (wf_actions w ! i)) None)
       (status_failures w)"

text \<open>The goroutines of every round of retries read the loop variable at a possible time.\<close>

fun rounds_read :: "env \<Rightarrow> nat list list \<Rightarrow> workflow \<times> ext list \<Rightarrow> bool" where
  "rounds_read env [] c = True"
| "rounds_read env (rs # rss) c =
     (retry_reads (length (status_failures (fst c))) rs \<and> rounds_read env rss (fst (retry_failed env rs c)))"

datatype rollout_end = Exits nat "report_row list" | Crashes | NeverEnds

inductive rollout_main :: "rollout_world \<Rightarrow> net_env \<Rightarrow> env \<Rightarrow> load_balancer \<Rightarrow> rollout_end \<Rightarrow> bool"
  for W :: rollout_world and net :: net_env and env :: env and l :: load_balancer where
  setup_error: "rollout_setup W = Err e \<Longrightarrow> rollout_main W net env l (Exits 1 [])"
| setup_hang: "rollout_setup W = Blocked \<Longrightarrow> rollout_main W net env l NeverEnds"
| no_pool: "rollout_setup W = Ok w \<Longrightarrow> snd (ensure_pool net l) \<noteq> Ok () \<Longrightarrow>
     rollout_main W net env l (Exits 1 [])"
| run_fails: "rollout_setup W = Ok w \<Longrightarrow> snd (ensure_pool net l) = Ok () \<Longrightarrow>
     wf_run env (client_pool_health (cf_pattern (wf_config w)) True True (fst (ensure_pool net l))) (w, []) (w', Some e) \<Longrightarrow>
     rollout_main W net env l (Exits 1 (failure_rows w' e))"
| all_done: "rollout_setup W = Ok w \<Longrightarrow> snd (ensure_pool net l) = Ok () \<Longrightarrow>
     wf_run env (client_pool_health (cf_pattern (wf_config w)) True True (fst (ensure_pool net l))) (w, []) (w', None) \<Longrightarrow>
     status_failures w' = [] \<Longrightarrow> rollout_main W net env l (Exits 0 [])"
| retried: "rollout_setup W = Ok w \<Longrightarrow> snd (ensure_pool net l) = Ok () \<Longrightarrow>
     wf_run env (client_pool_health (cf_pattern (wf_config w)) True True (fst (ensure_pool net l))) (w, []) (w', None) \<Longrightarrow>
     status_failures w' \<noteq> [] \<Longrightarrow> length rss = 3 \<Longrightarrow> rounds_read env rss (w', h) \<Longrightarrow>
     main_retries env rss (w', h) = ((w'', h'), Ok b) \<Longrightarrow>
     rollout_main W net env l (Exits 0 (if status_failures w'' = [] then [] else retried_rows w''))"
| retry_crash: "rollout_setup W = Ok w \<Longrightarrow> snd (ensure_pool net l) = Ok () \<Longrightarrow>
     wf_run env (client_pool_health (cf_pattern (wf_config w)) True True (fst (ensure_pool net l))) (w, []) (w', None) \<Longrightarrow>
     status_failures w' \<noteq> [] \<Longrightarrow> length rss = 3 \<Longrightarrow> rounds_read env rss (w', h) \<Longrightarrow>
     main_retries env rss (w', h) = ((w'', h'), Panics q) \<Longrightarrow>
     rollout_main W net env l Crashes"

section \<open>No failed state is ever recorded\<close>

definition fresh_states :: "workflow \<Rightarrow> bool" where
  "fresh_states w \<longleftrightarrow> (\<forall>a \<in> set (wf_actions w). ac_failed_state a = None)"

lemma run_actions_failed_state:
  "run_actions env (a, h) = ((a', h'), r) \<Longrightarrow> ac_failed_state a = None \<Longrightarrow> ac_failed_state a' = None"
  using run_from_frame [of env FindAppLocal "a\<lparr>ac_started := True\<rparr>"]
  by (auto simp: run_actions_def Let_def split: if_splits option.splits)

lemma build_actions_fresh:
  "build_actions cfg bs = Ok as \<Longrightarrow> \<forall>a \<in> set as. ac_failed_state a = None \<and> ac_err a = None"
  by (induction bs arbitrary: as) (auto simp: then_ok_eq_Ok map_err_eq_Ok new_actions_def)

lemma setup_fresh:
  assumes "rollout_setup W = Ok w"
  shows "fresh_states w" "\<forall>a \<in> set (wf_actions w). ac_err a = None" "wf_failures w = 0"
    "validate_config (wf_config w) = Ok ()"
  using assms build_actions_fresh
  by (auto simp: rollout_setup_def new_workflow_def fresh_states_def then_ok_eq_Ok map_err_eq_Ok
      split: if_splits option.splits dial.splits)

lemma run_canaries_fresh:
  "run_canaries env n (as, h) = ((as', h'), r) \<Longrightarrow> \<forall>a \<in> set as. ac_failed_state a = None \<Longrightarrow>
     \<forall>a \<in> set as'. ac_failed_state a = None"
proof (induction env n "(as, h)" arbitrary: as h as' h' r rule: run_canaries.induct)
  case (1 env n h)
  then show ?case by simp
next
  case (2 env n a as h)
  obtain b k e where run: "run_actions env (a, h) = ((b, k), e)" by (metis prod.exhaust)
  have b: "ac_failed_state b = None" using run_actions_failed_state [OF run] "2.prems"(2) by simp
  obtain as1 h1 q where rest: "run_canaries env (n - 1) (as, k) = ((as1, h1), q)" by (metis prod.exhaust)
  show ?case
  proof (cases "0 < n \<and> e = None")
    case True
    then have "\<forall>a \<in> set as1. ac_failed_state a = None"
      using "2.hyps" [OF _ run [symmetric] refl _ rest] "2.prems"(2) by simp
    then show ?thesis using "2.prems"(1) True run rest b by auto
  next
    case False
    then show ?thesis using "2.prems" run b by (auto split: if_splits option.splits)
  qed
qed

lemma results_in_fresh:
  assumes "results_in s as as'" "\<forall>a \<in> set as. ac_failed_state a = None"
  shows "\<forall>a \<in> set as'. ac_failed_state a = None"
proof
  fix a assume "a \<in> set as'"
  then obtain i where i: "i < length as" "a = as' ! i"
    using assms(1) by (auto simp: in_set_conv_nth results_in_def)
  have old: "ac_failed_state (as ! i) = None" using assms(2) i(1) by simp
  show "ac_failed_state a = None"
  proof (cases "int i \<in> set (launched s)")
    case True
    then obtain env h h' r where run: "run_actions env (as ! i, h) = ((as' ! i, h'), r)"
      using assms(1) i(1) unfolding results_in_def by metis
    show ?thesis using run_actions_failed_state [OF run old] i(2) by simp
  next
    case False
    then show ?thesis using assms(1) i old by (simp add: results_in_def)
  qed
qed

lemma wf_run_fresh:
  assumes "wf_run env health (w, h) (w', r)" "fresh_states w"
  shows "fresh_states w'"
  using assms(1)
proof (cases rule: wf_run.cases)
  case (precondition e)
  then show ?thesis using assms(2) by (simp add: fresh_states_def)
next
  case (canary as h' ep e)
  then show ?thesis using assms(2) run_canaries_fresh [OF canary(4)] by (simp add: fresh_states_def)
next
  case (rollout as h' s as' es)
  have "\<forall>a \<in> set as. ac_failed_state a = None"
    using run_canaries_fresh [OF rollout(3)] assms(2) by (simp add: fresh_states_def)
  then show ?thesis using results_in_fresh [OF rollout(6)] rollout(1) by (simp add: fresh_states_def)
qed

lemma retry_loop_fresh:
  "retry_loop env fs rs (w, h) = ((w', h'), oc) \<Longrightarrow> fresh_states w \<Longrightarrow>
     set fs \<subseteq> {..<length (wf_actions w)} \<Longrightarrow> fresh_states w'"
proof (induction rs arbitrary: w h)
  case Nil
  then show ?case by simp
next
  case (Cons r rs)
  show ?case
  proof (cases "r < length fs")
    case False
    then show ?thesis using Cons.prems by simp
  next
    case True
    obtain a k e where run: "run_actions env (wf_actions w ! (fs ! r), h) = ((a, k), e)" by (metis prod.exhaust)
    let ?w = "w\<lparr>wf_actions := (wf_actions w)[fs ! r := a],
        wf_failures := (if e = None then wf_failures w - 1 else wf_failures w)\<rparr>"
    have "fs ! r < length (wf_actions w)" using Cons.prems(3) True nth_mem by blast
    then have "ac_failed_state a = None"
      using run_actions_failed_state [OF run] Cons.prems(2) by (simp add: fresh_states_def)
    then have "fresh_states ?w"
      using Cons.prems(2) set_update_subset_insert [of "wf_actions w" "fs ! r" a] by (auto simp: fresh_states_def)
    moreover have "retry_loop env fs rs (?w, k) = ((w', h'), oc)" using Cons.prems(1) True run by simp
    ultimately show ?thesis using Cons.IH Cons.prems(3) by simp
  qed
qed

lemma main_retries_fresh:
  "main_retries env rss (w, h) = ((w', h'), oc) \<Longrightarrow> fresh_states w \<Longrightarrow> fresh_states w'"
proof (induction rss arbitrary: w h)
  case Nil
  then show ?case by simp
next
  case (Cons rs rss)
  obtain w1 h1 r where one: "retry_failed env rs (w, h) = ((w1, h1), r)" by (metis prod.exhaust)
  have "fresh_states w1"
    using one Cons.prems(2) retry_loop_fresh [of env "status_failures w" rs w h w1 h1 r]
    by (auto simp: retry_failed_def status_failures_def split: if_splits)
  then show ?case using Cons one by (auto split: outcome.splits if_splits)
qed

lemma fresh_failure: "fresh_states w \<Longrightarrow> i \<in> set (status_failures w) \<Longrightarrow> failure (wf_actions w ! i) = []"
  by (simp add: fresh_states_def status_failures_def failure_def)

section \<open>The endpoints of the report\<close>

definition endpoints :: "workflow \<Rightarrow> string list" where
  "endpoints w = map ac_endpoint (wf_actions w)"

lemma retry_loop_endpoints:
  "retry_loop env fs rs (w, h) = ((w', h'), oc) \<Longrightarrow> endpoints w' = endpoints w"
proof (induction rs arbitrary: w h)
  case Nil
  then show ?case by simp
next
  case (Cons r rs)
  show ?case
  proof (cases "r < length fs")
    case False
    then show ?thesis using Cons.prems by simp
  next
    case True
    obtain a k e where run: "run_actions env (wf_actions w ! (fs ! r), h) = ((a, k), e)" by (metis prod.exhaust)
    let ?w = "w\<lparr>wf_actions := (wf_actions w)[fs ! r := a],
        wf_failures := (if e = None then wf_failures w - 1 else wf_failures w)\<rparr>"
    have "ac_endpoint a = ac_endpoint (wf_actions w ! (fs ! r))" using run_actions_err [OF run] by simp
    then have "endpoints ?w = endpoints w"
      by (cases "fs ! r < length (wf_actions w)") (simp_all add: endpoints_def map_update list_update_same_conv list_update_beyond)
    moreover have "retry_loop env fs rs (?w, k) = ((w', h'), oc)" using Cons.prems True run by simp
    ultimately show ?thesis using Cons.IH by simp
  qed
qed

lemma main_retries_endpoints:
  "main_retries env rss (w, h) = ((w', h'), oc) \<Longrightarrow> endpoints w' = endpoints w"
proof (induction rss arbitrary: w h)
  case Nil
  then show ?case by simp
next
  case (Cons rs rss)
  obtain w1 h1 r where one: "retry_failed env rs (w, h) = ((w1, h1), r)" by (metis prod.exhaust)
  have "endpoints w1 = endpoints w"
    using one retry_loop_endpoints [of env "status_failures w" rs w h w1 h1 r]
    by (auto simp: retry_failed_def split: if_splits)
  then show ?case using Cons one by (auto split: outcome.splits if_splits)
qed

lemma retried_report:
  assumes "main_retries env rss (w, h) = ((w', h'), oc)" "fresh_states w" "i \<in> set (status_failures w)"
  shows "ActionRow (endpoints w ! i) ''during setup'' None \<in> set (retried_rows w')"
proof -
  have ne: "status_failures w \<noteq> []" using assms(3) by auto
  have i: "i \<in> set (status_failures w')" using main_retries_keep [OF assms(1) ne] assms(3) by blast
  have "endpoints w' ! i = endpoints w ! i" using main_retries_endpoints [OF assms(1)] by simp
  moreover have "i < length (wf_actions w')" using i by (simp add: status_failures_def)
  moreover have "failure (wf_actions w' ! i) = []"
    using fresh_failure [OF main_retries_fresh [OF assms(1,2)] i] .
  ultimately show ?thesis using i unfolding retried_rows_def set_map
    by (intro image_eqI [of _ _ i]) (simp_all add: endpoints_def)
qed


text \<open>The binary cannot be opened: the canary fails, and its row shows no state.\<close>

definition demo_world :: rollout_world where
  "demo_world = \<lparr>rw_args = [''workflow.json''], rw_file = (\<lambda>_. Some ''{}''), rw_decode = (\<lambda>_. Some demo_config),
     rw_dial = (\<lambda>_. Connected)\<rparr>"

definition demo_new_act :: actions where
  "demo_new_act = \<lparr>ac_endpoint = ''10.0.0.1:80'', ac_ip = Some (v4_prefix @ [10, 0, 0, 1]), ac_port = 80,
     ac_config = demo_config, ac_dst = [], ac_started = False, ac_failed_state = None, ac_err = None\<rparr>"

definition demo_new_wf :: workflow where
  "demo_new_wf = \<lparr>wf_config = demo_config, wf_failures = 0, wf_end = ESUnknown, wf_actions = [demo_new_act]\<rparr>"

lemma demo_setup: "rollout_setup demo_world = Ok demo_new_wf"
  by code_simp

definition demo_failed_act :: actions where
  "demo_failed_act = demo_new_act\<lparr>ac_err := Some (Rollout_Actions.CannotOpen ''app'')\<rparr>"

lemma demo_failed_run:
  "wf_run demo_env_fail (client_pool_health ''/'' True True (fst (ensure_pool demo_net demo_served_lb))) (demo_new_wf, [])
     (demo_new_wf\<lparr>wf_actions := [demo_failed_act], wf_end := ESCanaryFailure\<rparr>,
      Some (CanaryFailed ''10.0.0.1:80'' (Rollout_Actions.CannotOpen ''app'')))"
proof -
  let ?health = "client_pool_health ''/'' True True (fst (ensure_pool demo_net demo_served_lb))"
  have "?health = Ok demo_health" by code_simp
  moreover have "check_lb_state (wf_config demo_new_wf) (Ok demo_health) = Ok ()" by code_simp
  ultimately have check: "check_lb_state (wf_config demo_new_wf) ?health = Ok ()" by simp
  have "run_canaries demo_env_fail (cf_canary_num (wf_config demo_new_wf)) (wf_actions demo_new_wf, [])
      = (([demo_failed_act], [OpenSrc ''app'']), Some (''10.0.0.1:80'', Rollout_Actions.CannotOpen ''app''))"
    by code_simp
  from canary [OF check this] show ?thesis .
qed


end
