(* ===== verification/Pet_Types.thy ===== *)
theory Pet_Types
  imports Pet_Server
begin

text \<open>
  The types of the data in the pet store, across the server (\<open>server.go\<close>), the validation
  (\<open>storage.go\<close>) and the in-memory storage (\<open>mem.go\<close>): what can be stored at all, and what can
  come out of a search, after any history of calls. Nothing is assumed of the tree of
  birthdays, of the order of index answers, or of the calls before.
\<close>

definition proper_pet :: "pet \<Rightarrow> bool" where
  "proper_pet p \<longleftrightarrow>
     p_id p \<noteq> [] \<and> p_name p \<noteq> [] \<and> trim_space (p_name p) = p_name p \<and> p_type p \<noteq> 0
     \<and> (\<exists>d. p_birthday p = Some d \<and> valid_date d)"

definition typed_ids :: "(string, pet) gomap \<Rightarrow> bool" where
  "typed_ids m \<longleftrightarrow> gmap_ok m \<and> (\<forall>x \<in> set m. p_id (snd x) = fst x \<and> proper_pet (snd x))"

lemma typed_gput: "typed_ids m \<Longrightarrow> proper_pet p \<Longrightarrow> typed_ids (gput (p_id p) p m)"
  by (auto simp: typed_ids_def dest!: set_gput [of _ "p_id p" p m])

lemma typed_gdel: "typed_ids m \<Longrightarrow> typed_ids (gdel i m)"
  by (auto simp: typed_ids_def dest!: set_gdel [of _ i m])

section \<open>The storage\<close>

lemma birthday_put_ids [simp]: "ids (birthday_put tr p s) = ids s"
  by (simp add: birthday_put_def Let_def split: option.splits)

lemma birthday_del_ids [simp]: "ids (birthday_del tr p s) = ids s"
  by (simp add: birthday_del_def Let_def split: option.splits)

lemma typed_populate:
  "typed_ids (ids s) \<Longrightarrow> \<forall>p \<in> set ps. proper_pet p \<Longrightarrow> typed_ids (ids (fst (populate tr ps s)))"
  by (induction tr ps s rule: populate.induct) (auto simp: Let_def typed_gput)

lemma typed_delete_all: "typed_ids (ids s) \<Longrightarrow> typed_ids (ids (fst (delete_all tr is s)))"
  by (induction tr "is" s rule: delete_all.induct) (auto simp: Let_def typed_gdel split: option.splits)

lemma typed_mem_ops:
  assumes "typed_ids (ids s)"
  shows "\<forall>p \<in> set ps. proper_pet p \<Longrightarrow> typed_ids (ids (fst (mem_add tr ps s)))"
    and "\<forall>p \<in> set ps. proper_pet p \<Longrightarrow> typed_ids (ids (fst (mem_update tr ps s)))"
    and "typed_ids (ids (fst (mem_delete tr is s)))"
    and "typed_ids (ids (fst (mem_search tr arr taken f s)))"
  using assms typed_populate typed_delete_all
  by (auto simp: mem_add_def mem_update_def mem_delete_def mem_search_def with_lock_def
      split: option.splits outcome.splits)

lemma search_typed:
  assumes "typed_ids (ids s)" "snd (mem_search tr arr taken f s) = Ok items" "Some p \<in> set items"
  shows "proper_pet p \<and> stored_pets s (p_id p) = Some p"
proof -
  obtain all where all: "search_pets tr arr f s = Ok all" "set items \<subseteq> set all"
    using assms(2) by (auto simp: mem_search_def dest: in_set_takeD split: if_splits outcome.splits option.splits)
  have "\<exists>i. map_of (ids s) i = Some p"
  proof (cases "filters f = 0")
    case True
    then have "Some p \<in> set (return_all s)" using all assms(3) by (auto simp: search_pets_def)
    then obtain x where "x \<in> set (ids s)" "snd x = p" by (auto simp: return_all_def)
    then have "map_of (ids s) (fst x) = Some p"
      using assms(1) map_of_is_SomeI [of "ids s" "fst x" "snd x"] by (auto simp: typed_ids_def gmap_ok_def)
    then show ?thesis by blast
  next
    case False
    then have "set all \<subseteq> range (map_of (ids s))" using all(1) by (auto simp: search_pets_def then_ok_eq_Ok)
    then have "Some p \<in> range (map_of (ids s))" using all(2) assms(3) by blast
    then show ?thesis by (auto simp: image_iff eq_commute)
  qed
  then obtain i where i: "map_of (ids s) i = Some p" by blast
  then have "p_id p = i \<and> proper_pet p" using assms(1) map_of_SomeD by (fastforce simp: typed_ids_def)
  then show ?thesis using i by (simp add: stored_pets_def)
qed

section \<open>The handlers\<close>

lemma accepted_proper:
  "snd (validate_pet u p) = Ok () \<Longrightarrow> p_id (f (fst (validate_pet u p))) \<noteq> [] \<Longrightarrow>
     \<forall>q. p_name (f q) = p_name q \<and> p_type (f q) = p_type q \<and> p_birthday (f q) = p_birthday q \<Longrightarrow>
     proper_pet (f (fst (validate_pet u p)))"
  using validate_pet_Ok [of u p] by (simp add: validate_pet_Ok_fst proper_pet_def)

lemma accept_new_proper:
  "accept_new new_id n ps = Ok qs \<Longrightarrow> \<forall>k. new_id k \<noteq> [] \<Longrightarrow> \<forall>q \<in> set qs. proper_pet q"
proof (induction ps arbitrary: n qs)
  case Nil
  then show ?case by simp
next
  case (Cons p ps)
  obtain rest where ok: "snd (validate_pet False p) = Ok ()" "accept_new new_id (Suc n) ps = Ok rest"
      "qs = (fst (validate_pet False p))\<lparr>p_id := new_id n\<rparr> # rest"
    using Cons.prems(1) by (auto simp: split_beta then_ok_eq_Ok)
  have "proper_pet ((fst (validate_pet False p))\<lparr>p_id := new_id n\<rparr>)"
    using accepted_proper [OF ok(1), of "p_id_update (\<lambda>_. new_id n)"] Cons.prems(2) by simp
  then show ?case using Cons.IH [OF ok(2) Cons.prems(2)] ok(3) by simp
qed

lemma accept_old_proper: "accept_old ps = Ok qs \<Longrightarrow> \<forall>q \<in> set qs. proper_pet q"
proof (induction ps arbitrary: qs)
  case Nil
  then show ?case by simp
next
  case (Cons p ps)
  obtain rest where ok: "snd (validate_pet True p) = Ok ()" "accept_old ps = Ok rest" "qs = fst (validate_pet True p) # rest"
    using Cons.prems by (auto simp: split_beta then_ok_eq_Ok)
  have "p_id p \<noteq> []" using ok(1) validate_pet_Ok [of True p] by simp
  then have "proper_pet (fst (validate_pet True p))"
    using accepted_proper [OF ok(1), of "\<lambda>q. q"] by (simp add: validate_pet_Ok_fst [OF ok(1)])
  then show ?case using Cons.IH [OF ok(2)] ok(3) by simp
qed

text \<open>The ids that \<open>uuid.New\<close> makes are not empty.\<close>

fun ids_made :: "api_call \<Rightarrow> bool" where
  "ids_made (ApiAdd new_id ps) = (\<forall>k. new_id k \<noteq> [])"
| "ids_made _ = True"

lemma api_step_typed:
  assumes "typed_ids (ids (store a))" "ids_made c"
  shows "typed_ids (ids (store (fst (api_step (mem_data tr arr) c a))))"
proof (cases c)
  case (ApiAdd new_id ps)
  have [simp]: "fst (forget_result x) = fst x" for x :: "'t mem api \<times> (rpc_err, string list) outcome"
    by (cases x) simp
  show ?thesis
    using ApiAdd assms accept_new_proper [of new_id 0 ps] typed_mem_ops(1) [OF assms(1)]
    by (auto simp: api_add_def with_metrics_body split_beta map_err_eq_Ok split: outcome.splits)
next
  case (ApiUpdate ps)
  then show ?thesis
    using assms accept_old_proper [of ps] typed_mem_ops(2) [OF assms(1)]
    by (auto simp: api_update_def with_metrics_body split_beta map_err_eq_Ok split: outcome.splits)
next
  case (ApiDelete ixs)
  then show ?thesis
    using typed_mem_ops(3) [OF assms(1)] by (simp add: api_delete_def with_metrics_body split_beta)
next
  case (ApiSearch k x f)
  then show ?thesis
    using assms(1) typed_mem_ops(4) [OF assms(1)]
    by (auto simp: api_search_def with_metrics_body split_beta Let_def split: outcome.splits)
qed

lemma api_run_typed:
  "typed_ids (ids (store a)) \<Longrightarrow> \<forall>c \<in> set cs. ids_made c \<Longrightarrow>
     typed_ids (ids (store (fst (run_ops (api_step (mem_data tr arr)) cs a))))"
proof (induction cs arbitrary: a)
  case Nil
  then show ?case by simp
next
  case (Cons c cs)
  then show ?case by (simp only: fst_run_ops_Cons) (simp add: api_step_typed)
qed

lemma typed_run_stored:
  assumes "\<forall>c \<in> set cs. ids_made c"
  shows "typed_ids (ids (store (fst (run_ops (api_step (mem_data tr arr)) cs (new_api (new_mem tr))))))"
    and "stored_pets (store (fst (run_ops (api_step (mem_data tr arr)) cs (new_api (new_mem tr))))) i = Some p \<Longrightarrow>
      p_id p = i \<and> proper_pet p"
proof -
  have "typed_ids (ids (store (new_api (new_mem tr))))"
    by (simp add: new_api_def new_mem_def typed_ids_def)
  then show t: "typed_ids (ids (store (fst (run_ops (api_step (mem_data tr arr)) cs (new_api (new_mem tr))))))"
    using api_run_typed assms by blast
  show "stored_pets (store (fst (run_ops (api_step (mem_data tr arr)) cs (new_api (new_mem tr))))) i = Some p \<Longrightarrow>
      p_id p = i \<and> proper_pet p"
    using t map_of_SomeD by (fastforce simp: typed_ids_def stored_pets_def)
qed

text \<open>
  C20: The types of the pet store. After any sequence of calls of the four handlers on a fresh
  server, refused, crashed and blocked ones included, whatever is stored under an id is a pet with
  that id, a trimmed name that is not empty, a known type and a real date as birthday; and
  a search in that state sends only pets that are stored, or nil.
\<close>

theorem stored_pets_typed:
  assumes "\<forall>c \<in> set cs. ids_made c"
  shows "let s = store (fst (run_ops (api_step (mem_data tr arr)) cs (new_api (new_mem tr))))
    in (\<forall>i p. stored_pets s i = Some p \<longrightarrow> p_id p = i \<and> proper_pet p)
       \<and> (\<forall>k x f p. Some p \<in> set (snd (api_search (mem_data tr arr) k x f (a\<lparr>store := s\<rparr>))) \<longrightarrow>
            stored_pets s (p_id p) = Some p)"
proof -
  define s where "s = store (fst (run_ops (api_step (mem_data tr arr)) cs (new_api (new_mem tr))))"
  have typed: "typed_ids (ids s)" unfolding s_def by (rule typed_run_stored(1) [OF assms])
  have "p_id p = i \<and> proper_pet p" if "stored_pets s i = Some p" for i p
    using typed_run_stored(2) [OF assms] that unfolding s_def by blast
  moreover have "stored_pets s (p_id p) = Some p"
    if "Some p \<in> set (snd (api_search (mem_data tr arr) k x f (a\<lparr>store := s\<rparr>)))" for k x f p
  proof -
    let ?r = "snd (mem_search tr arr (map_option Suc k) f s)"
    have "Some p \<in> set (case ?r of Ok xs \<Rightarrow> xs | _ \<Rightarrow> [])"
      using that by (auto simp: api_search_def Let_def split: outcome.splits if_splits dest: in_set_butlastD)
    then obtain items where "?r = Ok items" "Some p \<in> set items" by (cases ?r) auto
    then show ?thesis using search_typed [OF typed] by blast
  qed
  ultimately show ?thesis unfolding s_def [symmetric] Let_def by blast
qed

theorem stored_pets_typed_witness:
  "\<exists>s. s = store (fst (run_ops (api_step (mem_data list_llrb rev))
              [ApiAdd (\<lambda>n. replicate (Suc n) (CHR ''x'')) [new_pet ''Rex'']] (new_api (new_mem list_llrb))))
     \<and> stored_pets s ''x'' = Some (some_pet ''x'' ''Rex'') \<and> proper_pet (some_pet ''x'' ''Rex'')"
proof -
  let ?a = "new_api (new_mem list_llrb)" and ?p = "new_pet ''Rex''" and ?id = "\<lambda>n. replicate (Suc n) (CHR ''x'')"
  have st: "mem_good list_llrb (store ?a)" "mem_free (store ?a)" using demo_store by (simp_all add: new_api_def)
  have ids: "\<forall>n. stored_pets (store ?a) (?id n) = None" by (simp add: new_api_def stored_pets_def new_mem_def)
  have ok: "\<forall>p \<in> set [?p]. pet_ok False p" using new_pet_ok by simp
  have rex: "as_stored ''x'' ?p = some_pet ''x'' ''Rex''"
    by (simp add: as_stored_def new_pet_def some_pet_def trim_Rex)
  obtain a' where a': "api_add (mem_data list_llrb rev) ?id [?p] ?a = (a', Ok [''x''])"
      "stored_pets (store a') ''x'' = Some (as_stored ''x'' ?p)"
    using ms.api_add_ok [OF mem_add_op st ok inj_replicate ids, of rev] by auto
  have "store (fst (run_ops (api_step (mem_data list_llrb rev)) [ApiAdd ?id [?p]] ?a)) = store a'"
    using a'(1) by (simp add: split_beta)
  then show ?thesis
    using stored_pets_typed [of "[ApiAdd ?id [?p]]" list_llrb rev] a'(2) unfolding rex Let_def by auto
qed

end
