(* ===== verification/Ping.thy ===== *)
theory Ping
  imports Go_Net Go_Steps
begin

text \<open>
  The program that pings hosts (\<open>automation_the_hard_way/ping/ping.go\<close>): a goroutine
  that reads hosts, from the command line or the lines of the standard input, and sends
  them over a channel of one place, the main goroutine that resolves each, and one goroutine
  per host that runs the ping command and reports. The goroutines move one operation at a
  time, in any interleaving.
\<close>

section \<open>Addresses\<close>

datatype netip_addr = Addr4 "nat list" | Addr6 "nat list" string

text \<open>\<open>netip.ParseAddr\<close> and \<open>Addr.String\<close>; an IPv6 address may have a zone.\<close>

definition parse_addr :: "string \<Rightarrow> netip_addr option" where
  "parse_addr s =
     (case find (\<lambda>c. c = CHR ''.'' \<or> c = CHR '':'' \<or> c = CHR ''%'') s of
        None \<Rightarrow> None
      | Some c \<Rightarrow>
          if c = CHR ''.'' then map_option Addr4 (parse_ipv4 s)
          else if c = CHR '':'' then
            (if CHR ''%'' \<in> set s then
               (let zone = tl (dropWhile (\<lambda>x. x \<noteq> CHR ''%'') s)
                in if zone = [] then None
                   else map_option (\<lambda>bs. Addr6 bs zone) (parse_ipv6 (takeWhile (\<lambda>x. x \<noteq> CHR ''%'') s)))
             else map_option (\<lambda>bs. Addr6 bs []) (parse_ipv6 s))
          else None)"

fun addr_text :: "netip_addr \<Rightarrow> string" where
  "addr_text (Addr4 bs) = v4_string bs"
| "addr_text (Addr6 bs zone) =
     (if take 12 bs = v4_prefix then ''::ffff:'' @ v4_string (drop 12 bs) else v6_string bs)
     @ (if zone = [] then [] else CHR ''%'' # zone)"

text \<open>
  The outside: where the ping command is, the resolver, and whether the command at a path
  succeeds for an address.
\<close>

record ping_env =
  look_path :: "string \<Rightarrow> string option"
  lookup_host :: "string \<Rightarrow> string list option"
  ping_ok :: "string \<Rightarrow> string \<Rightarrow> bool"

text \<open>
  \<open>programValidation\<close>: the program to run, with an empty path when it is not found;
  \<open>main\<close> drops the error.
\<close>

definition program_path :: "ping_env \<Rightarrow> string" where
  "program_path env = (case look_path env ''ping'' of Some p \<Rightarrow> p | None \<Rightarrow> [])"

text \<open>A command without a path cannot be run.\<close>

definition host_alive :: "ping_env \<Rightarrow> netip_addr \<Rightarrow> bool" where
  "host_alive env a = (program_path env \<noteq> [] \<and> ping_ok env (program_path env) (addr_text a))"

datatype resolved = Address netip_addr | NotValid | BadAnswer

definition resolve :: "ping_env \<Rightarrow> string \<Rightarrow> resolved" where
  "resolve env host =
     (case parse_addr host of
        Some a \<Rightarrow> Address a
      | None \<Rightarrow>
          (case lookup_host env host of
             None \<Rightarrow> NotValid
           | Some addrs \<Rightarrow>
               if addrs = [] then BadAnswer
               else (case parse_addr (addrs ! 0) of Some a \<Rightarrow> Address a | None \<Rightarrow> BadAnswer)))"

definition alive_line :: "ping_env \<Rightarrow> string \<times> netip_addr \<Rightarrow> string" where
  "alive_line env r =
     ''host('' @ fst r @ '') is alive: '' @ (if host_alive env (snd r) then ''true'' else ''false'') @ [CHR 0x0A]"

section \<open>The hosts\<close>

text \<open>
  \<open>handleStdin\<close> on what the standard input delivers before its end or an error: a text
  after the last newline comes with the end of the input and is not looked at.
\<close>

function handle_stdin :: "string \<Rightarrow> string list" where
  "handle_stdin s =
     (if CHR 0x0A \<in> set s then
        (let line = trim_space (takeWhile (\<lambda>c. c \<noteq> CHR 0x0A) s @ [CHR 0x0A]);
             more = handle_stdin (tl (dropWhile (\<lambda>c. c \<noteq> CHR 0x0A) s))
         in if length line = 0 then more else line # more)
      else [])"
  by pat_completeness auto
termination
proof (relation "measure length")
  fix s :: string
  assume "CHR 0x0A \<in> set s"
  then have "dropWhile (\<lambda>c. c \<noteq> CHR 0x0A) s \<noteq> []" by auto
  then have "length (tl (dropWhile (\<lambda>c. c \<noteq> CHR 0x0A) s)) < length (dropWhile (\<lambda>c. c \<noteq> CHR 0x0A) s)"
    by (cases "dropWhile (\<lambda>c. c \<noteq> CHR 0x0A) s") simp_all
  also have "\<dots> \<le> length s" by (rule length_dropWhile_le)
  finally show "(tl (dropWhile (\<lambda>c. c \<noteq> CHR 0x0A) s), s) \<in> measure length" by simp
qed simp

declare handle_stdin.simps [simp del]

lemma handle_stdin_line:
  assumes "CHR 0x0A \<notin> set l"
  shows "handle_stdin (l @ CHR 0x0A # s) =
    (if trim_space (l @ [CHR 0x0A]) = [] then handle_stdin s else trim_space (l @ [CHR 0x0A]) # handle_stdin s)"
proof -
  have "takeWhile (\<lambda>c. c \<noteq> CHR 0x0A) (l @ CHR 0x0A # s) = l"
    "dropWhile (\<lambda>c. c \<noteq> CHR 0x0A) (l @ CHR 0x0A # s) = CHR 0x0A # s"
    using assms by (induction l) auto
  then show ?thesis by (subst handle_stdin.simps) (simp add: Let_def)
qed

lemma handle_stdin_lines:
  assumes "\<forall>l \<in> set ls. CHR 0x0A \<notin> set l" "CHR 0x0A \<notin> set rest"
  shows "handle_stdin (concat (map (\<lambda>l. l @ [CHR 0x0A]) ls) @ rest)
    = filter (\<lambda>h. h \<noteq> []) (map (\<lambda>l. trim_space (l @ [CHR 0x0A])) ls)"
  using assms(1)
proof (induction ls)
  case Nil
  then show ?case using assms(2) by (subst handle_stdin.simps) simp
next
  case (Cons l ls)
  then show ?case using handle_stdin_line [of l "concat (map (\<lambda>l. l @ [CHR 0x0A]) ls) @ rest"] by simp
qed

section \<open>The goroutines\<close>

datatype ping_end = Usage | AllDone | BadHost string | LookupPanic string | ReadFailed

record ping_prog =
  to_send :: "string list"
  queue :: "string list"
  queue_closed :: bool
  running :: "(string \<times> netip_addr) list"
  reports :: "string list"
  ping_ended :: "ping_end option"

text \<open>
  The start: hosts from the command line, or from the input when there are no arguments;
  \<open>input\<close> is what the input delivers.
\<close>

definition ping_start :: "string list \<Rightarrow> string \<Rightarrow> ping_prog" where
  "ping_start args input =
     \<lparr>to_send = (if length args < 1 then handle_stdin input else args), queue = [], queue_closed = False,
      running = [], reports = [],
      ping_ended = (if 0 < length args \<and> (args ! 0 = ''-h'' \<or> args ! 0 = ''--help'') then Some Usage else None)\<rparr>"

text \<open>
  \<open>broken\<close>: the hosts come from the input and reading it ends with an error. The main
  goroutine is done when the channel is closed and empty and every goroutine has reported.
\<close>

inductive ping_step :: "ping_env \<Rightarrow> bool \<Rightarrow> ping_prog \<Rightarrow> ping_prog \<Rightarrow> bool" for env broken where
  send: "ping_ended p = None \<Longrightarrow> to_send p = h # hs \<Longrightarrow> queue p = [] \<Longrightarrow>
     ping_step env broken p (p\<lparr>to_send := hs, queue := [h]\<rparr>)"
| close: "ping_ended p = None \<Longrightarrow> to_send p = [] \<Longrightarrow> \<not> broken \<Longrightarrow> \<not> queue_closed p \<Longrightarrow>
     ping_step env broken p (p\<lparr>queue_closed := True\<rparr>)"
| fail: "ping_ended p = None \<Longrightarrow> to_send p = [] \<Longrightarrow> broken \<Longrightarrow>
     ping_step env broken p (p\<lparr>ping_ended := Some ReadFailed\<rparr>)"
| take_host: "ping_ended p = None \<Longrightarrow> queue p = h # q \<Longrightarrow> resolve env h = Address a \<Longrightarrow>
     ping_step env broken p (p\<lparr>queue := q, running := running p @ [(h, a)]\<rparr>)"
| take_bad: "ping_ended p = None \<Longrightarrow> queue p = h # q \<Longrightarrow> resolve env h = NotValid \<Longrightarrow>
     ping_step env broken p (p\<lparr>queue := q, ping_ended := Some (BadHost h)\<rparr>)"
| take_panic: "ping_ended p = None \<Longrightarrow> queue p = h # q \<Longrightarrow> resolve env h = BadAnswer \<Longrightarrow>
     ping_step env broken p (p\<lparr>queue := q, ping_ended := Some (LookupPanic h)\<rparr>)"
| report: "ping_ended p = None \<Longrightarrow> r \<in> set (running p) \<Longrightarrow>
     ping_step env broken p (p\<lparr>running := remove1 r (running p), reports := reports p @ [alive_line env r]\<rparr>)"
| finish: "ping_ended p = None \<Longrightarrow> queue_closed p \<Longrightarrow> queue p = [] \<Longrightarrow> running p = [] \<Longrightarrow>
     ping_step env broken p (p\<lparr>ping_ended := Some AllDone\<rparr>)"

section \<open>The invariant\<close>

text \<open>The hosts taken so far are a part of the list of hosts, all of them resolved.\<close>

definition host_report :: "ping_env \<Rightarrow> string \<Rightarrow> string" where
  "host_report env h = (case resolve env h of Address a \<Rightarrow> alive_line env (h, a) | _ \<Rightarrow> [])"

definition resolves :: "ping_env \<Rightarrow> string \<Rightarrow> bool" where
  "resolves env h \<longleftrightarrow> (\<exists>a. resolve env h = Address a)"

definition accounted :: "ping_env \<Rightarrow> string list \<Rightarrow> ping_prog \<Rightarrow> bool" where
  "accounted env taken p \<longleftrightarrow>
     (\<forall>h \<in> set taken. resolves env h)
     \<and> mset (reports p) + mset (map (alive_line env) (running p)) = mset (map (host_report env) taken)"

definition hosts_left :: "ping_env \<Rightarrow> bool \<Rightarrow> string list \<Rightarrow> string list \<Rightarrow> ping_prog \<Rightarrow> bool" where
  "hosts_left env broken hosts taken p \<longleftrightarrow>
     (case ping_ended p of
        None \<Rightarrow> hosts = taken @ queue p @ to_send p \<and> length (queue p) \<le> 1
      | Some AllDone \<Rightarrow> hosts = taken \<and> running p = [] \<and> \<not> broken
      | Some (BadHost h) \<Rightarrow> (\<exists>later. hosts = taken @ h # later) \<and> resolve env h = NotValid
      | Some (LookupPanic h) \<Rightarrow> (\<exists>later. hosts = taken @ h # later) \<and> resolve env h = BadAnswer
      | Some ReadFailed \<Rightarrow> broken \<and> (\<exists>q. hosts = taken @ q \<and> length q \<le> 1)
      | Some Usage \<Rightarrow> taken = [])
     \<and> (queue_closed p \<longrightarrow> to_send p = [] \<and> \<not> broken)"

definition ping_inv :: "ping_env \<Rightarrow> bool \<Rightarrow> string list \<Rightarrow> ping_prog \<Rightarrow> bool" where
  "ping_inv env broken hosts p \<longleftrightarrow> (\<exists>taken. accounted env taken p \<and> hosts_left env broken hosts taken p)"

lemma ping_invI: "accounted env taken p \<Longrightarrow> hosts_left env broken hosts taken p \<Longrightarrow> ping_inv env broken hosts p"
  by (auto simp: ping_inv_def)

lemma accounted_frame [simp]:
  "accounted env taken (p\<lparr>to_send := x\<rparr>) = accounted env taken p"
  "accounted env taken (p\<lparr>queue := x\<rparr>) = accounted env taken p"
  "accounted env taken (p\<lparr>queue_closed := c\<rparr>) = accounted env taken p"
  "accounted env taken (p\<lparr>ping_ended := e\<rparr>) = accounted env taken p"
  by (simp_all add: accounted_def)

lemma accounted_take:
  "accounted env taken p \<Longrightarrow> resolve env h = Address a \<Longrightarrow>
     accounted env (taken @ [h]) (p\<lparr>queue := q, running := running p @ [(h, a)]\<rparr>)"
  by (auto simp: accounted_def resolves_def host_report_def)

lemma accounted_report:
  assumes "accounted env taken p" "r \<in> set (running p)"
  shows "accounted env taken (p\<lparr>running := remove1 r (running p), reports := reports p @ [alive_line env r]\<rparr>)"
proof -
  have "mset (map (alive_line env) (running p))
      = add_mset (alive_line env r) (image_mset (alive_line env) (mset (running p) - {#r#}))"
    using assms(2) by (metis image_mset_add_mset insert_DiffM mset_map set_mset_mset)
  then show ?thesis using assms(1) by (simp add: accounted_def)
qed

lemma ping_inv_step:
  assumes "ping_inv env broken hosts p" "ping_step env broken p q"
  shows "ping_inv env broken hosts q"
proof -
  have None: "ping_ended p = None" using assms(2) by cases simp_all
  obtain taken where acc: "accounted env taken p" and left: "hosts_left env broken hosts taken p"
    using assms(1) by (auto simp: ping_inv_def)
  from assms(2) show ?thesis
  proof cases
    case (take_host h q' a)
    then have "hosts_left env broken hosts (taken @ [h]) q" using left None by (simp add: hosts_left_def)
    with accounted_take [OF acc take_host(4), of q'] take_host(1) show ?thesis by (blast intro: ping_invI)
  next
    case (report r)
    then have "hosts_left env broken hosts taken q" using left None by (simp add: hosts_left_def)
    with accounted_report [OF acc report(3)] report(1) show ?thesis by (blast intro: ping_invI)
  qed (rule ping_invI [of _ taken], use acc left None in \<open>auto simp: hosts_left_def\<close>)+
qed

lemma ping_inv_start:
  assumes "hosts = (if length args < 1 then handle_stdin input else args)"
  shows "ping_inv env broken hosts (ping_start args input)"
  using assms by (intro ping_invI [of _ "[]"]) (simp_all add: accounted_def hosts_left_def ping_start_def)

definition ping_left :: "ping_prog \<Rightarrow> nat" where
  "ping_left p = 3 * length (to_send p) + 2 * length (queue p) + length (running p)
     + (if queue_closed p then 0 else 1) + (if ping_ended p = None then 1 else 0)"

lemma ping_left_step: "ping_step env broken p q \<Longrightarrow> ping_left q < ping_left p"
proof (induction rule: ping_step.induct)
  case (report p r)
  then have "0 < length (running p)" by auto
  with report show ?case by (simp add: ping_left_def length_remove1)
qed (simp_all add: ping_left_def)

lemma ping_progress:
  assumes "ping_inv env broken hosts p" "ping_ended p = None"
  shows "\<exists>q. ping_step env broken p q"
proof (cases "queue p")
  case (Cons h q)
  then show ?thesis
    using assms(2) by (cases "resolve env h")
      (blast intro: ping_step.take_host ping_step.take_bad ping_step.take_panic)+
next
  case Nil
  show ?thesis
  proof (cases "to_send p")
    case Cons
    then show ?thesis using Nil assms(2) by (blast intro: ping_step.send)
  next
    case empty: Nil
    show ?thesis
    proof (cases "running p")
      case (Cons r rs)
      then have "r \<in> set (running p)" by simp
      then show ?thesis using assms(2) by (blast intro: ping_step.report)
    next
      case idle: Nil
      show ?thesis
        using assms(2) Nil empty idle by (cases broken; cases "queue_closed p") (blast intro: ping_step.close ping_step.fail ping_step.finish)+
    qed
  qed
qed

interpretation ping_goroutines: ending_steps "ping_step env broken" "ping_inv env broken hosts" ping_left
    "\<lambda>p. ping_ended p \<noteq> None" for env broken hosts
  by unfold_locales (auto intro: ping_inv_step ping_left_step ping_progress)

lemma reports_part:
  assumes "accounted env taken p"
  shows "mset (reports p) \<subseteq># mset (map (host_report env) taken)"
proof -
  have "mset (map (host_report env) taken) = mset (reports p) + mset (map (alive_line env) (running p))"
    using assms by (simp add: accounted_def)
  then show ?thesis by (simp only: mset_subset_eq_add_left)
qed

lemma ping_ends_early:
  assumes "ping_inv env broken hosts p"
  shows "(\<forall>h. ping_ended p = Some (BadHost h) \<or> ping_ended p = Some (LookupPanic h) \<longrightarrow>
      (\<exists>taken later. hosts = taken @ h # later \<and> \<not> resolves env h \<and> (\<forall>k \<in> set taken. resolves env k)
         \<and> mset (reports p) \<subseteq># mset (map (host_report env) taken)))
    \<and> (ping_ended p = Some ReadFailed \<longrightarrow>
         broken \<and> mset (reports p) \<subseteq># mset (map (host_report env) hosts))"
proof -
  obtain taken where acc: "accounted env taken p" and left: "hosts_left env broken hosts taken p"
    using assms by (auto simp: ping_inv_def)
  note part = reports_part [OF acc]
  have all: "\<forall>k \<in> set taken. resolves env k" using acc by (simp add: accounted_def)
  have "broken \<and> mset (reports p) \<subseteq># mset (map (host_report env) hosts)" if read: "ping_ended p = Some ReadFailed"
  proof -
    obtain q where "broken" "hosts = taken @ q" using left read by (auto simp: hosts_left_def)
    then show ?thesis using part by (simp add: subset_mset.add_increasing2)
  qed
  moreover have "\<exists>taken later. hosts = taken @ h # later \<and> \<not> resolves env h \<and> (\<forall>k \<in> set taken. resolves env k)
         \<and> mset (reports p) \<subseteq># mset (map (host_report env) taken)"
    if bad: "ping_ended p = Some (BadHost h) \<or> ping_ended p = Some (LookupPanic h)" for h
  proof -
    obtain later where "hosts = taken @ h # later" "\<not> resolves env h"
      using left bad by (auto simp: hosts_left_def resolves_def)
    then show ?thesis using part all by blast
  qed
  ultimately show ?thesis by blast
qed

text \<open>
  C8: Pinging the hosts of the standard input. The hosts are the trimmed lines that are not
  empty, each line with its newline; what follows the last newline is never looked at. In
  every interleaving of the goroutines the program ends. When it ends with all done every
  host is resolved and has exactly one report. When it stops at a host, that host has
  no address, the hosts before it have one, and no report is made twice or for any other host;
  and it stops so only at a bad host or when the input cannot be read.
\<close>

theorem ping_lines:
  assumes "\<forall>l \<in> set ls. CHR 0x0A \<notin> set l" "CHR 0x0A \<notin> set rest"
    and "hosts = filter (\<lambda>h. h \<noteq> []) (map (\<lambda>l. trim_space (l @ [CHR 0x0A])) ls)"
    and "start = ping_start [] (concat (map (\<lambda>l. l @ [CHR 0x0A]) ls) @ rest)"
    and "(ping_step env broken)\<^sup>*\<^sup>* start p"
  shows "(\<exists>q. (ping_step env broken)\<^sup>*\<^sup>* p q \<and> ping_ended q \<noteq> None)
    \<and> \<not> (\<exists>f. f 0 = p \<and> (\<forall>i. ping_step env broken (f i) (f (Suc i))))
    \<and> (ping_ended p = Some AllDone \<longrightarrow>
         \<not> broken \<and> (\<forall>h \<in> set hosts. resolves env h) \<and> mset (reports p) = mset (map (host_report env) hosts))
    \<and> (\<forall>h. ping_ended p = Some (BadHost h) \<or> ping_ended p = Some (LookupPanic h) \<longrightarrow>
         (\<exists>taken later. hosts = taken @ h # later \<and> \<not> resolves env h \<and> (\<forall>k \<in> set taken. resolves env k)
            \<and> mset (reports p) \<subseteq># mset (map (host_report env) taken)))
    \<and> (ping_ended p = Some ReadFailed \<longrightarrow>
         broken \<and> mset (reports p) \<subseteq># mset (map (host_report env) hosts))
    \<and> ping_ended p \<noteq> Some Usage"
proof -
  have start: "ping_inv env broken hosts start" "ping_ended start \<noteq> Some Usage"
    using handle_stdin_lines [OF assms(1,2)] unfolding assms(3,4)
    by (intro ping_inv_start) (simp_all add: ping_start_def)
  note inv = ping_goroutines.inv_steps [OF assms(5) start(1)]
  have "ping_ended p \<noteq> Some Usage"
    using assms(5) start(2) by (induction rule: rtranclp_induct) (auto elim: ping_step.cases)
  moreover have "ping_ended p = Some AllDone \<longrightarrow>
      \<not> broken \<and> (\<forall>h \<in> set hosts. resolves env h) \<and> mset (reports p) = mset (map (host_report env) hosts)"
    using inv by (auto simp: ping_inv_def hosts_left_def accounted_def)
  ultimately show ?thesis
    using ping_goroutines.reaches_end [OF inv] ping_goroutines.no_endless_run [OF inv] ping_ends_early [OF inv]
    by blast
qed

text \<open>One run: the second host has no newline and is not pinged.\<close>

definition demo_ping_env :: ping_env where
  "demo_ping_env = \<lparr>look_path = (\<lambda>_. Some ''/sbin/ping''), lookup_host = (\<lambda>_. None), ping_ok = (\<lambda>_ _. True)\<rparr>"

definition demo_ping_input :: string where
  "demo_ping_input = ''10.0.0.1'' @ [CHR 0x0A] @ ''10.0.0.2''"

definition demo_ping_end :: ping_prog where
  "demo_ping_end = \<lparr>to_send = [], queue = [], queue_closed = True, running = [],
     reports = [''host(10.0.0.1) is alive: true'' @ [CHR 0x0A]], ping_ended = Some AllDone\<rparr>"

lemma demo_ping_run: "(ping_step demo_ping_env False)\<^sup>*\<^sup>* (ping_start [] demo_ping_input) demo_ping_end"
proof -
  let ?h = "''10.0.0.1''" and ?a = "Addr4 [10, 0, 0, 1]"
  let ?p = "\<lambda>ts q c run rep e. \<lparr>to_send = ts, queue = q, queue_closed = c, running = run, reports = rep, ping_ended = e\<rparr>"
  let ?line = "alive_line demo_ping_env (?h, ?a)"
  have in1: "handle_stdin demo_ping_input = [?h]"
    using handle_stdin_line [of ?h "''10.0.0.2''"] handle_stdin.simps [of "''10.0.0.2''"]
    unfolding demo_ping_input_def by code_simp
  have res: "resolve demo_ping_env ?h = Address ?a" by code_simp
  have line: "?line = ''host(10.0.0.1) is alive: true'' @ [CHR 0x0A]" by code_simp
  let ?S = "ping_step demo_ping_env False"
  have "?S (?p [?h] [] False [] [] None) (?p [] [?h] False [] [] None)"
    using ping_step.send [of "?p [?h] [] False [] [] None" ?h "[]"] by simp
  moreover have "?S (?p [] [?h] False [] [] None) (?p [] [] False [(?h, ?a)] [] None)"
    using ping_step.take_host [OF _ _ res, of "?p [] [?h] False [] [] None" "[]"] by simp
  moreover have "?S (?p [] [] False [(?h, ?a)] [] None) (?p [] [] False [] [?line] None)"
    using ping_step.report [of "?p [] [] False [(?h, ?a)] [] None" "(?h, ?a)" demo_ping_env] by simp
  moreover have "?S (?p [] [] False [] [?line] None) (?p [] [] True [] [?line] None)"
    using ping_step.close [of "?p [] [] False [] [?line] None" False] by simp
  moreover have "?S (?p [] [] True [] [?line] None) (?p [] [] True [] [?line] (Some AllDone))"
    using ping_step.finish [of "?p [] [] True [] [?line] None"] by simp
  ultimately have "?S\<^sup>*\<^sup>* (?p [?h] [] False [] [] None) (?p [] [] True [] [?line] (Some AllDone))"
    by (meson converse_rtranclp_into_rtranclp rtranclp.rtrancl_refl)
  then show ?thesis unfolding line by (simp add: ping_start_def in1 demo_ping_end_def)
qed

lemma ping_lines_witness:
  "mset (reports demo_ping_end) = {#''host(10.0.0.1) is alive: true'' @ [CHR 0x0A]#}
   \<and> (\<exists>h. handle_stdin demo_ping_input = [h] \<and> mset (reports demo_ping_end) = mset (map (host_report demo_ping_env) [h]))"
proof -
  let ?ls = "[''10.0.0.1'']" and ?rest = "''10.0.0.2''"
  have hosts: "[''10.0.0.1''] = filter (\<lambda>h. h \<noteq> []) (map (\<lambda>l. trim_space (l @ [CHR 0x0A])) ?ls)" by code_simp
  have start: "ping_start [] demo_ping_input
      = ping_start [] (concat (map (\<lambda>l. l @ [CHR 0x0A]) ?ls) @ ?rest)"
    by (simp add: demo_ping_input_def)
  have h: "handle_stdin demo_ping_input = [''10.0.0.1'']"
    using handle_stdin_lines [of ?ls ?rest] hosts by (simp add: demo_ping_input_def)
  have e: "ping_ended demo_ping_end = Some AllDone" by (simp add: demo_ping_end_def)
  have "mset (reports demo_ping_end) = mset (map (host_report demo_ping_env) [''10.0.0.1''])"
    using ping_lines [OF _ _ hosts start demo_ping_run] e by simp
  then show ?thesis using h by (simp add: demo_ping_end_def)
qed

end
