(* ===== verification/SSH_Tools.thy ===== *)
theory SSH_Tools
  imports Go_Strconv
begin

text \<open>
  The programs that run a command (\<open>remoteCmd/remoteCmd.go\<close>) and that install the
  package expect (\<open>expect/expect.go\<close>) on a remote host over SSH: their flag and
  arguments, the choice of the authentication, the connection, and what is done over it.
  The SSH library, the terminal and the remote host are parameters.
\<close>

section \<open>One flag\<close>

datatype flag_error = BadSyntax | NotDefined string | NeedsArgument | HelpAsked

text \<open>
  \<open>flag.Parse\<close> for a program whose only flag is the text flag \<open>name\<close>: its value and
  the arguments that are left.
\<close>

fun flag_parse :: "string \<Rightarrow> string \<Rightarrow> string list \<Rightarrow> (flag_error, string \<times> string list) outcome" where
  "flag_parse name v [] = Ok (v, [])"
| "flag_parse name v (s # args) =
     (if length s < 2 \<or> hd s \<noteq> CHR ''-'' then Ok (v, s # args)
      else if s = ''--'' then Ok (v, args)
      else
        (let n = (if s ! 1 = CHR ''-'' then drop 2 s else tl s);
             key = takeWhile (\<lambda>c. c \<noteq> CHR ''='') n;
             given = dropWhile (\<lambda>c. c \<noteq> CHR ''='') n
         in if n = [] \<or> hd n = CHR ''-'' \<or> hd n = CHR ''='' then Err BadSyntax
            else if key \<noteq> name then Err (if key = ''help'' \<or> key = ''h'' then HelpAsked else NotDefined key)
            else if given \<noteq> [] then flag_parse name (tl given) args
            else (case args of [] \<Rightarrow> Err NeedsArgument | a # as \<Rightarrow> flag_parse name a as)))"

lemma flag_parse_value:
  assumes "flag_parse name v args = Ok (w, rest)" "w \<noteq> v"
  shows "args \<noteq> [] \<and> prefix ''-'' (args ! 0)"
proof (cases args)
  case Nil
  then show ?thesis using assms by simp
next
  case (Cons s as)
  have "\<not> (length s < 2 \<or> hd s \<noteq> CHR ''-'')"
  proof
    assume "length s < 2 \<or> hd s \<noteq> CHR ''-''"
    then have "flag_parse name v (s # as) = Ok (v, s # as)" by simp
    then show False using assms Cons by simp
  qed
  then show ?thesis using Cons by (cases s) simp_all
qed

declare flag_parse.simps(2) [simp del]

lemma flag_parse_step:
  "(\<exists>x. flag_parse name v (s # args) = Ok x) \<or> (\<exists>e. flag_parse name v (s # args) = Err e)
   \<or> (\<exists>w. flag_parse name v (s # args) = flag_parse name w args)
   \<or> (\<exists>a as. args = a # as \<and> flag_parse name v (s # args) = flag_parse name a as)"
proof -
  define P where "P r \<longleftrightarrow> (\<exists>x. r = Ok x) \<or> (\<exists>e. r = Err e) \<or> (\<exists>w. r = flag_parse name w args)
      \<or> (\<exists>a as. args = a # as \<and> r = flag_parse name a as)" for r
  have P: "P (Ok x)" "P (Err e)" "P (flag_parse name w args)" "args = a # as \<Longrightarrow> P (flag_parse name a as)"
    for x e w a as by (auto simp: P_def)
  have "P (flag_parse name v (s # args))"
    unfolding flag_parse.simps(2) Let_def by (simp add: P split: list.split)
  then show ?thesis by (simp add: P_def)
qed

lemma flag_parse_total: "(\<exists>x. flag_parse name v args = Ok x) \<or> (\<exists>e. flag_parse name v args = Err e)"
proof (induction "length args" arbitrary: v args rule: less_induct)
  case less
  show ?case
  proof (cases args)
    case (Cons s as)
    then have a: "(\<exists>x. flag_parse name w as = Ok x) \<or> (\<exists>e. flag_parse name w as = Err e)" for w
      by (intro less) simp
    have b: "(\<exists>x. flag_parse name w bs = Ok x) \<or> (\<exists>e. flag_parse name w bs = Err e)" if "as = x # bs" for w x bs
      using that Cons by (intro less) simp
    show ?thesis using flag_parse_step [of name v s as] a b unfolding Cons by metis
  qed simp
qed

section \<open>The connection\<close>

datatype auth = PasswordAuth string | KeyAuth string

record ssh_env =
  terminal :: bool
  typed_password :: "string option"
  key_file :: "string \<Rightarrow> string option"
  signer_of :: "string \<Rightarrow> string option"
  user_name :: "string option"
  accepts :: "string \<Rightarrow> string \<Rightarrow> auth \<Rightarrow> bool"
  new_session :: bool
  cmd_output :: "string \<Rightarrow> (unit, string) outcome"

datatype tool_err =
    FlagErr flag_error | WrongArgs | BadTarget addr_err | NoTerminal | NoPassword | EmptyPassword
  | NoKeyFile | BadKey | NoUser | NoConnection | NoSession | CommandFailed
  | NoSpawn | NoPrompt | SendFailed | UnexpectedOutput

definition password_from_term :: "ssh_env \<Rightarrow> (tool_err, auth) outcome" where
  "password_from_term env =
     (case typed_password env of
        None \<Rightarrow> Err NoPassword
      | Some p \<Rightarrow> if length (trim_space p) = 0 then Err EmptyPassword else Ok (PasswordAuth p))"

definition public_key :: "ssh_env \<Rightarrow> string \<Rightarrow> (tool_err, auth) outcome" where
  "public_key env file =
     (case key_file env file of
        None \<Rightarrow> Err NoKeyFile
      | Some k \<Rightarrow> (case signer_of env k of None \<Rightarrow> Err BadKey | Some s \<Rightarrow> Ok (KeyAuth s)))"

definition ssh_target :: "string \<Rightarrow> (tool_err, string) outcome" where
  "ssh_target host =
     (case split_host_port host of
        Ok _ \<Rightarrow> Ok host
      | _ \<Rightarrow> map_err BadTarget (then_ok (split_host_port (host @ '':22'')) (\<lambda>_. Ok (host @ '':22''))))"

text \<open>
  The common beginning of the two programs: \<open>args\<close> are the arguments behind the name of
  the program, of which there must be \<open>n\<close> with the flags, and the first is the host.
\<close>

definition ssh_dial :: "ssh_env \<Rightarrow> nat \<Rightarrow> string list \<Rightarrow> (tool_err, string \<times> auth) outcome" where
  "ssh_dial env n args =
     then_ok (map_err FlagErr (flag_parse ''private'' [] args)) (\<lambda>(private_flag, _).
       if length args \<noteq> n then Err WrongArgs
       else then_ok (ssh_target (args ! 0)) (\<lambda>addr.
         then_ok (if private_flag = [] then (if \<not> terminal env then Err NoTerminal else password_from_term env)
                  else public_key env private_flag) (\<lambda>au.
           case user_name env of
             None \<Rightarrow> Err NoUser
           | Some u \<Rightarrow> if accepts env addr u au then Ok (addr, au) else Err NoConnection)))"

section \<open>Running a command\<close>

text \<open>
  \<open>combinedOutput\<close>: when the three seconds of its context are over a signal is sent,
  which the server may ignore, so the output, an error or no return are up to the server.
\<close>

definition combined_output :: "ssh_env \<Rightarrow> string \<Rightarrow> (tool_err, string) outcome" where
  "combined_output env cmd =
     (if \<not> new_session env then Err NoSession else map_err (\<lambda>_. CommandFailed) (cmd_output env cmd))"

definition remote_cmd_main :: "ssh_env \<Rightarrow> string list \<Rightarrow> (tool_err, string) outcome" where
  "remote_cmd_main env args = then_ok (ssh_dial env 2 args) (\<lambda>_. combined_output env (args ! 1))"

section \<open>Installing expect\<close>

text \<open>
  The remote shell as a function of what has been sent to it. \<open>case_seen\<close> is the number
  of the expected text that came in time. \<open>closes_failed\<close> and \<open>closes_done\<close>: the
  library closes the pipe that copies the output when the shell could not be started, and
  when it is closed.
\<close>

record shell_env =
  spawns :: bool
  prompt_seen :: "string list \<Rightarrow> bool"
  send_ok :: "string list \<Rightarrow> bool"
  case_seen :: "string list \<Rightarrow> nat option"
  closes_failed :: bool
  closes_done :: bool

definition apt_get :: string where
  "apt_get = ''sudo apt-get install expect'' @ [CHR 0x0A]"

definition yes_line :: string where
  "yes_line = ''Y'' @ [CHR 0x0A]"

definition last_prompt :: "shell_env \<Rightarrow> string list \<Rightarrow> string list \<times> (tool_err, unit) outcome" where
  "last_prompt sh sent = (sent, if prompt_seen sh sent then Ok () else Err NoPrompt)"

definition install_dialog :: "shell_env \<Rightarrow> string list \<times> (tool_err, unit) outcome" where
  "install_dialog sh =
     (if \<not> prompt_seen sh [] then ([], Err NoPrompt)
      else if \<not> send_ok sh [apt_get] then ([apt_get], Err SendFailed)
      else (case case_seen sh [apt_get] of
              None \<Rightarrow> ([apt_get], Err UnexpectedOutput)
            | Some k \<Rightarrow>
                if k = 0 then
                  (if \<not> send_ok sh [apt_get, yes_line] then ([apt_get, yes_line], Err SendFailed)
                   else last_prompt sh [apt_get, yes_line])
                else last_prompt sh [apt_get]))"

text \<open>
  \<open>installExpect\<close>: what was sent and the result. The deferred function waits for the
  end of the copied output on every path.
\<close>

definition install_expect :: "shell_env \<Rightarrow> string list \<times> (tool_err, unit) outcome" where
  "install_expect sh =
     (if \<not> spawns sh then ([], if closes_failed sh then Err NoSpawn else Blocked)
      else case install_dialog sh of (sent, r) \<Rightarrow> (sent, if closes_done sh then r else Blocked))"

definition expect_main :: "ssh_env \<Rightarrow> shell_env \<Rightarrow> string list \<Rightarrow> string list \<times> (tool_err, unit) outcome" where
  "expect_main env sh args =
     (case ssh_dial env 1 args of
        Ok _ \<Rightarrow> install_expect sh
      | Err e \<Rightarrow> ([], Err e)
      | Panics q \<Rightarrow> ([], Panics q)
      | Blocked \<Rightarrow> ([], Blocked))"

fun tool_exit_code :: "(tool_err, 'a) outcome \<Rightarrow> nat option" where
  "tool_exit_code (Ok _) = Some 0"
| "tool_exit_code (Err (FlagErr HelpAsked)) = Some 0"
| "tool_exit_code (Err (FlagErr _)) = Some 2"
| "tool_exit_code (Err _) = Some 1"
| "tool_exit_code (Panics _) = Some 2"
| "tool_exit_code Blocked = None"

section \<open>The key is never used\<close>

lemma ssh_target_cases:
  "ssh_target host = Ok addr \<Longrightarrow> addr = host \<or> addr = host @ '':22''"
  by (auto simp: ssh_target_def then_ok_eq_Ok map_err_eq_Ok split: outcome.splits)

lemma ssh_dial_cases:
  assumes "ssh_dial env n args = Ok (addr, au)"
  obtains key rest u where "flag_parse ''private'' [] args = Ok (key, rest)" "length args = n"
    "ssh_target (args ! 0) = Ok addr" "user_name env = Some u" "accepts env addr u au"
    "(if key = [] then (if \<not> terminal env then Err NoTerminal else password_from_term env)
      else public_key env key) = Ok au"
proof -
  obtain key rest where f: "flag_parse ''private'' [] args = Ok (key, rest)"
    using assms by (auto simp: ssh_dial_def then_ok_eq_Ok map_err_eq_Ok)
  let ?au = "if key = [] then (if \<not> terminal env then Err NoTerminal else password_from_term env)
      else public_key env key"
  have n: "length args = n" using assms f by (simp add: ssh_dial_def split: if_splits)
  obtain addr' au' where t: "ssh_target (args ! 0) = Ok addr'" and a: "?au = Ok au'"
    and u: "(case user_name env of None \<Rightarrow> Err NoUser
        | Some u \<Rightarrow> if accepts env addr' u au' then Ok (addr', au') else Err NoConnection) = Ok (addr, au)"
    using assms f n unfolding ssh_dial_def by (simp add: then_ok_eq_Ok) blast
  then obtain u' where "user_name env = Some u'" "accepts env addr u' au" "addr' = addr" "au' = au"
    by (auto split: option.splits if_splits)
  then show ?thesis using that f n t a by blast
qed

lemma public_key_auth: "public_key env key = Ok au \<Longrightarrow> \<exists>k. au = KeyAuth k"
  by (auto simp: public_key_def split: option.splits)

lemma password_auth:
  "password_from_term env = Ok au \<Longrightarrow> \<exists>p. typed_password env = Some p \<and> trim_space p \<noteq> [] \<and> au = PasswordAuth p"
  by (auto simp: password_from_term_def split: option.splits if_splits)

text \<open>
  C37: The flag for the private key cannot be used. A connection of either program goes to its
  first argument, and with a password typed at a terminal unless that first argument is the
  flag itself, which is then the host that is dialled; with the flag in front of its proper
  arguments a program only reports their number.
\<close>

theorem private_key_unusable:
  assumes "n = 1 \<or> n = 2"
  shows "(\<forall>addr au. ssh_dial env n args = Ok (addr, au) \<longrightarrow>
        length args = n \<and> (addr = args ! 0 \<or> addr = args ! 0 @ '':22'')
        \<and> (prefix ''-'' (args ! 0)
           \<or> (\<exists>p. terminal env \<and> typed_password env = Some p \<and> trim_space p \<noteq> [] \<and> au = PasswordAuth p)))
    \<and> (prefix ''-'' f \<and> length proper_args = n \<longrightarrow>
        (\<exists>e. ssh_dial env n (f # proper_args) = Err e \<and> tool_exit_code (Err e :: (tool_err, unit) outcome) \<noteq> None))"
proof (intro conjI allI impI)
  fix addr au assume dial: "ssh_dial env n args = Ok (addr, au)"
  then obtain key rest where c: "flag_parse ''private'' [] args = Ok (key, rest)" "length args = n"
    "ssh_target (args ! 0) = Ok addr"
    "(if key = [] then (if \<not> terminal env then Err NoTerminal else password_from_term env)
      else public_key env key) = Ok au"
    by (rule ssh_dial_cases) blast
  show "length args = n" using c(2) .
  show "addr = args ! 0 \<or> addr = args ! 0 @ '':22''" using ssh_target_cases [OF c(3)] .
  show "prefix ''-'' (args ! 0)
      \<or> (\<exists>p. terminal env \<and> typed_password env = Some p \<and> trim_space p \<noteq> [] \<and> au = PasswordAuth p)"
  proof (cases "key = []")
    case True
    then show ?thesis using c(4) password_auth by (auto split: if_splits)
  next
    case False
    then show ?thesis using flag_parse_value [OF c(1)] by blast
  qed
next
  assume "prefix ''-'' f \<and> length proper_args = n"
  then have len: "length (f # proper_args) \<noteq> n" by simp
  show "\<exists>e. ssh_dial env n (f # proper_args) = Err e \<and> tool_exit_code (Err e :: (tool_err, unit) outcome) \<noteq> None"
  proof (cases "flag_parse ''private'' [] (f # proper_args)")
    case (Ok v)
    then show ?thesis using len by (cases v) (simp add: ssh_dial_def)
  next
    case (Err e)
    then show ?thesis by (cases e) (simp_all add: ssh_dial_def)
  qed (use flag_parse_total [of "''private''" "[]" "f # proper_args"] in simp_all)
qed

definition demo_ssh :: ssh_env where
  "demo_ssh = \<lparr>terminal = True, typed_password = Some ''secret'', key_file = (\<lambda>_. Some ''key''),
     signer_of = Some, user_name = Some ''me'', accepts = (\<lambda>_ _ _. True), new_session = True,
     cmd_output = (\<lambda>_. Ok ''Linux'')\<rparr>"

theorem private_key_unusable_witness:
  "ssh_dial demo_ssh 2 [''myhost'', ''uname''] = Ok (''myhost:22'', PasswordAuth ''secret'')
   \<and> remote_cmd_main demo_ssh [''myhost'', ''uname''] = Ok ''Linux''
   \<and> ssh_dial demo_ssh 2 [''-private=id'', ''uname''] = Ok (''-private=id:22'', KeyAuth ''key'')
   \<and> (\<exists>e. ssh_dial demo_ssh 2 [''-private=id'', ''myhost'', ''uname''] = Err e)"
proof -
  have "ssh_dial demo_ssh 2 [''myhost'', ''uname''] = Ok (''myhost:22'', PasswordAuth ''secret'')"
    "remote_cmd_main demo_ssh [''myhost'', ''uname''] = Ok ''Linux''"
    "ssh_dial demo_ssh 2 [''-private=id'', ''uname''] = Ok (''-private=id:22'', KeyAuth ''key'')"
    by code_simp+
  moreover have "\<exists>e. ssh_dial demo_ssh 2 (''-private=id'' # [''myhost'', ''uname'']) = Err e"
    using private_key_unusable [of 2 demo_ssh "[]" "''-private=id''" "[''myhost'', ''uname'']"] by auto
  ultimately show ?thesis by blast
qed

section \<open>The dialog of the installation\<close>

text \<open>
  What is sent to the remote shell is the command and, exactly when the question came, its
  answer; with a library that closes the pipe at the end the result is never a hang, and a shell
  that could not be started hangs the program unless the library closes the pipe even then.
\<close>

lemma install_expect_dialog:
  "prefix (fst (install_expect sh)) [apt_get, yes_line]
   \<and> (fst (install_expect sh) = [apt_get, yes_line] \<longleftrightarrow>
        spawns sh \<and> prompt_seen sh [] \<and> send_ok sh [apt_get] \<and> case_seen sh [apt_get] = Some 0)
   \<and> (snd (install_expect sh) = Blocked \<longleftrightarrow>
        (if spawns sh then \<not> closes_done sh else \<not> closes_failed sh))
   \<and> (snd (install_expect sh) = Ok () \<longrightarrow> spawns sh \<and> prompt_seen sh (fst (install_expect sh))
        \<and> fst (install_expect sh) \<noteq> [])"
  by (auto simp: install_expect_def install_dialog_def last_prompt_def split: option.splits)

end
