(* ===== verification/Http_Clients.thy ===== *)
theory Http_Clients
  imports Go_Prelude
begin

text \<open>
  The two clients that keep asking a web server: with retries
  (\<open>design_for_chaos/backoff/httpclient\<close>) and behind a circuit breaker
  (\<open>design_for_chaos/circuitbreakers/httpclient\<close>). The packages \<open>backoff\<close> and
  \<open>gobreaker\<close> are not in the repository: \<open>Retry\<close> and \<open>Execute\<close> are arguments, with
  what their documentation promises as the hypotheses \<open>retry_laws\<close> and \<open>breaker_laws\<close>. The
  server is a function from the number of a request to its reply.
\<close>

section \<open>Requests\<close>

datatype reply = NoAnswer | Answer nat

text \<open>The world of a client: the number of requests sent, and the replies whose body is still open.\<close>

record http_world =
  sent :: nat
  unclosed :: "nat list"

record http_resp =
  rs_number :: nat
  rs_status :: nat

datatype http_err = FetchFailed | Non200

definition send_request :: "(nat \<Rightarrow> reply) \<Rightarrow> http_world \<Rightarrow> http_world \<times> (http_err + http_resp)" where
  "send_request net w =
     (case net (sent w) of
        NoAnswer \<Rightarrow> (w\<lparr>sent := Suc (sent w)\<rparr>, Inl FetchFailed)
      | Answer c \<Rightarrow> (w\<lparr>sent := Suc (sent w), unclosed := sent w # unclosed w\<rparr>,
                    Inr \<lparr>rs_number = sent w, rs_status = c\<rparr>))"

definition close_body :: "http_resp \<Rightarrow> http_world \<Rightarrow> http_world" where
  "close_body r w = w\<lparr>unclosed := removeAll (rs_number r) (unclosed w)\<rparr>"

definition client_start :: http_world where
  "client_start = \<lparr>sent = 0, unclosed = []\<rparr>"

datatype client_line = UnableToFetch | Success

datatype client_exit = WrongArguments | NoRequest

definition client_args :: "string list \<Rightarrow> (client_exit, http_world \<times> client_line list) outcome" where
  "client_args args = (if length args \<noteq> 2 then Err WrongArguments else Ok (client_start, []))"

text \<open>How many of the first requests are answered with 200, and which others are answered.\<close>

definition hits :: "(nat \<Rightarrow> reply) \<Rightarrow> nat \<Rightarrow> nat" where
  "hits net m = length (filter (\<lambda>k. net k = Answer 200) [0..<m])"

definition refusal :: "(nat \<Rightarrow> reply) \<Rightarrow> nat \<Rightarrow> bool" where
  "refusal net k \<longleftrightarrow> net k \<noteq> NoAnswer \<and> net k \<noteq> Answer 200"

definition refusals :: "(nat \<Rightarrow> reply) \<Rightarrow> nat \<Rightarrow> nat list" where
  "refusals net m = rev (filter (refusal net) [0..<m])"

lemma hits_0 [simp]: "hits net 0 = 0" and refusals_0 [simp]: "refusals net 0 = []"
  by (simp_all add: hits_def refusals_def)

lemma hits_Suc [simp]: "hits net (Suc m) = (if net m = Answer 200 then Suc (hits net m) else hits net m)"
  by (simp add: hits_def)

lemma refusals_Suc [simp]: "refusals net (Suc m) = (if refusal net m then m # refusals net m else refusals net m)"
  by (simp add: refusals_def)

lemma refusals_less: "k \<in> set (refusals net m) \<Longrightarrow> k < m"
  by (auto simp: refusals_def)

lemma hits_mono: "m \<le> m' \<Longrightarrow> hits net m \<le> hits net m'"
  by (induction m' rule: dec_induct) auto

lemma hits_stay: "m \<le> m' \<Longrightarrow> \<forall>k \<ge> m. net k \<noteq> Answer 200 \<Longrightarrow> hits net m' = hits net m"
  by (induction m' rule: dec_induct) auto

definition tidy :: "(nat \<Rightarrow> reply) \<Rightarrow> http_world \<Rightarrow> bool" where
  "tidy net w \<longleftrightarrow> unclosed w = refusals net (sent w)"

section \<open>The client with retries\<close>

text \<open>
  The closure that is retried: its context is cancelled as it returns, the response is kept in
  a variable of \<open>Do\<close>, which the next attempt overwrites.
\<close>

definition backoff_op ::
    "(nat \<Rightarrow> reply) \<Rightarrow> http_world \<times> http_resp option \<Rightarrow> (http_world \<times> http_resp option) \<times> http_err option" where
  "backoff_op net c =
     (case send_request net (fst c) of
        (w, Inl e) \<Rightarrow> ((w, None), Some e)
      | (w, Inr r) \<Rightarrow> ((w, Some r), if rs_status r \<noteq> 200 then Some Non200 else None))"

type_synonym retrier =
  "(http_world \<times> http_resp option \<Rightarrow> (http_world \<times> http_resp option) \<times> http_err option)
     \<Rightarrow> http_world \<times> http_resp option \<Rightarrow> ((http_world \<times> http_resp option) \<times> http_err option) option"

definition retry_do :: "retrier \<Rightarrow> (nat \<Rightarrow> reply) \<Rightarrow> http_world \<Rightarrow> (http_world \<times> (http_err + http_resp option)) option" where
  "retry_do retry net w =
     (case retry (backoff_op net) (w, None) of
        None \<Rightarrow> None
      | Some ((w', _), Some e) \<Rightarrow> Some (w', Inl e)
      | Some ((w', resp), None) \<Rightarrow> Some (w', Inr resp))"

text \<open>
  One round of \<open>main\<close>, and its first \<open>n\<close> rounds; \<open>url_ok\<close> tells which addresses make a
  request. Sleeping has no effect.
\<close>

definition retry_round ::
    "retrier \<Rightarrow> (nat \<Rightarrow> reply) \<Rightarrow> bool \<Rightarrow> http_world \<times> client_line list
      \<Rightarrow> (client_exit, http_world \<times> client_line list) outcome" where
  "retry_round retry net valid c =
     (if \<not> valid then Err NoRequest
      else case retry_do retry net (fst c) of
        None \<Rightarrow> Blocked
      | Some (w, Inl e) \<Rightarrow> Ok (w, snd c @ [UnableToFetch])
      | Some (w, Inr None) \<Rightarrow> Panics NilDeref
      | Some (w, Inr (Some r)) \<Rightarrow> Ok (close_body r w, snd c @ [Success]))"

fun retry_main ::
    "retrier \<Rightarrow> (nat \<Rightarrow> reply) \<Rightarrow> (string \<Rightarrow> bool) \<Rightarrow> string list \<Rightarrow> nat
      \<Rightarrow> (client_exit, http_world \<times> client_line list) outcome" where
  "retry_main retry net url_ok args 0 = client_args args"
| "retry_main retry net url_ok args (Suc n) =
     then_ok (retry_main retry net url_ok args n) (retry_round retry net (url_ok (args ! 1)))"

text \<open>
  What the package promises of \<open>Retry\<close> with a policy that never stops, as one without a
  maximal elapsed time: it repeats the operation until it returns no error.
\<close>

definition never_ok :: "('s \<Rightarrow> 's \<times> 'e option) \<Rightarrow> 's \<Rightarrow> bool" where
  "never_ok op s \<longleftrightarrow> (\<forall>n. snd (op (((\<lambda>x. fst (op x)) ^^ n) s)) \<noteq> None)"

definition retry_laws :: "(('s \<Rightarrow> 's \<times> 'e option) \<Rightarrow> 's \<Rightarrow> ('s \<times> 'e option) option) \<Rightarrow> bool" where
  "retry_laws retry \<longleftrightarrow>
     (\<forall>op s. snd (op s) = None \<longrightarrow> retry op s = Some (op s))
     \<and> (\<forall>op s. snd (op s) \<noteq> None \<longrightarrow> retry op s = retry op (fst (op s)))
     \<and> (\<forall>op s. never_ok op s \<longrightarrow> retry op s = None)"

partial_function (option) retry_until_ok :: "('s \<Rightarrow> 's \<times> 'e option) \<Rightarrow> 's \<Rightarrow> ('s \<times> 'e option) option" where
  "retry_until_ok op s = (case op s of (s', None) \<Rightarrow> Some (s', None) | (s', Some e) \<Rightarrow> retry_until_ok op s')"

lemma never_ok_step: "never_ok op s \<Longrightarrow> snd (op s) \<noteq> None \<and> never_ok op (fst (op s))"
  unfolding never_ok_def by (metis comp_apply funpow.simps(1) funpow_Suc_right id_apply)

lemma retry_loop_returns:
  fixes op :: "'s \<Rightarrow> 's \<times> 'e option"
  shows "retry_until_ok op s = Some y \<Longrightarrow> \<not> never_ok op s"
proof (rule retry_until_ok.raw_induct [where P = "\<lambda>op s y. \<not> never_ok op s"])
  fix loop :: "('s \<Rightarrow> 's \<times> 'e option) \<Rightarrow> 's \<Rightarrow> ('s \<times> 'e option) option" and op s y
  assume "\<And>op s y. loop op s = Some y \<Longrightarrow> \<not> never_ok op s"
    and "(case op s of (s', None) \<Rightarrow> Some (s', None) | (s', Some e) \<Rightarrow> loop op s') = Some y"
  then show "\<not> never_ok op s" using never_ok_step [of op s] by (auto split: prod.splits option.splits)
qed

lemma retry_loop_laws: "retry_laws retry_until_ok"
  unfolding retry_laws_def
proof (intro conjI allI impI)
  fix op :: "'s \<Rightarrow> 's \<times> 'e option" and s
  show "snd (op s) = None \<Longrightarrow> retry_until_ok op s = Some (op s)"
    by (subst retry_until_ok.simps) (auto split: prod.splits)
  show "snd (op s) \<noteq> None \<Longrightarrow> retry_until_ok op s = retry_until_ok op (fst (op s))"
    by (subst retry_until_ok.simps) (auto split: prod.splits)
  show "never_ok op s \<Longrightarrow> retry_until_ok op s = None"
    using retry_loop_returns [of op s] by (cases "retry_until_ok op s") auto
qed

lemma op_hit: "net (sent w) = Answer 200 \<Longrightarrow> tidy net w \<Longrightarrow>
    backoff_op net (w, r) = ((w\<lparr>sent := Suc (sent w), unclosed := sent w # refusals net (sent w)\<rparr>,
       Some \<lparr>rs_number = sent w, rs_status = 200\<rparr>), None)"
  by (simp add: backoff_op_def send_request_def tidy_def)

lemma op_miss:
  assumes "net (sent w) \<noteq> Answer 200" "tidy net w"
  shows "snd (backoff_op net (w, r)) \<noteq> None \<and> sent (fst (fst (backoff_op net (w, r)))) = Suc (sent w)
    \<and> tidy net (fst (fst (backoff_op net (w, r))))"
  using assms by (auto simp: backoff_op_def send_request_def tidy_def refusal_def split: reply.splits)

lemma retry_hit:
  assumes "retry_laws retry" "sent w \<le> k" "net k = Answer 200" "\<forall>j. sent w \<le> j \<longrightarrow> j < k \<longrightarrow> net j \<noteq> Answer 200"
    "tidy net w"
  shows "retry (backoff_op net) (w, r) =
    Some ((\<lparr>sent = Suc k, unclosed = k # refusals net k\<rparr>, Some \<lparr>rs_number = k, rs_status = 200\<rparr>), None)"
  using assms(2-)
proof (induction "k - sent w" arbitrary: w r)
  case 0
  then have k: "sent w = k" by simp
  show ?case using assms(1) op_hit [of net w r] 0(3,5) k unfolding retry_laws_def by (cases w) auto
next
  case (Suc d)
  obtain w' r' where w': "fst (backoff_op net (w, r)) = (w', r')" by (metis prod.exhaust)
  have lt: "sent w < k" using Suc(2) by simp
  then have miss: "snd (backoff_op net (w, r)) \<noteq> None" "sent w' = Suc (sent w)" "tidy net w'"
    using op_miss [of net w r] Suc(5,6) w' by auto
  have "retry (backoff_op net) (w, r) = retry (backoff_op net) (w', r')"
    using assms(1) miss(1) w' unfolding retry_laws_def by metis
  then show ?case using Suc(1) [of w' r'] Suc(2,4,5) miss(2,3) lt by simp
qed

lemma op_never:
  assumes "\<forall>k \<ge> sent w. net k \<noteq> Answer 200" "tidy net w"
  shows "never_ok (backoff_op net) (w, r)"
proof -
  have "sent w \<le> sent (fst (((\<lambda>x. fst (backoff_op net x)) ^^ n) (w, r)))
      \<and> tidy net (fst (((\<lambda>x. fst (backoff_op net x)) ^^ n) (w, r)))" for n
  proof (induction n)
    case 0
    then show ?case using assms(2) by simp
  next
    case (Suc n)
    obtain w' r' where w': "((\<lambda>x. fst (backoff_op net x)) ^^ n) (w, r) = (w', r')" by (metis prod.exhaust)
    then have "net (sent w') \<noteq> Answer 200" "tidy net w'" using Suc assms(1) by simp_all
    from op_miss [OF this, of r'] show ?case using Suc w' by simp
  qed
  then have "snd (backoff_op net (((\<lambda>x. fst (backoff_op net x)) ^^ n) (w, r))) \<noteq> None" for n
    using assms(1) op_miss [of net] by (metis prod.collapse)
  then show ?thesis by (simp add: never_ok_def)
qed

definition round_state :: "(nat \<Rightarrow> reply) \<Rightarrow> nat \<Rightarrow> http_world \<times> client_line list \<Rightarrow> bool" where
  "round_state net n c \<longleftrightarrow> snd c = replicate n Success \<and> hits net (sent (fst c)) = n \<and> tidy net (fst c)"

lemma retry_round_state:
  assumes "retry_laws retry" "round_state net n c"
  shows "case retry_round retry net True c of
      Ok c' \<Rightarrow> round_state net (Suc n) c'
    | Blocked \<Rightarrow> \<forall>m. hits net m < Suc n
    | _ \<Rightarrow> False"
proof (cases "\<exists>k \<ge> sent (fst c). net k = Answer 200")
  case True
  define k where "k = (LEAST k. sent (fst c) \<le> k \<and> net k = Answer 200)"
  have k: "sent (fst c) \<le> k" "net k = Answer 200" using LeastI_ex [of "\<lambda>k. sent (fst c) \<le> k \<and> net k = Answer 200"] True
    unfolding k_def by blast+
  have before: "net j \<noteq> Answer 200" if "sent (fst c) \<le> j" "j < k" for j
    using not_less_Least [of j "\<lambda>k. sent (fst c) \<le> k \<and> net k = Answer 200"] that unfolding k_def by blast
  have "hits net k = hits net (sent (fst c))" using k(1) before
    by (induction k rule: dec_induct) (simp_all add: less_Suc_eq)
  moreover have "k \<notin> set (refusals net k)" using refusals_less by blast
  moreover have "\<not> refusal net k" using k(2) by (simp add: refusal_def)
  moreover have "retry (backoff_op net) (fst c, None) =
      Some ((\<lparr>sent = Suc k, unclosed = k # refusals net k\<rparr>, Some \<lparr>rs_number = k, rs_status = 200\<rparr>), None)"
    using retry_hit [OF assms(1), of "fst c" k net None] k before assms(2) by (simp add: round_state_def)
  ultimately show ?thesis using assms(2) k(2)
    by (simp add: retry_round_def retry_do_def round_state_def close_body_def tidy_def replicate_append_same)
next
  case False
  then have "never_ok (backoff_op net) (fst c, None)"
    using op_never [of "fst c" net None] assms(2) by (auto simp: round_state_def)
  then have "retry_round retry net True c = Blocked"
    using assms(1) by (simp add: retry_laws_def retry_round_def retry_do_def)
  moreover have "hits net m < Suc n" for m
    using hits_stay [where net = net and m = "sent (fst c)" and m' = m] hits_mono [where net = net and m = m and m' = "sent (fst c)"] False assms(2)
    by (cases "m \<le> sent (fst c)") (auto simp: round_state_def)
  ultimately show ?thesis by simp
qed

text \<open>
  C0: The client with retries. Called with one address that makes a request, its endless loop
  comes through its \<open>n\<close>th round exactly if the server answers at least \<open>n\<close> requests with 200,
  and otherwise hangs in a round for ever. It then has printed \<open>n\<close> successes and not a single
  error, so the branch of \<open>main\<close> that reports one is dead; and every reply with another status
  that it ever got is still open.
\<close>

theorem retry_program:
  assumes "retry_laws retry"
  shows "case retry_main retry net url_ok args n of
      Ok (w, out) \<Rightarrow> length args = 2 \<and> out = replicate n Success \<and> hits net (sent w) = n
        \<and> unclosed w = refusals net (sent w)
    | Err e \<Rightarrow> length args \<noteq> 2 \<or> 0 < n \<and> \<not> url_ok (args ! 1)
    | Blocked \<Rightarrow> \<forall>m. hits net m < n
    | _ \<Rightarrow> False"
proof -
  have "case retry_main retry net url_ok args n of Ok c \<Rightarrow> length args = 2 \<and> round_state net n c
    | Err e \<Rightarrow> length args \<noteq> 2 \<or> 0 < n \<and> \<not> url_ok (args ! 1)
    | Blocked \<Rightarrow> \<forall>m. hits net m < n | _ \<Rightarrow> False"
  proof (induction n)
    case 0
    then show ?case by (simp add: client_args_def round_state_def client_start_def tidy_def)
  next
    case (Suc n)
    show ?case
    proof (cases "retry_main retry net url_ok args n")
      case (Ok c)
      then show ?thesis using Suc retry_round_state [OF assms, where net = net and n = n and c = c]
        by (cases "url_ok (args ! 1)") (auto simp: retry_round_def [of _ _ False] split: outcome.splits)
    qed (use Suc in \<open>auto intro: less_SucI\<close>)
  qed
  then show ?thesis by (auto simp: round_state_def tidy_def split: outcome.splits)
qed

definition flaky :: "nat \<Rightarrow> reply" where
  "flaky k = (if k = 0 then NoAnswer else if k = 1 then Answer 503 else if k = 2 then Answer 200 else Answer 500)"

lemma flaky_hits: "hits flaky m = (if m \<le> 2 then 0 else 1)"
  by (induction m) (auto simp: flaky_def)

abbreviation flaky_main :: "nat \<Rightarrow> (client_exit, http_world \<times> client_line list) outcome" where
  "flaky_main \<equiv> retry_main retry_until_ok flaky (\<lambda>_. True) [''client'', ''http://a'']"

theorem retry_program_witness:
  "flaky_main 1 = Ok (\<lparr>sent = 3, unclosed = [1]\<rparr>, [Success]) \<and> flaky_main 2 = Blocked"
proof
  have "retry_until_ok (backoff_op flaky) (client_start, None) =
      Some ((\<lparr>sent = 3, unclosed = [2, 1]\<rparr>, Some \<lparr>rs_number = 2, rs_status = 200\<rparr>), None)"
    by (subst retry_until_ok.simps, simp add: backoff_op_def send_request_def flaky_def client_start_def)+
  then show "flaky_main 1 = Ok (\<lparr>sent = 3, unclosed = [1]\<rparr>, [Success])"
    by (simp add: retry_round_def retry_do_def close_body_def client_args_def)
  have "hits flaky m \<noteq> 2" for m by (simp add: flaky_hits)
  then show "flaky_main 2 = Blocked"
    using retry_program [OF retry_loop_laws, where net = flaky and n = 2 and url_ok = "\<lambda>_. True"
        and args = "[''client'', ''http://a'']"]
    by (cases "flaky_main 2") auto
qed

section \<open>The client with a circuit breaker\<close>

text \<open>
  The settings of the breaker, in seconds. A call of \<open>Execute\<close> gets whether the period of the
  breaker's state (\<open>Interval\<close> while it is closed, \<open>Timeout\<close> while it is open) has passed.
\<close>

record cb_settings =
  max_requests :: nat
  interval :: nat
  timeout :: nat
  ready_to_trip :: "nat \<Rightarrow> bool"

definition client_settings :: cb_settings where
  "client_settings = \<lparr>max_requests = 1, interval = 30, timeout = 10, ready_to_trip = (\<lambda>failures. failures > 5)\<rparr>"

datatype period = Within | Elapsed

datatype cb_err = Rejected | Ran http_err

type_synonym 'b executor =
  "cb_settings \<Rightarrow> period \<Rightarrow> 'b \<Rightarrow> (http_world \<Rightarrow> http_world \<times> (http_err + http_resp)) \<Rightarrow> http_world
     \<Rightarrow> 'b \<times> http_world \<times> (cb_err + http_resp)"

text \<open>The closure handed to the breaker.\<close>

definition breaker_op :: "(nat \<Rightarrow> reply) \<Rightarrow> http_world \<Rightarrow> http_world \<times> (http_err + http_resp)" where
  "breaker_op net w =
     (case send_request net w of
        (w', Inl e) \<Rightarrow> (w', Inl e)
      | (w', Inr r) \<Rightarrow> if rs_status r \<noteq> 200 then (w', Inl Non200) else (w', Inr r))"

definition breaker_do ::
    "'b executor \<Rightarrow> (nat \<Rightarrow> reply) \<Rightarrow> period \<Rightarrow> 'b \<Rightarrow> http_world \<Rightarrow> 'b \<times> http_world \<times> (cb_err + http_resp)" where
  "breaker_do execute net p b w = execute client_settings p b (breaker_op net) w"

definition breaker_round ::
    "'b executor \<Rightarrow> (nat \<Rightarrow> reply) \<Rightarrow> bool \<Rightarrow> period \<Rightarrow> 'b \<times> http_world \<times> client_line list
      \<Rightarrow> (client_exit, 'b \<times> http_world \<times> client_line list) outcome" where
  "breaker_round execute net valid p = (\<lambda>(b, w, out).
     if \<not> valid then Err NoRequest
     else case breaker_do execute net p b w of
       (b', w', Inl e) \<Rightarrow> Ok (b', w', out @ [UnableToFetch])
     | (b', w', Inr r) \<Rightarrow> Ok (b', close_body r w', out @ [Success]))"

fun breaker_rounds ::
    "'b executor \<Rightarrow> (nat \<Rightarrow> reply) \<Rightarrow> bool \<Rightarrow> period list \<Rightarrow> 'b \<times> http_world \<times> client_line list
      \<Rightarrow> (client_exit, 'b \<times> http_world \<times> client_line list) outcome" where
  "breaker_rounds execute net valid [] c = Ok c"
| "breaker_rounds execute net valid (p # ps) c =
     then_ok (breaker_round execute net valid p c) (breaker_rounds execute net valid ps)"

text \<open>The first rounds of \<open>main\<close>, one for each period; \<open>b\<close> is the breaker that \<open>New\<close> makes.\<close>

definition breaker_main ::
    "'b executor \<Rightarrow> 'b \<Rightarrow> (nat \<Rightarrow> reply) \<Rightarrow> (string \<Rightarrow> bool) \<Rightarrow> string list \<Rightarrow> period list
      \<Rightarrow> (client_exit, 'b \<times> http_world \<times> client_line list) outcome" where
  "breaker_main execute b net url_ok args ps =
     then_ok (client_args args) (\<lambda>c. breaker_rounds execute net (url_ok (args ! 1)) ps (b, c))"

text \<open>
  What the package promises: \<open>shut\<close> and \<open>failures\<close> are the state of a breaker and its count of
  consecutive failures. A closed breaker runs the call, and asks \<open>ReadyToTrip\<close> after each failure;
  the count starts again with each interval. An open one refuses calls until its timeout has passed;
  the next call is then run and closes it or, failing, opens it again.
\<close>

definition breaker_laws :: "'b executor \<Rightarrow> ('b \<Rightarrow> bool) \<Rightarrow> ('b \<Rightarrow> nat) \<Rightarrow> bool" where
  "breaker_laws execute shut failures \<longleftrightarrow>
     (\<forall>s b op w. \<not> shut b \<longrightarrow> execute s Within b op w = (b, w, Inl Rejected))
     \<and> (\<forall>s p b op w. max_requests s = 1 \<and> (shut b \<or> p = Elapsed) \<longrightarrow>
          snd (execute s p b op w) = (fst (op w), map_sum Ran id (snd (op w)))
          \<and> (isl (snd (op w)) \<or> shut (fst (execute s p b op w)) \<and> failures (fst (execute s p b op w)) = 0)
          \<and> (\<not> isl (snd (op w)) \<or> (let k = Suc (if p = Within then failures b else 0) in
               if shut b \<and> \<not> ready_to_trip s k
               then shut (fst (execute s p b op w)) \<and> failures (fst (execute s p b op w)) = k
               else \<not> shut (fst (execute s p b op w)))))"

lemma breaker_op_cases:
  assumes "tidy net w"
  shows "fst (breaker_op net w) = \<lparr>sent = Suc (sent w),
        unclosed = (if net (sent w) = NoAnswer then refusals net (sent w) else sent w # refusals net (sent w))\<rparr>
    \<and> (if net (sent w) = Answer 200 then snd (breaker_op net w) = Inr \<lparr>rs_number = sent w, rs_status = 200\<rparr>
        else isl (snd (breaker_op net w)))"
  using assms by (auto simp: breaker_op_def send_request_def tidy_def split: reply.splits)

definition successes :: "client_line list \<Rightarrow> nat" where
  "successes out = length (filter (\<lambda>l. l = Success) out)"

text \<open>What holds after the periods \<open>ps\<close>; the second part is for a server that never answers with 200.\<close>

definition breaker_state ::
    "('b \<Rightarrow> bool) \<Rightarrow> ('b \<Rightarrow> nat) \<Rightarrow> (nat \<Rightarrow> reply) \<Rightarrow> period list \<Rightarrow> 'b \<times> http_world \<times> client_line list \<Rightarrow> bool" where
  "breaker_state shut failures net ps = (\<lambda>(b, w, out).
     length out = length ps \<and> successes out = hits net (sent w) \<and> tidy net w
     \<and> ((\<forall>k. net k \<noteq> Answer 200) \<longrightarrow>
          (if shut b then failures b \<le> 5 \<and> sent w \<le> 6 * count_list ps Elapsed + failures b
           else sent w \<le> 6 * count_list ps Elapsed + 6)
          \<and> (Elapsed \<notin> set ps \<longrightarrow>
               (if shut b then sent w = length ps \<and> failures b = length ps else sent w = 6 \<and> 6 \<le> length ps))))"

lemma breaker_round_state:
  assumes "breaker_laws execute shut failures" "breaker_state shut failures net ps (b, w, out)"
  shows "\<exists>c. breaker_round execute net True p (b, w, out) = Ok c \<and> breaker_state shut failures net (ps @ [p]) c"
proof (cases "\<not> shut b \<and> p = Within")
  case True
  then have "execute client_settings p b (breaker_op net) w = (b, w, Inl Rejected)"
    using assms(1) by (simp add: breaker_laws_def)
  then show ?thesis using assms(2) True
    by (auto simp: breaker_round_def breaker_do_def breaker_state_def successes_def)
next
  case False
  then have run: "shut b \<or> p = Elapsed" by (cases p) auto
  obtain b' w' r where ex: "execute client_settings p b (breaker_op net) w = (b', w', r)" by (metis prod.exhaust)
  let ?o = "snd (breaker_op net w)" and ?k = "Suc (if p = Within then failures b else 0)"
  have tidy: "tidy net w" using assms(2) by (simp add: breaker_state_def)
  have "max_requests client_settings = 1" by (simp add: client_settings_def)
  then have law: "w' = fst (breaker_op net w)" "r = map_sum Ran id ?o"
      "isl ?o \<or> shut b' \<and> failures b' = 0"
      "\<not> isl ?o \<or> (if shut b \<and> \<not> ready_to_trip client_settings ?k then shut b' \<and> failures b' = ?k else \<not> shut b')"
    using assms(1) run ex unfolding breaker_laws_def by (metis fst_conv snd_conv)+
  show ?thesis
  proof (cases "net (sent w) = Answer 200")
    case True
    then have "?o = Inr \<lparr>rs_number = sent w, rs_status = 200\<rparr>"
      "w' = \<lparr>sent = Suc (sent w), unclosed = sent w # refusals net (sent w)\<rparr>"
      using breaker_op_cases [OF tidy] law(1) by simp_all
    moreover have "sent w \<notin> set (refusals net (sent w))" using refusals_less by blast
    ultimately show ?thesis using assms(2) True ex law(2)
      by (auto simp: breaker_round_def breaker_do_def breaker_state_def successes_def close_body_def tidy_def refusal_def)
  next
    case False
    then have o: "isl ?o" "sent w' = Suc (sent w)" "tidy net w'"
      using breaker_op_cases [OF tidy] law(1) by (auto simp: tidy_def refusal_def)
    then obtain e where e: "r = Inl e" using law(2) by (cases ?o) auto
    have round: "breaker_round execute net True p (b, w, out) = Ok (b', w', out @ [UnableToFetch])"
      using ex e by (simp add: breaker_round_def breaker_do_def)
    have trip: "if shut b \<and> ?k \<le> 5 then shut b' \<and> failures b' = ?k else \<not> shut b'"
      using law(4) o(1) by (simp add: client_settings_def not_less)
    have "breaker_state shut failures net (ps @ [p]) (b', w', out @ [UnableToFetch])"
      using assms(2) False o(2,3) trip run
      by (cases p; cases "shut b") (auto simp: breaker_state_def successes_def split: if_splits)
    then show ?thesis using round by blast
  qed
qed

lemma breaker_rounds_state:
  assumes "breaker_laws execute shut failures"
  shows "breaker_state shut failures net qs c \<Longrightarrow>
    \<exists>c'. breaker_rounds execute net True ps c = Ok c' \<and> breaker_state shut failures net (qs @ ps) c'"
proof (induction ps arbitrary: qs c)
  case Nil
  then show ?case by simp
next
  case (Cons p ps)
  obtain b w out where c: "c = (b, w, out)" by (metis prod.exhaust)
  obtain c1 where c1: "breaker_round execute net True p c = Ok c1" "breaker_state shut failures net (qs @ [p]) c1"
    using breaker_round_state [OF assms] Cons.prems unfolding c by blast
  from Cons.IH [OF c1(2)] c1(1) show ?case by auto
qed

lemma breaker_rounds_invalid: "ps \<noteq> [] \<Longrightarrow> breaker_rounds execute net False ps c = Err NoRequest"
  by (cases ps; cases c) (simp_all add: breaker_round_def)

text \<open>
  The client with a circuit breaker. Each round of its loop prints one line, a success
  exactly for a request that was sent and answered with 200, and the conversion of the result
  never panics; every other reply stays open. A server that never answers with 200 gets at
  most six requests for the first interval and for each later period that has passed; before any
  period has passed it gets the first six requests exactly, the sixth after five failures.
\<close>

theorem breaker_program:
  assumes "breaker_laws execute shut failures" "shut b" "failures b = 0"
  shows "case breaker_main execute b net url_ok args ps of
      Ok (b', w, out) \<Rightarrow> length args = 2 \<and> length out = length ps \<and> successes out = hits net (sent w)
        \<and> unclosed w = refusals net (sent w)
        \<and> ((\<forall>k. net k \<noteq> Answer 200) \<longrightarrow> sent w \<le> 6 * Suc (count_list ps Elapsed)
             \<and> (Elapsed \<notin> set ps \<longrightarrow> sent w = min (length ps) 6))
    | Err e \<Rightarrow> length args \<noteq> 2 \<or> ps \<noteq> [] \<and> \<not> url_ok (args ! 1)
    | _ \<Rightarrow> False"
proof (cases "length args = 2 \<and> url_ok (args ! 1)")
  case True
  have "breaker_state shut failures net [] (b, client_start, [])"
    using assms(2,3) by (simp add: breaker_state_def successes_def client_start_def tidy_def)
  from breaker_rounds_state [OF assms(1) this, of ps] True obtain b' w out
    where run: "breaker_main execute b net url_ok args ps = Ok (b', w, out)"
      and st: "breaker_state shut failures net ps (b', w, out)"
    by (auto simp: breaker_main_def client_args_def)
  then show ?thesis using True
    by (cases "shut b'") (auto simp: breaker_state_def tidy_def)
next
  case False
  then show ?thesis
    using assms(2,3) breaker_rounds_invalid [of ps execute net]
    by (cases "ps = []") (auto simp: breaker_main_def client_args_def successes_def client_start_def)
qed

text \<open>A breaker that keeps the promises: closed with a count of failures, or open.\<close>

datatype demo_breaker = Shut nat | Open

definition demo_execute :: "demo_breaker executor" where
  "demo_execute s p b op w =
     (if b = Open \<and> p = Within then (b, w, Inl Rejected)
      else case op w of
        (w', Inr r) \<Rightarrow> (Shut 0, w', Inr r)
      | (w', Inl e) \<Rightarrow>
          (case b of
             Open \<Rightarrow> Open
           | Shut n \<Rightarrow> (let k = Suc (if p = Within then n else 0) in if ready_to_trip s k then Open else Shut k),
           w', Inl (Ran e)))"

fun is_shut :: "demo_breaker \<Rightarrow> bool" where
  "is_shut (Shut _) = True"
| "is_shut Open = False"

fun shut_failures :: "demo_breaker \<Rightarrow> nat" where
  "shut_failures (Shut n) = n"
| "shut_failures Open = 0"

lemma demo_execute_laws: "breaker_laws demo_execute is_shut shut_failures"
proof -
  have "\<not> is_shut b \<longleftrightarrow> b = Open" for b by (cases b) simp_all
  then show ?thesis
    by (auto simp: breaker_laws_def demo_execute_def Let_def split: prod.splits sum.splits demo_breaker.splits)
qed

theorem breaker_program_witness:
  "\<exists>b w out. breaker_main demo_execute (Shut 0) (\<lambda>_. Answer 500) (\<lambda>_. True) [''client'', ''http://a''] (replicate 8 Within)
     = Ok (b, w, out) \<and> sent w = 6 \<and> unclosed w = [5, 4, 3, 2, 1, 0]"
proof -
  have r: "refusals (\<lambda>_. Answer 500) 6 = [5, 4, 3, 2, 1, 0]" by (simp add: refusals_def refusal_def upt_rec)
  show ?thesis
    using breaker_program [OF demo_execute_laws, where b = "Shut 0" and net = "\<lambda>_. Answer 500" and url_ok = "\<lambda>_. True"
        and args = "[''client'', ''http://a'']" and ps = "replicate 8 Within"]
    by (auto simp: r split: outcome.splits)
qed

end
