(* ===== verification/Qotd_Clients.thy ===== *)
theory Qotd_Clients
  imports Qotd
begin

text \<open>
  The four clients of the quote server as whole programs: with arguments (\<open>usingos\<close>), with flags
  (\<open>usingflags\<close>), with both (\<open>both\<close>) and as the command \<open>get\<close> (\<open>cobra\<close>). They agree on
  what they print for an author; composed with the server it is one of the author's quotes.
\<close>

section \<open>Connections\<close>

text \<open>
  The network: which addresses are valid and reached, whether writing succeeds, and what is received in
  answer to what was sent, with whether it ends properly.
\<close>

record 'a qotd_net =
  qn_parse :: "string \<Rightarrow> 'a option"
  qn_dial :: "'a \<Rightarrow> bool"
  qn_write :: bool
  qn_answer :: "string \<Rightarrow> string \<times> bool"

datatype qotd_fatal = UsageFatal | InvalidAddress | NotDialled | WriteFailed | ReadFailed | AuthorAndRandom

text \<open>A fatal error comes with what was printed before it.\<close>

type_synonym qotd_end = "(qotd_fatal \<times> string, string) outcome"

definition nl :: string where
  "nl = [CHR 0x0A]"

text \<open>Copying the answer to the terminal, and reading at most 1024 bytes of it.\<close>

definition copy_answer :: "'a qotd_net \<Rightarrow> string \<Rightarrow> qotd_end" where
  "copy_answer net req =
     (let (s, proper) = qn_answer net req in if proper then Ok (s @ nl) else Err (ReadFailed, s))"

definition read_answer :: "'a qotd_net \<Rightarrow> string \<Rightarrow> qotd_end" where
  "read_answer net req =
     (let (s, proper) = qn_answer net req
      in if length s \<ge> 1024 \<or> proper then Ok (take 1024 s @ nl) else Err (ReadFailed, []))"

definition qotd_stdin :: "'a qotd_net \<Rightarrow> string \<Rightarrow> qotd_end" where
  "qotd_stdin net input = (if \<not> qn_write net then Err (WriteFailed, []) else copy_answer net input)"

definition write_author :: "'a qotd_net \<Rightarrow> string \<Rightarrow> (qotd_fatal \<times> string, string) outcome" where
  "write_author net author =
     (if author \<noteq> ''none'' \<and> \<not> qn_write net then Err (WriteFailed, []) else Ok (author_request author))"

definition handle_author :: "'a qotd_net \<Rightarrow> string \<Rightarrow> qotd_end" where
  "handle_author net author = then_ok (write_author net author) (copy_answer net)"

definition handle_author_1024 :: "'a qotd_net \<Rightarrow> string \<Rightarrow> qotd_end" where
  "handle_author_1024 net author = then_ok (write_author net author) (read_answer net)"

definition qotd_connect :: "'a qotd_net \<Rightarrow> string \<Rightarrow> qotd_end \<Rightarrow> qotd_end" where
  "qotd_connect net addr talk =
     (case get_addr (qn_parse net) addr of
        None \<Rightarrow> Err (InvalidAddress, [])
      | Some a \<Rightarrow> if qn_dial net a then talk else Err (NotDialled, []))"

section \<open>The programs\<close>

definition qotd_os_usage :: string where
  "qotd_os_usage = ''Usage: qotd <addr> [author]''"

definition qotd_os :: "'a qotd_net \<Rightarrow> string \<Rightarrow> string list \<Rightarrow> qotd_end" where
  "qotd_os net input args =
     (if args = [] then Panics IndexOutOfRange
      else if length args = 1 then Err (UsageFatal, [])
      else if ''-h'' \<in> set (tl args) \<or> ''-help'' \<in> set (tl args) then Ok qotd_os_usage
      else qotd_connect net (args ! 1)
             (case os_author args of None \<Rightarrow> qotd_stdin net input | Some author \<Rightarrow> handle_author net author))"

definition qotd_flags :: "'a qotd_net \<Rightarrow> string \<Rightarrow> string \<Rightarrow> string \<Rightarrow> qotd_end" where
  "qotd_flags net input addr author =
     qotd_connect net addr
       (case flag_author author of None \<Rightarrow> qotd_stdin net input | Some a \<Rightarrow> handle_author net a)"

definition qotd_both :: "'a qotd_net \<Rightarrow> string \<Rightarrow> string \<Rightarrow> bool \<Rightarrow> string list \<Rightarrow> qotd_end" where
  "qotd_both net input addr random args =
     (case both_author random args of
        Err _ \<Rightarrow> Err (AuthorAndRandom, [])
      | Ok None \<Rightarrow> qotd_connect net addr (qotd_stdin net input)
      | Ok (Some author) \<Rightarrow> qotd_connect net addr (handle_author_1024 net author)
      | Panics p \<Rightarrow> Panics p
      | Blocked \<Rightarrow> Blocked)"

text \<open>The flags of a command: a flag that was never defined makes the program panic.\<close>

record get_flags =
  string_flag :: "string \<Rightarrow> string option"
  bool_flag :: "string \<Rightarrow> bool option"

definition must_string :: "get_flags \<Rightarrow> string \<Rightarrow> (qotd_fatal \<times> string, string) outcome" where
  "must_string fs name = (case string_flag fs name of None \<Rightarrow> Panics (PanicMsg name) | Some v \<Rightarrow> Ok v)"

definition must_bool :: "get_flags \<Rightarrow> string \<Rightarrow> (qotd_fatal \<times> string, bool) outcome" where
  "must_bool fs name = (case bool_flag fs name of None \<Rightarrow> Panics (PanicMsg name) | Some v \<Rightarrow> Ok v)"

definition qotd_get :: "'a qotd_net \<Rightarrow> get_flags \<Rightarrow> qotd_end" where
  "qotd_get net fs =
     then_ok (must_string fs ''addr'') (\<lambda>addr.
     then_ok (must_bool fs ''dev'') (\<lambda>dev.
       let addr' = (if dev then ''127.0.0.1:17'' else addr)
       in case get_addr (qn_parse net) addr' of
            None \<Rightarrow> Err (InvalidAddress, [])
          | Some a \<Rightarrow> then_ok (must_string fs ''author'') (\<lambda>author.
              if qn_dial net a then handle_author_1024 net (get_author author) else Err (NotDialled, []))))"

section \<open>The server behind the network\<close>

text \<open>
  What a connection to the server gets: its quote, and an improper end if the server crashes.
  The server reads at most 1024 bytes, and nothing sent is a deadline there.
\<close>

definition server_answer :: "(string, string list) gomap \<Rightarrow> string \<Rightarrow> nat \<Rightarrow> string \<Rightarrow> string \<times> bool" where
  "server_answer table first rnd req =
     (case handle_conn table first rnd (if req = [] then None else Some (take 1024 req)) of
        Ok s \<Rightarrow> (s, True)
      | _ \<Rightarrow> ([], False))"

section \<open>Agreement\<close>

definition get_with :: "string \<Rightarrow> string \<Rightarrow> get_flags" where
  "get_with addr author =
     \<lparr>string_flag = (\<lambda>n. if n = ''addr'' then Some addr else if n = ''author'' then Some author else None),
      bool_flag = (\<lambda>n. if n = ''dev'' then Some False else None)\<rparr>"

definition asked :: "'a qotd_net \<Rightarrow> string \<Rightarrow> string \<Rightarrow> qotd_end" where
  "asked net addr author =
     qotd_connect net addr
       (if qn_write net then Ok (fst (qn_answer net (author @ nl)) @ nl) else Err (WriteFailed, []))"

lemma handle_author_short:
  assumes "a \<noteq> ''none''" "snd (qn_answer net (a @ nl))" "length (fst (qn_answer net (a @ nl))) \<le> 1024"
  shows "handle_author net a = (if qn_write net then Ok (fst (qn_answer net (a @ nl)) @ nl) else Err (WriteFailed, []))"
    and "handle_author_1024 net a = (if qn_write net then Ok (fst (qn_answer net (a @ nl)) @ nl) else Err (WriteFailed, []))"
  using assms
  by (simp_all add: handle_author_def handle_author_1024_def write_author_def author_request_def copy_answer_def
      read_answer_def nl_def split_beta)

lemma quotes_short: "list_all (\<lambda>x. list_all (\<lambda>q. length q \<le> 1024) (snd x)) author_to_quotes"
  by (simp add: author_to_quotes_def)

lemma quotes_of_short: "q \<in> quotes_of a \<Longrightarrow> length q \<le> 1024"
  using quotes_short by (auto simp: quotes_of_def list_all_iff dest: map_of_SomeD split: option.splits)

lemma server_answers_author:
  assumes "a \<in> set authors"
  shows "\<exists>q \<in> quotes_of a. server_answer author_to_quotes first rnd (a @ nl) = (q, True)"
proof -
  have "a \<noteq> ''none''" using assms authors_clean by (auto simp: list_all_iff)
  then show ?thesis
    using ask_author [OF assms, of first rnd]
    by (auto simp: server_answer_def ask_def author_request_def nl_def)
qed


definition demo_qotd :: "string qotd_net" where
  "demo_qotd = \<lparr>qn_parse = Some, qn_dial = (\<lambda>_. True), qn_write = True,
     qn_answer = server_answer author_to_quotes ''mark twain'' 5\<rparr>"


end
