(* ===== verification/Observability.thy ===== *)
theory Observability
  imports Go_Prelude "HOL-Library.Signed_Division"
begin

text \<open>
  The examples of metrics (\<open>observability/metrics\<close>; \<open>observability/alerting\<close> has the same client)
  and of tracing (\<open>observability/tracing\<close>): clients
  that send requests for ever, and the servers that sleep before they answer. The collector and the network are arguments, as is the random source, of which only
  what the documentation of \<open>math/rand\<close> says is assumed. Times are in nanoseconds; the
  conversion to milliseconds is not modelled.
\<close>

section \<open>Set-up and shutdown\<close>

datatype reached = Works | Fails | Hangs

record otel_collector =
  agent_metrics :: "string \<Rightarrow> bool"
  agent_traces :: "string \<Rightarrow> reached"
  res_ok :: bool
  flush_traces :: reached
  flush_metrics :: reached

datatype obs_fatal = NoTraceExporter | NoResource | NoHttpRequest | NoMetricShutdown | NoInstrument string | NotListening

definition agent_addr :: "(string \<Rightarrow> string option) \<Rightarrow> string" where
  "agent_addr env = (case env ''OTEL_EXPORTER_OTLP_ENDPOINT'' of None \<Rightarrow> ''0.0.0.0:4317'' | Some a \<Rightarrow> a)"

text \<open>An error of the resource is dropped here, and fatal in \<open>init_tracer\<close>.\<close>

definition init_metrics :: "otel_collector \<Rightarrow> string \<Rightarrow> (obs_fatal, unit) outcome" where
  "init_metrics col addr = (if agent_metrics col addr then Ok () else Panics (PanicMsg ''metrics exporter''))"

definition init_tracer :: "otel_collector \<Rightarrow> string \<Rightarrow> (obs_fatal, unit) outcome" where
  "init_tracer col addr =
     (case agent_traces col addr of
        Works \<Rightarrow> if res_ok col then Ok () else Err NoResource
      | Fails \<Rightarrow> Err NoTraceExporter
      | Hangs \<Rightarrow> Blocked)"

definition init_telemetry :: "(string \<Rightarrow> string option) \<Rightarrow> otel_collector \<Rightarrow> (obs_fatal, unit) outcome" where
  "init_telemetry env col =
     then_ok (init_metrics col (agent_addr env)) (\<lambda>_. init_tracer col (agent_addr env))"

text \<open>
  The deferred shutdown: the traces get a second and their error is only reported; the metrics
  get the context without that limit, and their error ends the program.
\<close>

definition close_traces :: "otel_collector \<Rightarrow> (obs_fatal, unit) outcome" where
  "close_traces col = (case flush_traces col of Works \<Rightarrow> Ok () | Fails \<Rightarrow> Ok () | Hangs \<Rightarrow> Ok ())"

definition close_metrics :: "otel_collector \<Rightarrow> (obs_fatal, unit) outcome" where
  "close_metrics col = (case flush_metrics col of Works \<Rightarrow> Ok () | Fails \<Rightarrow> Err NoMetricShutdown | Hangs \<Rightarrow> Blocked)"

definition obs_shutdown :: "otel_collector \<Rightarrow> (obs_fatal, unit) outcome" where
  "obs_shutdown col = then_ok (close_traces col) (\<lambda>_. close_metrics col)"

text \<open>A panic runs the deferred shutdown, the exit of \<open>log.Fatalf\<close> does not.\<close>

definition run_deferred :: "otel_collector \<Rightarrow> (obs_fatal, 'a) outcome \<Rightarrow> (obs_fatal, 'a) outcome" where
  "run_deferred col oc =
     (case oc of
        Panics p \<Rightarrow> then_ok (obs_shutdown col) (\<lambda>_. Panics p)
      | _ \<Rightarrow> oc)"

text \<open>Instruments with the message for the case that one cannot be made.\<close>

fun make_instruments :: "(string \<Rightarrow> bool) \<Rightarrow> (string \<times> string) list \<Rightarrow> (obs_fatal, unit) outcome" where
  "make_instruments ok [] = Ok ()"
| "make_instruments ok ((name, msg) # is) =
     (if ok name then make_instruments ok is else Err (NoInstrument msg))"

definition client_instruments :: "(string \<times> string) list" where
  "client_instruments =
     [(''request_latency'', ''failed to create request latency histogram''),
      (''request_counts'', ''failed to create request latency histogram''),
      (''line_lengths'', ''failed to create line lengths histogram''),
      (''line_counts'', ''failed to create line counts counter'')]"

definition server_instruments :: "(string \<times> string) list" where
  "server_instruments = [(''request_counts'', ''Failed to create request count metric'')]"

section \<open>The client\<close>

datatype obs_reply = Served nat | Unreachable | Unanswered

record obs_world =
  ow_env :: "string \<Rightarrow> string option"
  ow_url_ok :: "string \<Rightarrow> bool"
  ow_net :: "string \<Rightarrow> nat \<Rightarrow> obs_reply"
  ow_random :: "nat \<Rightarrow> nat \<Rightarrow> nat"
  ow_instrument_ok :: "string \<Rightarrow> bool"
  ow_collector :: otel_collector

text \<open>The \<open>d\<close>th number drawn below a bound is below it.\<close>

definition random_ok :: "(nat \<Rightarrow> nat \<Rightarrow> nat) \<Rightarrow> bool" where
  "random_ok rnd \<longleftrightarrow> (\<forall>d b. 0 < b \<longrightarrow> rnd d b < b)"

record meters =
  request_count :: nat
  request_latencies :: "nat list"
  line_count :: nat
  line_lengths :: "nat list"
  spans_started :: nat
  spans_ended :: nat
  draws :: nat

definition no_meters :: meters where
  "no_meters = \<lparr>request_count = 0, request_latencies = [], line_count = 0, line_lengths = [],
     spans_started = 0, spans_ended = 0, draws = 0\<rparr>"

definition demo_server_addr :: "(string \<Rightarrow> string option) \<Rightarrow> string" where
  "demo_server_addr env = (case env ''DEMO_SERVER_ENDPOINT'' of None \<Rightarrow> ''http://0.0.0.0:7080/hello'' | Some a \<Rightarrow> a)"

definition make_request :: "obs_world \<Rightarrow> nat \<Rightarrow> (obs_fatal, nat) outcome" where
  "make_request W k =
     (let addr = demo_server_addr (ow_env W) in
      if \<not> ow_url_ok W addr then Err NoHttpRequest
      else case ow_net W addr k of
        Served t \<Rightarrow> Ok t
      | Unreachable \<Rightarrow> Panics (PanicMsg ''request'')
      | Unanswered \<Rightarrow> Blocked)"

definition draw :: "(nat \<Rightarrow> nat \<Rightarrow> nat) \<Rightarrow> nat \<Rightarrow> meters \<Rightarrow> nat \<times> meters" where
  "draw rnd b m = (rnd (draws m) b, m\<lparr>draws := Suc (draws m)\<rparr>)"

fun random_lines :: "(nat \<Rightarrow> nat \<Rightarrow> nat) \<Rightarrow> nat \<Rightarrow> meters \<Rightarrow> meters" where
  "random_lines rnd 0 m = m"
| "random_lines rnd (Suc n) m =
     (let (l, m') = draw rnd 999 m
      in random_lines rnd n (m'\<lparr>line_count := Suc (line_count m'), line_lengths := line_lengths m' @ [l]\<rparr>))"

text \<open>One turn of the loop.\<close>

definition client_turn :: "obs_world \<Rightarrow> meters \<Rightarrow> meters \<times> (obs_fatal, unit) outcome" where
  "client_turn W m =
     (let m1 = m\<lparr>spans_started := Suc (spans_started m)\<rparr>
      in case make_request W (spans_started m) of
           Ok t \<Rightarrow>
             (let (nr, m2) = draw (ow_random W) 7 (m1\<lparr>spans_ended := Suc (spans_ended m1)\<rparr>);
                  m3 = random_lines (ow_random W) nr m2
              in (m3\<lparr>request_latencies := request_latencies m3 @ [t], request_count := Suc (request_count m3)\<rparr>, Ok ()))
         | Err e \<Rightarrow> (m1, Err e)
         | Panics p \<Rightarrow> (m1, Panics p)
         | Blocked \<Rightarrow> (m1, Blocked))"

text \<open>The first \<open>n\<close> turns of an endless loop, until one does not return.\<close>

fun turns :: "('m \<Rightarrow> 'm \<times> (obs_fatal, unit) outcome) \<Rightarrow> nat \<Rightarrow> 'm \<Rightarrow> 'm \<times> (obs_fatal, unit) outcome" where
  "turns step 0 m = (m, Ok ())"
| "turns step (Suc n) m =
     (case step m of
        (m', Ok _) \<Rightarrow> turns step n m'
      | (m', oc) \<Rightarrow> (m', oc))"

definition send_requests :: "obs_world \<Rightarrow> nat \<Rightarrow> meters \<times> (obs_fatal, unit) outcome" where
  "send_requests W n =
     (case make_instruments (ow_instrument_ok W) client_instruments of
        Ok _ \<Rightarrow> turns (client_turn W) n no_meters
      | oc \<Rightarrow> (no_meters, oc))"

definition metrics_client :: "obs_world \<Rightarrow> nat \<Rightarrow> meters \<times> (obs_fatal, unit) outcome" where
  "metrics_client W n =
     (case init_telemetry (ow_env W) (ow_collector W) of
        Ok _ \<Rightarrow> apsnd (run_deferred (ow_collector W)) (send_requests W n)
      | oc \<Rightarrow> (no_meters, oc))"

section \<open>The figures of the client\<close>

definition was_served :: "obs_world \<Rightarrow> nat \<Rightarrow> bool" where
  "was_served W k \<longleftrightarrow> ow_url_ok W (demo_server_addr (ow_env W))
     \<and> (\<exists>t. ow_net W (demo_server_addr (ow_env W)) k = Served t)"

definition lines_ok :: "meters \<Rightarrow> nat \<Rightarrow> bool" where
  "lines_ok m k \<longleftrightarrow> length (line_lengths m) = line_count m \<and> line_count m \<le> 6 * k
     \<and> (\<forall>l \<in> set (line_lengths m). l < 999)"

definition figures :: "obs_world \<Rightarrow> nat \<Rightarrow> meters \<Rightarrow> bool" where
  "figures W k m \<longleftrightarrow> request_count m = k \<and> spans_ended m = k
     \<and> map Served (request_latencies m) = map (ow_net W (demo_server_addr (ow_env W))) [0..<k] \<and> lines_ok m k"

lemma random_lines_frame [frame_simps]:
  "request_count (random_lines rnd n m) = request_count m"
  "request_latencies (random_lines rnd n m) = request_latencies m"
  "spans_started (random_lines rnd n m) = spans_started m"
  "spans_ended (random_lines rnd n m) = spans_ended m"
  by (induction rnd n m rule: random_lines.induct) (simp_all add: draw_def)

lemma random_lines_counts [frame_simps]:
  "line_count (random_lines rnd n m) = line_count m + n"
  "length (line_lengths (random_lines rnd n m)) = length (line_lengths m) + n"
  by (induction rnd n m rule: random_lines.induct) (simp_all add: draw_def)

lemma random_lines_bound:
  "random_ok rnd \<Longrightarrow> \<forall>l \<in> set (line_lengths m). l < 999 \<Longrightarrow> \<forall>l \<in> set (line_lengths (random_lines rnd n m)). l < 999"
  by (induction rnd n m rule: random_lines.induct) (auto simp: draw_def random_ok_def)

lemma served_turn:
  assumes "was_served W k" "figures W k m" "spans_started m = k" "random_ok (ow_random W)"
  shows "\<exists>m'. client_turn W m = (m', Ok ()) \<and> figures W (Suc k) m' \<and> spans_started m' = Suc k"
proof -
  obtain t where t: "ow_net W (demo_server_addr (ow_env W)) k = Served t" and url: "ow_url_ok W (demo_server_addr (ow_env W))"
    using assms(1) by (auto simp: was_served_def)
  let ?nr = "ow_random W (draws m) 7"
  let ?m2 = "m\<lparr>spans_started := Suc k, spans_ended := Suc (spans_ended m), draws := Suc (draws m)\<rparr>"
  let ?m3 = "random_lines (ow_random W) ?nr ?m2"
  have "?nr < 7" using assms(4) by (simp add: random_ok_def)
  then have "lines_ok ?m3 (Suc k)"
    using assms(2) random_lines_bound [OF assms(4), of ?m2]
    by (auto simp: figures_def lines_ok_def frame_simps)
  then have "figures W (Suc k) (?m3\<lparr>request_latencies := request_latencies ?m3 @ [t], request_count := Suc (request_count ?m3)\<rparr>)"
    using assms(2) t by (simp add: figures_def frame_simps lines_ok_def)
  then show ?thesis
    using t url assms(3) by (simp add: client_turn_def make_request_def draw_def Let_def frame_simps)
qed

lemma unserved_turn:
  assumes "\<not> was_served W k" "figures W k m" "spans_started m = k"
  shows "client_turn W m = (m\<lparr>spans_started := Suc k\<rparr>,
    if \<not> ow_url_ok W (demo_server_addr (ow_env W)) then Err NoHttpRequest
    else if ow_net W (demo_server_addr (ow_env W)) k = Unanswered then Blocked else Panics (PanicMsg ''request''))"
  using assms by (auto simp: client_turn_def make_request_def was_served_def Let_def split: obs_reply.splits)

text \<open>
  What the loops share: a turn whose request is served leads from the state after \<open>k\<close> turns to
  that after \<open>k + 1\<close>, and one whose request is not served is the last.
\<close>

locale request_loop =
  fixes good :: "'w \<Rightarrow> bool"
    and was_served :: "'w \<Rightarrow> nat \<Rightarrow> bool"
    and state :: "'w \<Rightarrow> nat \<Rightarrow> 'm \<Rightarrow> bool"
    and step :: "'w \<Rightarrow> 'm \<Rightarrow> 'm \<times> (obs_fatal, unit) outcome"
  assumes turn_ok: "good W \<Longrightarrow> was_served W k \<Longrightarrow> state W k m \<Longrightarrow> \<exists>m'. step W m = (m', Ok ()) \<and> state W (Suc k) m'"
    and turn_last: "good W \<Longrightarrow> \<not> was_served W k \<Longrightarrow> state W k m \<Longrightarrow> \<not> is_ok (snd (step W m))"
begin

lemma turns_served:
  assumes "good W" "\<forall>j < k. was_served W j" "state W 0 m0" "n \<le> k"
  shows "\<exists>m. turns (step W) (n + r) m0 = turns (step W) r m \<and> state W n m"
  using assms(4)
proof (induction n arbitrary: r)
  case 0
  then show ?case using assms(3) by auto
next
  case (Suc n)
  then obtain m where m: "turns (step W) (n + Suc r) m0 = turns (step W) (Suc r) m" "state W n m"
    using Suc.IH [of "Suc r"] by auto
  obtain m' where "step W m = (m', Ok ())" "state W (Suc n) m'"
    using turn_ok [OF assms(1) _ m(2)] assms(2) Suc.prems by auto
  then show ?case using m(1) by (intro exI [of _ m']) simp
qed

lemma turns_all:
  assumes "good W" "\<forall>j < k. was_served W j" "state W 0 m0" "n \<le> k"
  shows "\<exists>m. turns (step W) n m0 = (m, Ok ()) \<and> state W n m"
  using turns_served [OF assms, of 0] by simp

lemma turns_until:
  assumes "good W" "\<forall>j < k. was_served W j" "state W 0 m0" "k < n" "\<not> was_served W k"
  shows "\<exists>m. turns (step W) n m0 = step W m \<and> state W k m"
proof -
  obtain r where n: "n = k + Suc r" using assms(4) less_iff_Suc_add by auto
  obtain m where m: "turns (step W) n m0 = turns (step W) (Suc r) m" "state W k m"
    using turns_served [OF assms(1-3) le_refl, of "Suc r"] n by auto
  moreover have "turns (step W) (Suc r) m = step W m"
    using turn_last [OF assms(1,5) m(2)] by (cases "step W m"; cases "snd (step W m)") auto
  ultimately show ?thesis by auto
qed

end

interpretation metrics: request_loop "\<lambda>W. random_ok (ow_random W)" was_served
  "\<lambda>W k m. figures W k m \<and> spans_started m = k" client_turn
  using served_turn unserved_turn by unfold_locales (simp, auto)

lemma no_figures: "figures W 0 no_meters \<and> spans_started no_meters = 0"
  by (simp add: figures_def lines_ok_def no_meters_def)

text \<open>
  C0: The metrics client. Once it has started it never ends by itself: while its requests are
  served, \<open>n\<close> turns leave a count of \<open>n\<close> requests with exactly their latencies, an ended span
  for each, and at most six lines for each, every length counted and below 999. At the first request that
  is not served these figures stop: the request is in no count and its span never ends; if the
  server cannot be reached the program crashes, unless its shutdown fails first, which hides the crash,
  or waits for a collector that never answers, in spite of the time limit.
\<close>

theorem metrics_client_figures:
  assumes "random_ok (ow_random W)" "\<forall>j < k. was_served W j"
    and "init_telemetry (ow_env W) (ow_collector W) = Ok ()"
    and "make_instruments (ow_instrument_ok W) client_instruments = Ok ()"
  shows "(n \<le> k \<longrightarrow> (\<exists>m. metrics_client W n = (m, Ok ()) \<and> figures W n m \<and> spans_started m = n))
    \<and> (k < n \<and> \<not> was_served W k \<longrightarrow>
         (\<exists>m oc. metrics_client W n = (m, oc) \<and> figures W k m \<and> spans_started m = Suc k
            \<and> oc = (if \<not> ow_url_ok W (demo_server_addr (ow_env W)) then Err NoHttpRequest
                    else if ow_net W (demo_server_addr (ow_env W)) k = Unanswered then Blocked
                    else case flush_metrics (ow_collector W) of
                      Works \<Rightarrow> Panics (PanicMsg ''request'')
                    | Fails \<Rightarrow> Err NoMetricShutdown
                    | Hangs \<Rightarrow> Blocked)))"
    (is "_ \<and> (_ \<longrightarrow> ?ends)")
proof -
  have main: "metrics_client W j = apsnd (run_deferred (ow_collector W)) (turns (client_turn W) j no_meters)" for j
    by (simp add: metrics_client_def assms(3,4) send_requests_def)
  have "\<exists>m. metrics_client W n = (m, Ok ()) \<and> figures W n m \<and> spans_started m = n" if "n \<le> k"
    using metrics.turns_all [OF assms(1,2) no_figures that] by (auto simp: main run_deferred_def)
  moreover have ?ends if k: "k < n \<and> \<not> was_served W k"
  proof -
    obtain m where m: "turns (client_turn W) n no_meters = client_turn W m" "figures W k m" "spans_started m = k"
      using metrics.turns_until [OF assms(1,2) no_figures] k by blast
    have "figures W k (m\<lparr>spans_started := Suc k\<rparr>)" using m(2) by (simp add: figures_def lines_ok_def)
    then show ?ends
      using unserved_turn [OF _ m(2,3)] k m(3)
      by (auto simp: main m(1) run_deferred_def obs_shutdown_def close_traces_def close_metrics_def split: reached.splits)
  qed
  ultimately show ?thesis by blast
qed

definition demo_obs :: obs_world where
  "demo_obs = \<lparr>ow_env = (\<lambda>_. None), ow_url_ok = (\<lambda>_. True),
     ow_net = (\<lambda>_ k. if k < 2 then Served 5 else Unreachable), ow_random = (\<lambda>d b. d mod b),
     ow_instrument_ok = (\<lambda>_. True),
     ow_collector = \<lparr>agent_metrics = (\<lambda>_. True), agent_traces = (\<lambda>_. Works), res_ok = True,
       flush_traces = Works, flush_metrics = Hangs\<rparr>\<rparr>"

theorem metrics_client_figures_witness:
  "\<exists>m. metrics_client demo_obs 3 = (m, Blocked) \<and> request_count m = 2 \<and> request_latencies m = [5, 5]"
proof -
  have "random_ok (ow_random demo_obs)" "\<forall>j < 2. was_served demo_obs j"
    "init_telemetry (ow_env demo_obs) (ow_collector demo_obs) = Ok ()"
    "make_instruments (ow_instrument_ok demo_obs) client_instruments = Ok ()"
    "2 < (3 :: nat) \<and> \<not> was_served demo_obs 2"
    by (simp_all add: demo_obs_def random_ok_def was_served_def init_telemetry_def init_metrics_def init_tracer_def
        client_instruments_def)
  note metrics_client_figures [OF this(1-4), of 3, THEN conjunct2, THEN mp, OF this(5)]
  then obtain m oc where m: "metrics_client demo_obs 3 = (m, oc)" "figures demo_obs 2 m"
      "oc = Blocked"
    by (auto simp: demo_obs_def)
  have "map Served (request_latencies m) = [Served 5, Served 5]"
    using m(2) by (simp add: figures_def demo_obs_def upt_rec)
  then show ?thesis using m by (auto simp: figures_def map_eq_Cons_conv)
qed

section \<open>The server\<close>

text \<open>
  How long a request sleeps, in milliseconds, depends on the second it comes in. Go's remainder
  has the sign of the dividend, so before 1970 it can be negative, and no case applies.
\<close>

definition sleep_bound :: "int \<Rightarrow> nat option" where
  "sleep_bound now =
     (let r = now smod 5 in
      if r = 0 then Some 2000 else if r = 1 then Some 15 else if r = 2 then Some 917
      else if r = 3 then Some 87 else if r = 4 then Some 1173 else None)"

record hello_state =
  hs_count :: nat
  hs_draws :: nat

text \<open>A request: the state after it, its sleep and its reply.\<close>

definition handle_hello :: "(nat \<Rightarrow> nat \<Rightarrow> nat) \<Rightarrow> int \<Rightarrow> hello_state \<Rightarrow> hello_state \<times> nat \<times> string" where
  "handle_hello rnd now s =
     (let (sleep, d) = (case sleep_bound now of
            None \<Rightarrow> (0, hs_draws s)
          | Some b \<Rightarrow> (rnd (hs_draws s) b, Suc (hs_draws s)))
      in (\<lparr>hs_count = Suc (hs_count s), hs_draws = d\<rparr>, sleep, ''Hello World''))"

fun serve_hellos :: "(nat \<Rightarrow> nat \<Rightarrow> nat) \<Rightarrow> int list \<Rightarrow> hello_state \<Rightarrow> hello_state \<times> (nat \<times> string) list" where
  "serve_hellos rnd [] s = (s, [])"
| "serve_hellos rnd (now # ts) s =
     (let (s1, r) = handle_hello rnd now s; (s2, rs) = serve_hellos rnd ts s1 in (s2, r # rs))"

text \<open>
  The whole server: \<open>listening\<close> is whether it can listen, and the requests come at the seconds
  \<open>ts\<close>. It serves on after them; when it cannot listen it exits without its shutdown.
\<close>

definition hello_server ::
    "(string \<Rightarrow> string option) \<Rightarrow> otel_collector \<Rightarrow> (string \<Rightarrow> bool) \<Rightarrow> bool \<Rightarrow> (nat \<Rightarrow> nat \<Rightarrow> nat) \<Rightarrow> int list
      \<Rightarrow> (obs_fatal, hello_state \<times> (nat \<times> string) list) outcome" where
  "hello_server env col ok listening rnd ts =
     then_ok (init_telemetry env col) (\<lambda>_. run_deferred col
       (then_ok (make_instruments ok server_instruments) (\<lambda>_.
          if \<not> listening then Err NotListening else Ok (serve_hellos rnd ts \<lparr>hs_count = 0, hs_draws = 0\<rparr>))))"

definition sleep_ok :: "int \<Rightarrow> nat \<Rightarrow> bool" where
  "sleep_ok now n \<longleftrightarrow> (case sleep_bound now of None \<Rightarrow> n = 0 | Some b \<Rightarrow> n < b)"

lemma serve_hellos_replies:
  assumes "random_ok rnd" "serve_hellos rnd ts s = (s', rs)"
  shows "hs_count s' = hs_count s + length ts \<and> length rs = length ts
    \<and> (\<forall>i < length ts. snd (rs ! i) = ''Hello World'' \<and> sleep_ok (ts ! i) (fst (rs ! i)))"
  using assms(2)
proof (induction ts arbitrary: s rs)
  case Nil
  then show ?case by simp
next
  case (Cons now ts)
  obtain s1 r where one: "handle_hello rnd now s = (s1, r)" by (metis prod.exhaust)
  obtain rs' where rest: "serve_hellos rnd ts s1 = (s', rs')" "rs = r # rs'"
    using Cons.prems one by (auto split: prod.splits)
  have "hs_count s1 = Suc (hs_count s)" "snd r = ''Hello World''"
    "sleep_ok now (fst r)"
    using one assms(1)
    by (auto simp: handle_hello_def random_ok_def sleep_ok_def sleep_bound_def Let_def split: if_splits)
  then show ?case using Cons.IH [OF rest(1)] by (auto simp: rest(2) nth_Cons split: nat.splits)
qed

lemma smod_5: "(now :: int) smod 5 = (if 0 \<le> now then now mod 5 else - ((- now) mod 5))"
  by (simp add: signed_modulo_int_def sgn_if)

lemma sleep_bound_defined: "sleep_bound now \<noteq> None \<longleftrightarrow> 0 \<le> now \<or> 5 dvd now"
proof (cases "0 \<le> now")
  case True
  have "now mod 5 = 0 \<or> now mod 5 = 1 \<or> now mod 5 = 2 \<or> now mod 5 = 3 \<or> now mod 5 = 4" by presburger
  then show ?thesis using True by (auto simp: sleep_bound_def Let_def smod_5)
next
  case False
  have "0 \<le> (- now) mod 5" "(- now) mod 5 = 0 \<longleftrightarrow> 5 dvd now" by presburger+
  then show ?thesis using False by (auto simp: sleep_bound_def Let_def smod_5)
qed

lemma sleep_bound_le: "sleep_bound now = Some b \<Longrightarrow> b \<le> 2000"
  by (auto simp: sleep_bound_def Let_def split: if_splits)

text \<open>
  The server of the metrics example, when it runs: every request is counted and answered, after
  a sleep below two seconds and below the bound of its second; a clock before 1970 makes it
  answer at once, except in every fifth second.
\<close>

lemma hello_server_replies:
  assumes "random_ok rnd" "hello_server env col ok listening rnd ts = Ok (s, rs)"
  shows "hs_count s = length ts \<and> length rs = length ts
    \<and> (\<forall>i < length ts. snd (rs ! i) = ''Hello World'' \<and> sleep_ok (ts ! i) (fst (rs ! i)) \<and> fst (rs ! i) < 2000
         \<and> (ts ! i < 0 \<and> \<not> 5 dvd ts ! i \<longrightarrow> fst (rs ! i) = 0))"
proof -
  have "run_deferred col oc = Ok x \<Longrightarrow> oc = Ok x" for oc :: "(obs_fatal, 'a) outcome" and x
    by (cases oc) (auto simp: run_deferred_def then_ok_eq_Ok)
  then have "serve_hellos rnd ts \<lparr>hs_count = 0, hs_draws = 0\<rparr> = (s, rs)"
    using assms(2) by (auto simp: hello_server_def then_ok_eq_Ok run_deferred_def split: if_splits outcome.splits)
  from serve_hellos_replies [OF assms(1) this]
  have rs: "hs_count s = length ts" "length rs = length ts"
    "\<forall>i < length ts. snd (rs ! i) = ''Hello World'' \<and> sleep_ok (ts ! i) (fst (rs ! i))" by simp_all
  have "sleep_ok now n \<Longrightarrow> n < 2000 \<and> (now < 0 \<and> \<not> 5 dvd now \<longrightarrow> n = 0)" for now n
    using sleep_bound_defined [of now] sleep_bound_le [of now]
    by (cases "sleep_bound now") (auto simp: sleep_ok_def)
  then show ?thesis using rs by blast
qed

section \<open>The tracing example\<close>

definition init_trace_provider :: "(string \<Rightarrow> string option) \<Rightarrow> otel_collector \<Rightarrow> (obs_fatal, unit) outcome" where
  "init_trace_provider env col = init_tracer col (agent_addr env)"

definition run_traced :: "otel_collector \<Rightarrow> (obs_fatal, 'a) outcome \<Rightarrow> (obs_fatal, 'a) outcome" where
  "run_traced col oc =
     (case oc of
        Ok a \<Rightarrow> then_ok (close_traces col) (\<lambda>_. Ok a)
      | Panics p \<Rightarrow> then_ok (close_traces col) (\<lambda>_. Panics p)
      | _ \<Rightarrow> oc)"

record spans =
  sp_started :: nat
  sp_events :: nat
  sp_ended :: nat

definition tracing_turn :: "obs_world \<Rightarrow> spans \<Rightarrow> spans \<times> (obs_fatal, unit) outcome" where
  "tracing_turn W m =
     (let m1 = m\<lparr>sp_started := Suc (sp_started m)\<rparr>
      in case make_request W (sp_started m) of
           Ok t \<Rightarrow> (m1\<lparr>sp_events := Suc (sp_events m1), sp_ended := Suc (sp_ended m1)\<rparr>, Ok ())
         | Err e \<Rightarrow> (m1, Err e)
         | Panics p \<Rightarrow> (m1, Panics p)
         | Blocked \<Rightarrow> (m1, Blocked))"

text \<open>The loop never returns by itself, so that the deferred shutdown runs only for a panic.\<close>

definition tracing_client :: "obs_world \<Rightarrow> nat \<Rightarrow> spans \<times> (obs_fatal, unit) outcome" where
  "tracing_client W n =
     (let none = \<lparr>sp_started = 0, sp_events = 0, sp_ended = 0\<rparr>
      in case init_trace_provider (ow_env W) (ow_collector W) of
           Ok _ \<Rightarrow>
             (case turns (tracing_turn W) n none of
                (m, Ok _) \<Rightarrow> (m, Ok ())
              | (m, oc) \<Rightarrow> (m, run_traced (ow_collector W) oc))
         | oc \<Rightarrow> (none, oc))"

interpretation tracing: request_loop "\<lambda>_. True" was_served
  "\<lambda>W k m. m = \<lparr>sp_started = k, sp_events = k, sp_ended = k\<rparr>" tracing_turn
  by unfold_locales (auto simp: tracing_turn_def make_request_def was_served_def Let_def split: obs_reply.splits)

text \<open>The server: what a request sleeps, the random numbers drawn, and the reply.\<close>

definition handle_traced :: "(nat \<Rightarrow> nat \<Rightarrow> nat) \<Rightarrow> int \<Rightarrow> nat \<Rightarrow> nat \<times> nat \<times> string" where
  "handle_traced rnd now d =
     (case sleep_bound now of
        None \<Rightarrow> (d, 0, ''Hello World'')
      | Some b \<Rightarrow> (Suc d, rnd d b, ''Hello World''))"

fun serve_traced :: "(nat \<Rightarrow> nat \<Rightarrow> nat) \<Rightarrow> int list \<Rightarrow> nat \<Rightarrow> (nat \<times> string) list" where
  "serve_traced rnd [] d = []"
| "serve_traced rnd (now # ts) d = (let (d', r) = handle_traced rnd now d in r # serve_traced rnd ts d')"

text \<open>
  \<open>Ok None\<close>: \<open>main\<close> returned, which it does when the server cannot listen, whose error it ignores.
\<close>

definition tracing_server ::
    "(string \<Rightarrow> string option) \<Rightarrow> otel_collector \<Rightarrow> bool \<Rightarrow> (nat \<Rightarrow> nat \<Rightarrow> nat) \<Rightarrow> int list
      \<Rightarrow> (obs_fatal, (nat \<times> string) list option) outcome" where
  "tracing_server env col listening rnd ts =
     then_ok (init_trace_provider env col) (\<lambda>_.
       if listening then Ok (Some (serve_traced rnd ts 0)) else run_traced col (Ok None))"

lemma run_traced_shutdown: "run_traced col oc = oc"
  by (cases oc) (simp_all add: run_traced_def close_traces_def split: reached.splits)

text \<open>The servers of the two examples answer the same requests in the same way.\<close>

lemma serve_traced_eq: "hs_draws s = d \<Longrightarrow> serve_traced rnd ts d = snd (serve_hellos rnd ts s)"
proof (induction ts arbitrary: s d)
  case Nil
  then show ?case by simp
next
  case (Cons now ts)
  obtain s1 r where one: "handle_hello rnd now s = (s1, r)" by (metis prod.exhaust)
  then have "handle_traced rnd now d = (hs_draws s1, r)"
    using Cons.prems by (auto simp: handle_traced_def handle_hello_def Let_def split: option.splits)
  then show ?case using one Cons.IH [of s1 "hs_draws s1"] by (simp add: split_beta)
qed

text \<open>
  The tracing example. The client starts a span for each turn and ends it with its event, until
  a request is not served: its span has no event and never ends, and the program crashes if the server cannot be
  reached; its shutdown never fails or hangs. The server answers exactly as that of the metrics
  example; when it cannot listen it ends as if it had succeeded, where the other one exits with an error.
\<close>

theorem tracing_example:
  assumes "init_telemetry (ow_env W) (ow_collector W) = Ok ()" "\<forall>j < k. was_served W j" "ow_instrument_ok W ''request_counts''"
  shows "(n \<le> k \<longrightarrow> tracing_client W n = (\<lparr>sp_started = n, sp_events = n, sp_ended = n\<rparr>, Ok ()))
    \<and> (k < n \<and> \<not> was_served W k \<longrightarrow>
         tracing_client W n = (\<lparr>sp_started = Suc k, sp_events = k, sp_ended = k\<rparr>, map_outcome id (\<lambda>_. ()) (make_request W k)))
    \<and> tracing_server (ow_env W) (ow_collector W) False (ow_random W) ts = Ok None
    \<and> hello_server (ow_env W) (ow_collector W) (ow_instrument_ok W) False (ow_random W) ts = Err NotListening
    \<and> (\<exists>s rs. tracing_server (ow_env W) (ow_collector W) True (ow_random W) ts = Ok (Some rs)
          \<and> hello_server (ow_env W) (ow_collector W) (ow_instrument_ok W) True (ow_random W) ts = Ok (s, rs))"
proof (intro conjI impI)
  have init: "init_trace_provider (ow_env W) (ow_collector W) = Ok ()"
    using assms(1) by (auto simp: init_telemetry_def init_trace_provider_def then_ok_eq_Ok)
  show "tracing_client W n = (\<lparr>sp_started = n, sp_events = n, sp_ended = n\<rparr>, Ok ())" if "n \<le> k"
    using tracing.turns_all [OF TrueI assms(2) refl that] init by (simp add: tracing_client_def)
  show "tracing_client W n = (\<lparr>sp_started = Suc k, sp_events = k, sp_ended = k\<rparr>, map_outcome id (\<lambda>_. ()) (make_request W k))"
    if k: "k < n \<and> \<not> was_served W k"
  proof -
    have "turns (tracing_turn W) n \<lparr>sp_started = 0, sp_events = 0, sp_ended = 0\<rparr>
        = tracing_turn W \<lparr>sp_started = k, sp_events = k, sp_ended = k\<rparr>"
      using tracing.turns_until [OF TrueI assms(2) refl] k by blast
    then show ?thesis
      using init k by (auto simp: tracing_client_def run_traced_shutdown tracing_turn_def make_request_def was_served_def Let_def
          split: obs_reply.splits)
  qed
  show "tracing_server (ow_env W) (ow_collector W) False (ow_random W) ts = Ok None"
    using init by (simp add: tracing_server_def run_traced_shutdown)
  show "hello_server (ow_env W) (ow_collector W) (ow_instrument_ok W) False (ow_random W) ts = Err NotListening"
    using assms(1,3) by (simp add: hello_server_def server_instruments_def run_deferred_def)
  show "\<exists>s rs. tracing_server (ow_env W) (ow_collector W) True (ow_random W) ts = Ok (Some rs)
      \<and> hello_server (ow_env W) (ow_collector W) (ow_instrument_ok W) True (ow_random W) ts = Ok (s, rs)"
    using init assms(1,3) serve_traced_eq [of "\<lparr>hs_count = 0, hs_draws = 0\<rparr>" 0 "ow_random W" ts]
    by (simp add: tracing_server_def hello_server_def server_instruments_def run_deferred_def prod_eq_iff)
qed

theorem tracing_example_witness:
  "tracing_client demo_obs 3 = (\<lparr>sp_started = 3, sp_events = 2, sp_ended = 2\<rparr>, Panics (PanicMsg ''request''))"
proof -
  have W: "init_telemetry (ow_env demo_obs) (ow_collector demo_obs) = Ok ()" "\<forall>j < 2. was_served demo_obs j"
    "ow_instrument_ok demo_obs ''request_counts''" "2 < (3 :: nat) \<and> \<not> was_served demo_obs 2"
    by (simp_all add: demo_obs_def was_served_def init_telemetry_def init_metrics_def init_tracer_def)
  have "make_request demo_obs 2 = Panics (PanicMsg ''request'')"
    by (simp add: make_request_def demo_obs_def)
  then show ?thesis
    using tracing_example [OF W(1-3), of 3, THEN conjunct2, THEN conjunct1, THEN mp, OF W(4)] by simp
qed

end
