(* ===== verification/LB_Main.thy ===== *)
theory LB_Main
  imports LB_Grpc
begin

text \<open>
  The load balancer as a process (\<open>lb/lb.go\<close>, the route handler in
  \<open>lb/server/http/server.go\<close>, starting and stopping in \<open>lb/server/grpc/server.go\<close>): control
  calls, health rounds and the requests it forwards, in any order. The requests in flight are
  kept with their pool and backend.
\<close>

section \<open>Routing a request\<close>

text \<open>
  \<open>ServeMux\<close>: the exact pattern, or a redirection to the path with a slash, or the longest
  pattern that ends with a slash and begins the path. Paths are clean.
\<close>

datatype routed = ToPool nat | RedirectSlash | NotRouted

definition subtree :: "string \<Rightarrow> string \<Rightarrow> bool" where
  "subtree path k \<longleftrightarrow> k \<noteq> [] \<and> last k = CHR ''/'' \<and> prefix k path"

fun longest_subtree :: "string \<Rightarrow> string list \<Rightarrow> string option" where
  "longest_subtree path [] = None"
| "longest_subtree path (k # ks) =
     (case longest_subtree path ks of
        None \<Rightarrow> if subtree path k then Some k else None
      | Some k' \<Rightarrow> if subtree path k \<and> length k' < length k then Some k else Some k')"

definition mux_route :: "(string, nat) gomap \<Rightarrow> string \<Rightarrow> routed" where
  "mux_route m path =
     (case map_of m path of
        Some p \<Rightarrow> ToPool p
      | None \<Rightarrow>
          if path \<noteq> [] \<and> last path \<noteq> CHR ''/'' \<and> map_of m (path @ ''/'') \<noteq> None then RedirectSlash
          else (case Option.bind (longest_subtree path (map fst m)) (map_of m) of
                  None \<Rightarrow> NotRouted
                | Some p \<Rightarrow> ToPool p))"

lemma longest_subtree_None: "longest_subtree path ks = None \<longleftrightarrow> (\<forall>k \<in> set ks. \<not> subtree path k)"
  by (induction path ks rule: longest_subtree.induct) (auto split: option.splits)

lemma longest_subtree_Some:
  "longest_subtree path ks = Some k \<Longrightarrow>
     k \<in> set ks \<and> subtree path k \<and> (\<forall>k' \<in> set ks. subtree path k' \<longrightarrow> length k' \<le> length k)"
proof (induction path ks arbitrary: k rule: longest_subtree.induct)
  case (1 path)
  then show ?case by simp
next
  case (2 path k' ks)
  show ?case
  proof (cases "longest_subtree path ks")
    case None
    then show ?thesis using "2.prems" longest_subtree_None [of path ks] by (auto split: if_splits)
  next
    case (Some y)
    then show ?thesis using "2.prems" "2.IH" by (auto split: if_splits)
  qed
qed

lemma mux_route_ToPool:
  "mux_route m path = ToPool p \<Longrightarrow>
     \<exists>k. map_of m k = Some p \<and> (k = path \<or> subtree path k
       \<and> map_of m path = None \<and> (\<forall>k'. map_of m k' \<noteq> None \<and> subtree path k' \<longrightarrow> length k' \<le> length k))"
proof (cases "map_of m path")
  case (Some q)
  then show "mux_route m path = ToPool p \<Longrightarrow> ?thesis" by (auto simp: mux_route_def)
next
  case None
  assume "mux_route m path = ToPool p"
  then obtain k where k: "longest_subtree path (map fst m) = Some k" "map_of m k = Some p"
    using None by (auto simp: mux_route_def bind_eq_Some_conv split: if_splits option.splits)
  have "length k' \<le> length k" if "map_of m k' \<noteq> None" "subtree path k'" for k'
    using longest_subtree_Some [OF k(1)] that by (auto simp: map_of_eq_None_iff)
  then show ?thesis using longest_subtree_Some [OF k(1)] k(2) None by blast
qed

lemma mux_route_NotRouted:
  "mux_route m path = NotRouted \<longleftrightarrow>
     map_of m path = None \<and> (path = [] \<or> last path = CHR ''/'' \<or> map_of m (path @ ''/'') = None)
     \<and> (\<forall>k. map_of m k \<noteq> None \<longrightarrow> \<not> subtree path k)"
proof -
  have "Option.bind (longest_subtree path (map fst m)) (map_of m) = None \<longleftrightarrow> (\<forall>k. map_of m k \<noteq> None \<longrightarrow> \<not> subtree path k)"
    using longest_subtree_None [of path "map fst m"] longest_subtree_Some [of path "map fst m"]
    by (cases "longest_subtree path (map fst m)") (auto simp: map_of_eq_None_iff)
  then show ?thesis by (auto simp: mux_route_def split: option.splits)
qed

section \<open>The process\<close>

record lb_proc =
  lp_lb :: load_balancer
  lp_flights :: "(nat \<times> nat) list"
  lp_crashed :: bool

datatype proc_event =
    Control control_op
  | RequestBegin string nat nat
  | RequestEnd nat
  | HttpFails
  | GrpcFails

datatype lb_answer = ControlDone | Forwarded nat nat | Unavailable | Redirected | NotFound | RequestDone

text \<open>The start of \<open>main\<close>: it panics when it cannot listen.\<close>

definition lb_start :: "bool \<Rightarrow> lb_proc" where
  "lb_start listens = \<lparr>lp_lb = new_lb, lp_flights = [], lp_crashed = \<not> listens\<rparr>"

text \<open>A panic ends the process, except in the handler of a request, where \<open>net/http\<close> recovers it.\<close>

definition control_event :: "control_op \<Rightarrow> lb_proc \<Rightarrow> lb_proc \<times> (lb_err, lb_answer) outcome" where
  "control_event x P =
     (case control_step x (lp_lb P) of
        (l, Panics q) \<Rightarrow> (P\<lparr>lp_lb := l, lp_crashed := True\<rparr>, Panics q)
      | (l, oc) \<Rightarrow> (P\<lparr>lp_lb := l\<rparr>, then_ok oc (\<lambda>_. Ok ControlDone)))"

definition request_begin :: "string \<Rightarrow> nat \<Rightarrow> nat \<Rightarrow> lb_proc \<Rightarrow> lb_proc \<times> (lb_err, lb_answer) outcome" where
  "request_begin path x y P =
     (let l = lp_lb P in
      case mux_route (mux l) path of
        RedirectSlash \<Rightarrow> (P, Ok Redirected)
      | NotRouted \<Rightarrow> (P, Ok NotFound)
      | ToPool p \<Rightarrow>
          (case serve_choose x y (po_state (pool_heap l p)) of
             Ok None \<Rightarrow> (P, Ok Unavailable)
           | Ok (Some a) \<Rightarrow>
               (P\<lparr>lp_lb := fst (on_pool p (\<lambda>o'. (wb_call a (po_state o'), Ok ())) l), lp_flights := (p, a) # lp_flights P\<rparr>,
                Ok (Forwarded p a))
           | Err e \<Rightarrow> (P, Err e)
           | Panics q \<Rightarrow> (P, Panics q)
           | Blocked \<Rightarrow> (P, Blocked)))"

definition request_end :: "nat \<Rightarrow> lb_proc \<Rightarrow> lb_proc \<times> (lb_err, lb_answer) outcome" where
  "request_end i P =
     (if i < length (lp_flights P) then
        (let (p, a) = lp_flights P ! i; (l, oc) = on_pool p (\<lambda>o'. wb_done a (po_state o')) (lp_lb P)
         in (P\<lparr>lp_lb := l, lp_flights := remove1 (p, a) (lp_flights P)\<rparr>, then_ok oc (\<lambda>_. Ok RequestDone)))
      else (P, Ok RequestDone))"

definition lb_event_step :: "proc_event \<Rightarrow> lb_proc \<Rightarrow> lb_proc \<times> (lb_err, lb_answer) outcome" where
  "lb_event_step e P =
     (if lp_crashed P then (P, Blocked)
      else case e of
        Control x \<Rightarrow> control_event x P
      | RequestBegin path x y \<Rightarrow> request_begin path x y P
      | RequestEnd i \<Rightarrow> request_end i P
      | HttpFails \<Rightarrow> (P\<lparr>lp_crashed := True\<rparr>, Panics (PanicMsg ''http''))
      | GrpcFails \<Rightarrow> (P\<lparr>lp_crashed := True\<rparr>, Panics (PanicMsg ''grpc'')))"

text \<open>\<open>Start\<close> and \<open>Stop\<close> of the control service share its mutex, which \<open>Start\<close> holds while it serves.\<close>

datatype control_server_call = StartControl bool | StopControl

fun control_server_step :: "control_server_call \<Rightarrow> bool \<Rightarrow> bool \<times> (string, unit) outcome" where
  "control_server_step (StartControl listens) serving =
     (if serving then (serving, Blocked) else if listens then (True, Blocked) else (False, Err ''listen''))"
| "control_server_step StopControl serving = (if serving then (serving, Blocked) else (False, Ok ()))"

interpretation control_server: locked_object control_server_step "\<lambda>serving. serving" "\<lambda>_ _. True"
  by unfold_locales (case_tac x; simp)

lemma control_server_never_stops:
  "run_ops control_server_step calls (fst (control_server_step (StartControl True) False))
     = (True, replicate (length calls) Blocked)"
  using control_server.stuck_run [of True calls] by simp

section \<open>Its invariant\<close>

definition flights_of :: "nat \<Rightarrow> (nat \<times> nat) list \<Rightarrow> nat list" where
  "flights_of p fl = map snd (filter (\<lambda>f. fst f = p) fl)"

definition pool_at :: "load_balancer \<Rightarrow> nat \<Rightarrow> p2c" where
  "pool_at l p = po_state (pool_heap l p)"

definition proc_inv :: "lb_proc \<Rightarrow> bool" where
  "proc_inv P \<longleftrightarrow> lb_inv (lp_lb P)
     \<and> (\<forall>p. counts_ok (pool_at (lp_lb P) p, flights_of p (lp_flights P)))
     \<and> (\<forall>f \<in> set (lp_flights P). fst f < next_pool (lp_lb P))"

lemma flights_of_Nil: "\<forall>f \<in> set fl. fst f < n \<Longrightarrow> n \<le> p \<Longrightarrow> flights_of p fl = []"
  by (auto simp: flights_of_def filter_empty_conv)

lemma count_flights: "count_list (flights_of p fl) a = count_list fl (p, a)"
  by (induction fl) (auto simp: flights_of_def)

lemma flights_of_remove1:
  "flights_of p (remove1 (q, a) fl) = (if p = q then remove1 a (flights_of p fl) else flights_of p fl)"
  by (induction fl) (auto simp: flights_of_def)

lemma counts_ok_perm: "mset fl = mset fl' \<Longrightarrow> counts_ok (s, fl) = counts_ok (s, fl')"
  by (auto simp: counts_ok_def count_mset [symmetric] dest: mset_eq_setD)

lemma counts_done:
  assumes "counts_ok (s, fl)" "a \<in> set fl"
  shows "counts_ok (fst (wb_done a s), remove1 a fl)"
proof -
  obtain i where i: "i < length fl" "fl ! i = a" using assms(2) by (auto simp: in_set_conv_nth)
  have "mset fl = mset (take i fl @ fl ! i # drop (Suc i) fl)" using id_take_nth_drop [OF i(1)] by simp
  then have "mset (take i fl @ drop (Suc i) fl) = mset (remove1 a fl)" using i(2) by simp
  then show ?thesis using wb_done_counts(1) [OF assms(1) i(1)] i(2) counts_ok_perm by metis
qed

lemma pool_at_on_pool: "pool_at (fst (on_pool p f l)) q = (if q = p then fst (f (pool_heap l p)) else pool_at l q)"
  by (auto simp: on_pool_def pool_at_def split: prod.splits)

lemma on_pool_next [simp]: "next_pool (fst (on_pool p f l)) = next_pool l"
  by (auto simp: on_pool_def split: prod.splits)

text \<open>What a control call does to a pool are the steps of a pool that \<open>counts_step\<close> speaks of.\<close>

lemma control_counts:
  assumes "lb_inv l" "\<forall>p. counts_ok (pool_at l p, F p)" "\<forall>p \<ge> next_pool l. F p = []"
  shows "counts_ok (pool_at (fst (control_step x l)) p, F p) \<and> next_pool l \<le> next_pool (fst (control_step x l))"
proof (cases x)
  case (AddPool env req)
  have new: "counts_ok (new_p2c, F (next_pool l))" using assms(3) counts_new by simp
  have "counts_ok (pool_at (fst (lb_add_pool pattern q (l\<lparr>pool_heap := (pool_heap l)(next_pool l := o'), next_pool := Suc (next_pool l)\<rparr>))) p, F p)
      \<and> next_pool l \<le> next_pool (fst (lb_add_pool pattern q (l\<lparr>pool_heap := (pool_heap l)(next_pool l := o'), next_pool := Suc (next_pool l)\<rparr>)))"
    if "po_state o' = new_p2c" for pattern q o'
    using assms(2) new that by (auto simp: lb_add_pool_def pool_at_def Let_def split: outcome.splits)
  then show ?thesis
    using AddPool assms(2) by (auto simp: grpc_add_pool_def Let_def split: option.splits outcome.splits)
next
  case (RemovePool pattern)
  have "counts_ok (s\<lparr>done_closed := b\<rparr>, fl) = counts_ok (s, fl)" for s b fl by (simp add: counts_ok_def)
  then have "counts_ok (pool_at (fst (lb_remove_pool pattern l)) p, F p) \<and> next_pool l \<le> next_pool (fst (lb_remove_pool pattern l))"
    using assms(2) by (auto simp: lb_remove_pool_def close_p2c_def pool_at_def Let_def split: option.splits outcome.splits if_splits)
  then show ?thesis using RemovePool assms(2) by (simp add: grpc_remove_pool_def)
next
  case (AddBackend c pattern b)
  have "counts_ok (fst (p2c_add c hc be (pool_at l q)), F q)" for hc be q
    using counts_step [of "(pool_at l q, F q)" "PoolAdd c hc be"] assms(2) by (auto split: prod.splits)
  then show ?thesis
    using AddBackend assms(2) by (auto simp: grpc_add_backend_def pool_at_on_pool pool_at_def [symmetric] split: outcome.splits)
next
  case (RemoveBackend pattern b)
  have "counts_ok (fst (p2c_remove be (pool_at l q)), F q)" for be q
    using counts_step [of "(pool_at l q, F q)" "PoolRemove be"] assms(2) by (auto split: prod.splits)
  then show ?thesis
    using RemoveBackend assms(2) by (auto simp: grpc_remove_backend_def pool_at_on_pool pool_at_def [symmetric] split: outcome.splits)
next
  case (HealthRound q sched)
  have "counts_ok (fst (pool_round sched (pool_heap l q)), F q)"
    using counts_round assms(2) by (simp add: fst_pool_round pool_at_def)
  then show ?thesis using HealthRound assms(2) by (simp add: pool_at_on_pool)
qed

lemma p2c_inv_add_weight: "p2c_inv (add_weight d a s) = p2c_inv s"
proof -
  have "url_of (add_weight d a s) = url_of s" by (auto simp: add_weight_def url_of_def)
  then show ?thesis by (simp add: p2c_inv_def add_weight_def)
qed

lemma done_closed_add_weight [simp]: "done_closed (add_weight d a s) = done_closed s"
  by (simp add: add_weight_def)

lemma proc_inv_crashed [simp]: "proc_inv (P\<lparr>lp_crashed := b\<rparr>) = proc_inv P"
  by (simp add: proc_inv_def)

lemma begin_inv:
  assumes "proc_inv P"
  shows "proc_inv (fst (request_begin path x y P))"
proof (cases "mux_route (mux (lp_lb P)) path")
  case (ToPool p)
  let ?l = "lp_lb P"
  show ?thesis
  proof (cases "serve_choose x y (pool_at ?l p)")
    case (Ok c)
    show ?thesis
    proof (cases c)
      case None
      then show ?thesis using assms ToPool Ok by (simp add: request_begin_def pool_at_def)
    next
      case (Some a)
      let ?f = "\<lambda>o'. (wb_call a (po_state o'), Ok () :: (lb_err, unit) outcome)"
      have counts: "counts_ok (pool_at ?l q, flights_of q (lp_flights P))" for q using assms by (simp add: proc_inv_def)
      have "a \<in> set (healthy (pool_at ?l p))" using serve_choose_mem Ok Some by simp
      then have "a < next_wb (pool_at ?l p)" using counts [of p] by (auto simp: counts_ok_def)
      then have "counts_ok (wb_call a (pool_at ?l p), a # flights_of p (lp_flights P))" using counts_begin counts by blast
      moreover have "\<exists>k. map_of (mux ?l) k = Some p" using mux_route_ToPool [OF ToPool] by blast
      then have "p < next_pool ?l" using assms by (auto simp: proc_inv_def lb_inv_def)
      moreover have "lb_inv (fst (on_pool p ?f ?l))"
        using assms by (intro lb_inv_on_pool) (simp_all add: proc_inv_def wb_call_def p2c_inv_add_weight)
      ultimately have "proc_inv (P\<lparr>lp_lb := fst (on_pool p ?f ?l), lp_flights := (p, a) # lp_flights P\<rparr>)"
        using assms counts by (auto simp: proc_inv_def pool_at_on_pool flights_of_def) (simp_all add: pool_at_def)
      then show ?thesis using ToPool Ok Some by (simp add: request_begin_def pool_at_def)
    qed
  qed (use assms ToPool in \<open>simp_all add: request_begin_def pool_at_def\<close>)
qed (use assms in \<open>simp_all add: request_begin_def\<close>)

lemma end_inv:
  assumes "proc_inv P"
  shows "proc_inv (fst (request_end i P))"
proof (cases "i < length (lp_flights P)")
  case True
  obtain p a where pa: "lp_flights P ! i = (p, a)" by fastforce
  let ?l = "lp_lb P" and ?f = "\<lambda>o'. wb_done a (po_state o')"
  have mem: "(p, a) \<in> set (lp_flights P)" using True pa nth_mem by metis
  then have "a \<in> set (flights_of p (lp_flights P))" by (force simp: flights_of_def)
  then have "counts_ok (fst (wb_done a (pool_at ?l p)), remove1 a (flights_of p (lp_flights P)))"
    using assms by (intro counts_done) (simp_all add: proc_inv_def)
  moreover have "lb_inv (fst (on_pool p ?f ?l))"
    using assms by (intro lb_inv_on_pool) (simp_all add: proc_inv_def wb_done_def Let_def p2c_inv_add_weight)
  moreover have "\<forall>f \<in> set (remove1 (p, a) (lp_flights P)). fst f < next_pool ?l"
    using assms by (auto simp: proc_inv_def dest: notin_set_remove1 [THEN contrapos_pp] set_remove1_subset [THEN subsetD])
  ultimately have "proc_inv (P\<lparr>lp_lb := fst (on_pool p ?f ?l), lp_flights := remove1 (p, a) (lp_flights P)\<rparr>)"
    using assms by (simp add: proc_inv_def pool_at_on_pool flights_of_remove1) (simp add: pool_at_def)
  then show ?thesis using True pa by (simp add: request_end_def split_beta Let_def)
qed (use assms in \<open>simp add: request_end_def\<close>)

lemma control_event_inv:
  assumes "proc_inv P"
  shows "proc_inv (fst (control_event x P))"
proof -
  have none: "\<forall>p \<ge> next_pool (lp_lb P). flights_of p (lp_flights P) = []"
    using assms flights_of_Nil by (auto simp: proc_inv_def)
  have "lb_inv (lp_lb P)" "\<forall>p. counts_ok (pool_at (lp_lb P) p, flights_of p (lp_flights P))"
    using assms by (simp_all add: proc_inv_def)
  note counts = control_counts [OF this none, of x]
  have "\<forall>f \<in> set (lp_flights P). fst f < next_pool (fst (control_step x (lp_lb P)))"
    using assms counts by (auto simp: proc_inv_def intro: less_le_trans)
  then have "proc_inv (P\<lparr>lp_lb := fst (control_step x (lp_lb P))\<rparr>)"
    using assms counts control_step_inv by (simp add: proc_inv_def)
  moreover have "P\<lparr>lp_lb := l, lp_crashed := True\<rparr> = (P\<lparr>lp_lb := l\<rparr>)\<lparr>lp_crashed := True\<rparr>" for l by simp
  ultimately show ?thesis
    by (cases "control_step x (lp_lb P)"; cases "snd (control_step x (lp_lb P))")
      (simp_all add: control_event_def del: lb_proc.update_convs)
qed

lemma lb_event_inv: "proc_inv P \<Longrightarrow> proc_inv (fst (lb_event_step e P))"
  using begin_inv end_inv control_event_inv
  by (auto simp: lb_event_step_def split: proc_event.splits)

interpretation lb_process: invariant_object lb_event_step proc_inv
  by unfold_locales (rule lb_event_inv)

lemma lb_start_inv: "proc_inv (lb_start listens)"
  using lb_inv_new counts_new
  by (simp add: lb_start_def proc_inv_def flights_of_def pool_at_def new_lb_def no_pool_def)

section \<open>What can crash it\<close>

definition can_crash :: "proc_event \<Rightarrow> bool" where
  "can_crash e \<longleftrightarrow>
     (case e of
        Control (AddPool env req) \<Rightarrow> apr_checks req = None
      | Control (HealthRound p sched) \<Rightarrow> True
      | HttpFails \<Rightarrow> True
      | GrpcFails \<Rightarrow> True
      | _ \<Rightarrow> False)"

lemma crash_cause:
  assumes "proc_inv P" "\<not> lp_crashed P" "lp_crashed (fst (lb_event_step e P))"
  shows "can_crash e"
proof (cases e)
  case (Control x)
  obtain l oc where x: "control_step x (lp_lb P) = (l, oc)" by fastforce
  then obtain q where "oc = Panics q"
    using assms(2,3) Control by (cases oc) (auto simp: lb_event_step_def control_event_def)
  then have "expected x (Panics q)" using expected_step [of "lp_lb P" x] x assms(1) by (simp add: proc_inv_def)
  then show ?thesis using Control by (auto simp: expected_def can_crash_def split: control_op.splits)
next
  case (RequestBegin path i j)
  then show ?thesis
    using assms(2,3) by (auto simp: lb_event_step_def request_begin_def Let_def split: routed.splits outcome.splits option.splits)
next
  case (RequestEnd i)
  then show ?thesis
    using assms(2,3) by (auto simp: lb_event_step_def request_end_def Let_def split: prod.splits if_splits)
qed (simp_all add: can_crash_def)

lemma crash_causes:
  "proc_inv P \<Longrightarrow> \<not> lp_crashed P \<Longrightarrow> lp_crashed (fst (run_ops lb_event_step es P)) \<Longrightarrow> \<exists>e \<in> set es. can_crash e"
proof (induction es arbitrary: P)
  case Nil
  then show ?case by simp
next
  case (Cons e es)
  have run: "lp_crashed (fst (run_ops lb_event_step es (fst (lb_event_step e P))))"
    using Cons.prems(3) by (simp only: fst_run_ops_Cons)
  show ?case
  proof (cases "lp_crashed (fst (lb_event_step e P))")
    case True
    then show ?thesis using crash_cause [OF Cons.prems(1,2)] by auto
  next
    case False
    then show ?thesis using Cons.IH [OF lb_event_inv [OF Cons.prems(1)] False run] by auto
  qed
qed

lemma request_end_ok:
  assumes "proc_inv P" "length (lp_flights P) < 2 ^ 31"
  shows "snd (request_end i P) = Ok RequestDone"
proof (cases "i < length (lp_flights P)")
  case True
  obtain p a where pa: "lp_flights P ! i = (p, a)" by fastforce
  have "(p, a) \<in> set (lp_flights P)" using True pa nth_mem by metis
  then have "a \<in> set (flights_of p (lp_flights P))" by (force simp: flights_of_def)
  then obtain j where j: "j < length (flights_of p (lp_flights P))" "flights_of p (lp_flights P) ! j = a"
    by (auto simp: in_set_conv_nth)
  have ok: "counts_ok (pool_at (lp_lb P) p, flights_of p (lp_flights P))" using assms(1) by (simp add: proc_inv_def)
  have "length (flights_of p (lp_flights P)) \<le> length (lp_flights P)" by (simp add: flights_of_def)
  then have "count_list (flights_of p (lp_flights P)) a - 1 < 2 ^ 31"
    using assms(2) count_le_length [of "flights_of p (lp_flights P)" a] by linarith
  from sint_count [OF this] wb_done_counts(2) [OF ok j(1)] j(2)
  have "snd (wb_done a (pool_at (lp_lb P) p)) = Ok ()" by (auto simp: wb_done_def Let_def)
  then show ?thesis
    using True pa by (cases "wb_done a (pool_at (lp_lb P) p)") (simp add: request_end_def on_pool_def pool_at_def Let_def)
qed (simp add: request_end_def)


definition demo_events :: "proc_event list" where
  "demo_events =
     [Control (AddPool demo_net \<lparr>apr_pattern = ''/'', apr_pool_type = 1, apr_checks = Some ([StatusCheckPB ''/h'' [''ok'']], 10)\<rparr>),
      Control (AddBackend False ''/'' (IPBackendPB ''10.0.0.1'' 80 [])), RequestBegin ''/x'' 0 0]"

lemma demo_events_run:
  "snd (run_ops lb_event_step demo_events (lb_start True)) = [Ok ControlDone, Ok ControlDone, Ok (Forwarded 0 0)]"
  "lp_flights (fst (run_ops lb_event_step demo_events (lb_start True))) = [(0, 0)]"
  by code_simp+


end
