(* ===== verification/Pet_Main.thy ===== *)
theory Pet_Main
  imports Pet_Types
begin

text \<open>
  The pet store program as a whole (\<open>petstore.go\<close>, \<open>server/telemetry/metrics/start.go\<close>): from
  its flags to the calls it serves, and how it ends; and the span around each call
  (\<open>doTrace\<close> in \<open>server.go\<close>). It composes the tracing set-up, the handlers and the in-memory
  storage.
\<close>

section \<open>The span of a call\<close>

datatype attribute = StrAttr string | IntAttr int | BoolAttr bool

datatype span_status = StatusOk | StatusError string

record call_span =
  cs_name :: string
  cs_attrs :: "(string \<times> attribute) list"
  cs_status :: "span_status option"
  cs_ended :: bool

definition do_trace :: "string \<Rightarrow> string \<Rightarrow> string option \<Rightarrow> call_span" where
  "do_trace name args peer =
     \<lparr>cs_name = name,
      cs_attrs = [(''args'', StrAttr args), (''grpcCall'', BoolAttr True)]
        @ (case peer_attrs peer of
             None \<Rightarrow> []
           | Some (host, port) \<Rightarrow> [(''net.peer.ip'', StrAttr host), (''net.peer.port'', IntAttr port)]),
      cs_status = None, cs_ended = False\<rparr>"

definition end_trace :: "string option \<Rightarrow> call_span \<Rightarrow> call_span" where
  "end_trace err s =
     (case err of
        Some msg \<Rightarrow> s\<lparr>cs_status := Some (StatusError msg),
          cs_attrs := cs_attrs s @ [(''error'', BoolAttr True), (''errorMsg'', StrAttr msg)], cs_ended := True\<rparr>
      | None \<Rightarrow> s\<lparr>cs_status := Some StatusOk, cs_ended := True\<rparr>)"

text \<open>
  The span around a handler. The deferred call passes the named result, which is nil when the
  handler panics.
\<close>

definition traced_call :: "('e \<Rightarrow> string) \<Rightarrow> string \<Rightarrow> string \<Rightarrow> string option \<Rightarrow> ('e, 'a) outcome \<Rightarrow> call_span" where
  "traced_call msg name args peer oc =
     (let s = do_trace name args peer
      in case oc of
           Ok _ \<Rightarrow> end_trace None s
         | Err e \<Rightarrow> end_trace (Some (msg e)) s
         | Panics _ \<Rightarrow> end_trace None s
         | Blocked \<Rightarrow> s)"

section \<open>The metrics\<close>

text \<open>The address to export metrics to; an empty one exports none.\<close>

definition otel_controller :: "pet_flags \<Rightarrow> string option" where
  "otel_controller fl = (if otel_addr fl \<noteq> [] then Some (otel_addr fl) else None)"

text \<open>An exporter that cannot be made panics; the error of the resource is dropped.\<close>

definition metrics_start :: "(string \<Rightarrow> bool) \<Rightarrow> string \<Rightarrow> (string, unit) outcome" where
  "metrics_start exporter_ok addr = (if exporter_ok addr then Ok () else Panics (PanicMsg ''metrics exporter''))"

text \<open>
  Stopping has a second for it, but the shutdown ignores the context it is given, and waits
  for the collector as long as it takes.
\<close>

datatype flush = FlushOk | FlushFails | FlushHangs

fun metrics_stop :: "flush \<Rightarrow> (string, unit) outcome" where
  "metrics_stop FlushOk = Ok ()"
| "metrics_stop FlushFails = Ok ()"
| "metrics_stop FlushHangs = Blocked"

fun tracing_stop :: "flush \<Rightarrow> (string, unit) outcome" where
  "tracing_stop FlushOk = Ok ()"
| "tracing_stop FlushFails = Ok ()"
| "tracing_stop FlushHangs = Ok ()"

section \<open>The program\<close>

text \<open>
  What the program meets: its flags, the number parser, the outside of the tracing and of the
  metrics, whether it can listen, and whether it stops serving after the calls.
\<close>

record pet_world =
  pw_flags :: pet_flags
  pw_parse_float :: "string \<Rightarrow> go_float option"
  pw_trace :: trace_env
  pw_exporter_ok :: "string \<Rightarrow> bool"
  pw_flush_traces :: flush
  pw_flush_metrics :: flush
  pw_listens :: bool
  pw_stops :: bool

datatype pet_end = FatalExit string | PetCrash panic | PetReturns | PetServing | PetHangs

text \<open>The deferred stops, the last one first, and then the end they lead to.\<close>

definition run_stops :: "pet_world \<Rightarrow> pet_end \<Rightarrow> pet_end" where
  "run_stops W fin =
     (case (case otel_controller (pw_flags W) of None \<Rightarrow> Ok () | Some _ \<Rightarrow> metrics_stop (pw_flush_metrics W)) of
        Blocked \<Rightarrow> PetHangs
      | _ \<Rightarrow> (case tracing_stop (pw_flush_traces W) of Blocked \<Rightarrow> PetHangs | _ \<Rightarrow> fin))"

definition start_metrics :: "pet_world \<Rightarrow> (string, unit) outcome" where
  "start_metrics W =
     (case otel_controller (pw_flags W) of None \<Rightarrow> Ok () | Some a \<Rightarrow> metrics_start (pw_exporter_ok W) a)"

text \<open>
  The end, and what was served: the sampler, the sink of the traces, the state of the server and
  the results of the calls. \<open>None\<close>: it never listened.
\<close>

definition pet_main ::
    "pet_world \<Rightarrow> 't llrb \<Rightarrow> (string list list \<Rightarrow> string list list) \<Rightarrow> api_call list
      \<Rightarrow> pet_end \<times> (child_sampler \<times> sink option \<times> 't mem api \<times> (rpc_err, unit) outcome list) option" where
  "pet_main W tr arr cs =
     (let (smp, oc) = set_sampling (pw_parse_float W) (trace_sampling (pw_flags W)) (TraceIDRatio (Fin 1))
      in case then_ok oc (\<lambda>_. then_ok (otel_exporter (pw_flags W)) (tracing_start (pw_trace W))) of
           Err e \<Rightarrow> (FatalExit e, None)
         | Panics p \<Rightarrow> (PetCrash p, None)
         | Blocked \<Rightarrow> (PetHangs, None)
         | Ok sk \<Rightarrow>
             (case start_metrics W of
                Panics p \<Rightarrow> (case tracing_stop (pw_flush_traces W) of Blocked \<Rightarrow> PetHangs | _ \<Rightarrow> PetCrash p, None)
              | Err e \<Rightarrow> (FatalExit e, None)
              | Blocked \<Rightarrow> (PetHangs, None)
              | Ok _ \<Rightarrow>
                  if \<not> pw_listens W then (run_stops W PetReturns, None)
                  else let (a, rs) = run_ops (api_step (mem_data tr arr)) cs (new_api (new_mem tr))
                       in (if pw_stops W then run_stops W PetReturns else PetServing, Some (smp, sk, a, rs))))"

section \<open>What the program does\<close>

text \<open>
  The span of a call ends exactly if the call does, and reports an error with its text exactly if the
  handler returns one. A handler that panics leaves a span with the status of a success.
\<close>

lemma traced_call_status:
  "(let s = traced_call msg name args peer oc
    in cs_name s = name
       \<and> (cs_ended s \<longleftrightarrow> oc \<noteq> Blocked)
       \<and> (cs_status s = Some (StatusError m) \<longleftrightarrow> (\<exists>e. oc = Err e \<and> msg e = m))
       \<and> ((''errorMsg'', StrAttr m) \<in> set (cs_attrs s) \<longleftrightarrow> (\<exists>e. oc = Err e \<and> msg e = m))
       \<and> (cs_status s = Some StatusOk \<longleftrightarrow> is_ok oc \<or> (\<exists>p. oc = Panics p)))"
  by (cases oc) (auto simp: traced_call_def do_trace_def end_trace_def split: option.splits)

definition sampling_of :: "pet_world \<Rightarrow> child_sampler option" where
  "sampling_of W =
     (if trace_sampling (pw_flags W) = ''never'' then Some NeverSample
      else if trace_sampling (pw_flags W) = ''always'' then Some AlwaysSample
      else map_option TraceIDRatio (pw_parse_float W (trace_sampling (pw_flags W))))"

definition destinations :: "pet_flags \<Rightarrow> nat" where
  "destinations fl = (if local_debug fl then 1 else 0) + (if file_debug fl \<noteq> [] then 1 else 0) + (if grpc_traces fl then 1 else 0)"

definition metrics_fail :: "pet_world \<Rightarrow> bool" where
  "metrics_fail W \<longleftrightarrow> otel_addr (pw_flags W) \<noteq> [] \<and> \<not> pw_exporter_ok W (otel_addr (pw_flags W))"

definition exporter_of :: "pet_flags \<Rightarrow> exporter" where
  "exporter_of fl =
     (if file_debug fl \<noteq> [] then FilePath (file_debug fl)
      else if grpc_traces fl then OTELGRPC (otel_addr fl) else Stderr)"

lemma set_sampling_of:
  "set_sampling (pw_parse_float W) (trace_sampling (pw_flags W)) s =
     (case sampling_of W of Some c \<Rightarrow> (c, Ok ()) | None \<Rightarrow> (s, Err ''traceSampling is not a valid value''))"
  using tracing_flags [of _ "pw_parse_float W" "trace_sampling (pw_flags W)" s]
  by (auto simp: sampling_of_def split: option.splits)

lemma otel_exporter_of:
  "otel_exporter fl = (if destinations fl \<ge> 2 then Err ''cannot set more than one'' else Ok (exporter_of fl))"
  using tracing_flags [of fl] by (simp add: destinations_def exporter_of_def Let_def)

lemma start_metrics_of:
  "start_metrics W = (if metrics_fail W then Panics (PanicMsg ''metrics exporter'') else Ok ())"
  by (simp add: start_metrics_def otel_controller_def metrics_start_def metrics_fail_def)

lemma tracing_start_not: "tracing_start env e \<noteq> Panics p" "tracing_start env e \<noteq> Blocked"
  by (cases e; simp add: tracing_start_def new_trace_exporter_def)+

lemma tracing_stop_ok: "tracing_stop f = Ok ()"
  by (cases f) simp_all

lemma run_stops_of:
  "run_stops W fin =
     (if otel_addr (pw_flags W) \<noteq> [] \<and> pw_flush_metrics W = FlushHangs then PetHangs else fin)"
  by (cases "pw_flush_metrics W") (simp_all add: run_stops_def otel_controller_def tracing_stop_ok)


definition demo_pet_world :: pet_world where
  "demo_pet_world =
     \<lparr>pw_flags = \<lparr>local_debug = False, file_debug = ''trace.json'', grpc_traces = False, trace_sampling = ''always'',
        otel_addr = ''0.0.0.0:4317''\<rparr>,
      pw_parse_float = (\<lambda>_. None),
      pw_trace = \<lparr>dial_ok = \<lambda>_. True, create_ok = \<lambda>_. True, wrap_ok = True, resource_ok = True\<rparr>,
      pw_exporter_ok = (\<lambda>_. True), pw_flush_traces = FlushOk, pw_flush_metrics = FlushHangs,
      pw_listens = True, pw_stops = True\<rparr>"


end
