(* ===== verification/Agent_Socket.thy ===== *)
theory Agent_Socket
  imports Agent_Client
begin

text \<open>
  The build of the system agent and its client for domain sockets over SSH (build tag \<open>ds\<close>:
  \<open>agent/service/startDomainSocket.go\<close>, \<open>agent/client/ds.go\<close>,
  \<open>agent/client/cli/cmd/install_via_sshproxy.go\<close> and \<open>auth.go\<close>), against the build without it
  (\<open>startIP.go\<close>, \<open>ip.go\<close>, \<open>install.go\<close>).
\<close>

section \<open>The agent\<close>

text \<open>What becomes of serving on a listener.\<close>

datatype serving = Cannot_Listen | Serves_Forever | Serves_Then_Fails

datatype listener = Tcp string | Socket string

record listen_env =
  refused :: "os_call \<Rightarrow> bool"
  keeps_socket :: "string \<Rightarrow> bool"
  unix_listen :: "string \<Rightarrow> bool"
  tcp_run :: "string \<Rightarrow> serving"
  socket_run :: "string \<Rightarrow> serving"

datatype start_err = No_Socket_Dir | No_Socket | Serve_Error

definition run_listener :: "serving \<Rightarrow> listener \<Rightarrow> listener list \<times> (start_err, unit) outcome" where
  "run_listener s l =
     (case s of
        Cannot_Listen \<Rightarrow> ([], Err Serve_Error)
      | Serves_Forever \<Rightarrow> ([l], Blocked)
      | Serves_Then_Fails \<Rightarrow> ([l], Err Serve_Error))"

text \<open>The start without the tag, and with it: the files left, the listeners served, the result.\<close>

definition ip_start :: "listen_env \<Rightarrow> string \<Rightarrow> listener list \<times> (start_err, unit) outcome" where
  "ip_start env addr = run_listener (tcp_run env addr) (Tcp addr)"

definition socket_path :: "string \<Rightarrow> string" where
  "socket_path home = file_join [home, ''/sa/socket/sa.sock'']"

text \<open>\<open>Remove\<close> of the old socket file, whose error is ignored.\<close>

definition remove_old :: "listen_env \<Rightarrow> string \<Rightarrow> files \<Rightarrow> files" where
  "remove_old env p fs = (if keeps_socket env p then fs else fs(comps p := None))"

definition ds_start :: "listen_env \<Rightarrow> agent \<Rightarrow> string \<Rightarrow> files \<Rightarrow> files \<times> listener list \<times> (start_err, unit) outcome" where
  "ds_start env a addr fs =
     (let sock = socket_path (home_path a) in
      case os_mkdir_all (refused env) (file_dir sock) fs of
        (Some _, fs1) \<Rightarrow> (fs1, [], Err No_Socket_Dir)
      | (None, fs1) \<Rightarrow>
          (let fs2 = remove_old env sock fs1 in
           if \<not> unix_listen env sock then (fs2, [], Err No_Socket)
           else case ip_start env addr of
             (ls, Blocked) \<Rightarrow> (fs2, ls, Blocked)
           | (ls, _) \<Rightarrow>
               (let (ls', oc) = run_listener (socket_run env sock) (Socket sock) in (fs2, ls @ ls', oc))))"

section \<open>The client\<close>

datatype ds_auth = Key_Signer string | Agent_Signers

record ds_env =
  ds_read_key :: "string \<Rightarrow> string option"
  ds_signer :: "string \<Rightarrow> string option"
  ds_agent_dials :: bool
  ds_user :: string
  ds_proxy :: "string \<Rightarrow> string \<Rightarrow> string \<Rightarrow> ds_auth \<Rightarrow> bool"

definition key_auth :: "ds_env \<Rightarrow> string \<Rightarrow> ds_auth option" where
  "key_auth env file =
     (case ds_read_key env file of
        None \<Rightarrow> None
      | Some k \<Rightarrow> map_option Key_Signer (ds_signer env k))"

definition agent_auth :: "ds_env \<Rightarrow> ds_auth option" where
  "agent_auth env = (if ds_agent_dials env then Some Agent_Signers else None)"

definition get_auth_from_flags :: "ds_env \<Rightarrow> string \<Rightarrow> ds_auth option" where
  "get_auth_from_flags env key_file = (if key_file \<noteq> [] then key_auth env key_file else agent_auth env)"

text \<open>The client keeps its proxy only to close it; its requests go to the endpoint.\<close>

definition ds_client :: "ds_env \<Rightarrow> string \<Rightarrow> ds_auth \<Rightarrow> string option" where
  "ds_client env endpoint au =
     (let sock = file_join [''/home'', ds_user env, ''/sa/socket/sa.sock'']
      in if ds_proxy env endpoint sock (ds_user env) au then Some endpoint else None)"

datatype ds_exit = No_Auth | No_Client | Ds_Exit exit_code

definition ds_install_cmd ::
    "ds_env \<Rightarrow> string \<Rightarrow> wire \<Rightarrow> agent_env \<Rightarrow> (string \<Rightarrow> string option) \<Rightarrow> string list \<Rightarrow> machine \<Rightarrow> machine \<times> ds_exit" where
  "ds_install_cmd denv key_file w env read_file args m =
     (case get_auth_from_flags denv key_file of
        None \<Rightarrow> (m, No_Auth)
      | Some au \<Rightarrow>
          if length args \<noteq> 4 then (m, Ds_Exit Failed_Args)
          else if \<not> suffix ''.zip'' (args ! 2) then (m, Ds_Exit Not_Zip)
          else (case read_file (args ! 2) of
             None \<Rightarrow> (m, Ds_Exit No_File)
           | Some b \<Rightarrow>
               (case ds_client denv (args ! 0) au of
                  None \<Rightarrow> (m, No_Client)
                | Some endpoint \<Rightarrow>
                    (case client_install w endpoint env
                            \<lparr>req_name = args ! 1, req_package = b, req_binary = args ! 3, req_args = []\<rparr> m of
                       (m', Inl e) \<Rightarrow> (m', Ds_Exit (Install_Error e))
                     | (m', Inr _) \<Rightarrow> (m', Ds_Exit Done)))))"

section \<open>What the tag changes\<close>

lemma run_listener_served: "l' \<in> set (fst (run_listener s l)) \<Longrightarrow> l' = l"
  by (cases s) (simp_all add: run_listener_def)

text \<open>
  The build for domain sockets. Whenever the agent can serve on its network address, it does so
  first, exactly as the build without the tag, and the socket is served only after that has failed; and the
  command of the client, once it has its keys and its proxy, does exactly what the command
  without the tag does: its request goes to the endpoint over the network, not through the
  socket. Without keys or proxy it changes nothing on the machine.
\<close>

lemma ds_build:
  shows "(ds_start env a addr fs = (fs', ls, oc) \<and> ls \<noteq> [] \<and> tcp_run env addr \<noteq> Cannot_Listen \<longrightarrow>
      ls ! 0 = Tcp addr
      \<and> (tcp_run env addr = Serves_Forever \<longrightarrow> (ls, oc) = ip_start env addr \<and> oc = Blocked))
    \<and> (case get_auth_from_flags denv key of
         None \<Rightarrow> ds_install_cmd denv key w ienv read_file args m = (m, No_Auth)
       | Some au \<Rightarrow>
           if length args = 4 \<and> \<not> ds_proxy denv (args ! 0) (file_join [''/home'', ds_user denv, ''/sa/socket/sa.sock'']) (ds_user denv) au
           then fst (ds_install_cmd denv key w ienv read_file args m) = m
           else ds_install_cmd denv key w ienv read_file args m = apsnd Ds_Exit (install_cmd w ienv read_file args m))"
proof (intro conjI impI)
  assume start: "ds_start env a addr fs = (fs', ls, oc) \<and> ls \<noteq> [] \<and> tcp_run env addr \<noteq> Cannot_Listen"
  obtain e fs1 where mk: "os_mkdir_all (refused env) (file_dir (socket_path (home_path a))) fs = (e, fs1)" by (metis prod.exhaust)
  have ok: "e = None" "unix_listen env (socket_path (home_path a))"
    using start mk by (auto simp: ds_start_def Let_def split: option.splits if_splits)
  show "ls ! 0 = Tcp addr"
    using start mk ok by (cases "tcp_run env addr") (auto simp: ds_start_def ip_start_def run_listener_def Let_def split: prod.splits)
  show "(ls, oc) = ip_start env addr" "oc = Blocked" if "tcp_run env addr = Serves_Forever"
    using start mk ok that by (auto simp: ds_start_def ip_start_def run_listener_def Let_def)
next
  show "case get_auth_from_flags denv key of
         None \<Rightarrow> ds_install_cmd denv key w ienv read_file args m = (m, No_Auth)
       | Some au \<Rightarrow>
           if length args = 4 \<and> \<not> ds_proxy denv (args ! 0) (file_join [''/home'', ds_user denv, ''/sa/socket/sa.sock'']) (ds_user denv) au
           then fst (ds_install_cmd denv key w ienv read_file args m) = m
           else ds_install_cmd denv key w ienv read_file args m = apsnd Ds_Exit (install_cmd w ienv read_file args m)"
    by (auto simp: ds_install_cmd_def install_cmd_def ds_client_def Let_def split: option.splits prod.splits sum.splits)
qed

end
