(* ===== verification/Stop_Example.thy ===== *)
theory Stop_Example
  imports Emergency_Stop
begin

text \<open>
  The example of the emergency stop (\<open>design_for_chaos/es/example/main.go\<close>): a job of a hundred
  turns, a goroutine that asks for the status every ten seconds and ends the process when it is
  not Go, and the reader of \<open>es.go\<close>, which rereads its file meanwhile. An event is one round of
  one of the three loops, and the theorems hold for every order of events, so for all timing.
\<close>

definition erase_task :: string where "erase_task = ''SatelliteDiskErase''"

datatype erase_end = NoReader es_err | StoppedBefore | StoppedRunning | Completed | ReaderCrashed

record eraser =
  ex_reader :: reader
  ex_lines :: nat
  ex_end :: "erase_end option"

datatype erase_event = Reread es_file | WatchCheck | EraseTurn

definition erase_init :: "es_file \<Rightarrow> (erase_end, eraser) outcome" where
  "erase_init file =
     then_ok (map_err NoReader (new_reader file)) (\<lambda>r.
       if status erase_task r \<noteq> Go then Err StoppedBefore
       else Ok \<lparr>ex_reader = r, ex_lines = 0, ex_end = None\<rparr>)"

definition watch_check :: "eraser \<Rightarrow> eraser" where
  "watch_check e = (if status erase_task (ex_reader e) \<noteq> Go then e\<lparr>ex_end := Some StoppedRunning\<rparr> else e)"

definition erase_turn :: "eraser \<Rightarrow> eraser" where
  "erase_turn e = (if ex_lines e < 100 then e\<lparr>ex_lines := Suc (ex_lines e)\<rparr> else e\<lparr>ex_end := Some Completed\<rparr>)"

definition reread :: "es_file \<Rightarrow> eraser \<Rightarrow> eraser" where
  "reread file e =
     (case tick file (ex_reader e) of
        (r, Panics _) \<Rightarrow> e\<lparr>ex_reader := r, ex_end := Some ReaderCrashed\<rparr>
      | (r, _) \<Rightarrow> e\<lparr>ex_reader := r\<rparr>)"

definition erase_step :: "erase_event \<Rightarrow> eraser \<Rightarrow> eraser" where
  "erase_step ev e =
     (if ex_end e \<noteq> None then e
      else case ev of Reread file \<Rightarrow> reread file e | WatchCheck \<Rightarrow> watch_check e | EraseTurn \<Rightarrow> erase_turn e)"

section \<open>A reader without subscribers\<close>

definition idle :: "reader \<Rightarrow> bool" where
  "idle r \<longleftrightarrow> subscribers r = [] \<and> \<not> mu r"

definition table_of :: "es_file \<Rightarrow> (string, info) gomap \<Rightarrow> (string, info) gomap" where
  "table_of file old =
     (case file of None \<Rightarrow> old
      | Some ds \<Rightarrow> (case load_entries [] ds of None \<Rightarrow> [] | Some m \<Rightarrow> m))"

lemma send_stops_idle: "idle r \<Longrightarrow> send_stops ns r = (r, Ok ())"
  by (induction ns) (auto simp: idle_def send_stop_def subs_of_def)

lemma tick_idle:
  assumes "idle r"
  shows "tick file r = (r\<lparr>entries := table_of file (entries r)\<rparr>, Ok ())"
proof (cases rule: load_cases [of "file" r])
  case missing
  then show ?thesis using assms by (simp add: tick_def table_of_def idle_def)
next
  case (bad ds)
  then show ?thesis using assms
    by (auto simp: tick_def table_of_def idle_def load_def split: option.splits)
next
  case (good ds m)
  then show ?thesis using assms by (simp add: tick_def table_of_def send_stops_idle)
qed

lemma status_table: "status n (r\<lparr>entries := entries r'\<rparr>) = status n r'"
  by (simp add: status_def)

section \<open>Every order of events\<close>

definition eraser_inv :: "eraser \<Rightarrow> bool" where
  "eraser_inv e \<longleftrightarrow> idle (ex_reader e) \<and> ex_lines e \<le> 100
     \<and> (ex_end e = Some Completed \<longrightarrow> ex_lines e = 100) \<and> ex_end e \<noteq> Some ReaderCrashed"

lemma eraser_inv_init: "erase_init file = Ok e \<Longrightarrow> eraser_inv e \<and> ex_lines e = 0 \<and> ex_end e = None"
  by (auto simp: erase_init_def eraser_inv_def idle_def new_reader_def load_def Let_def
        split: if_splits option.splits)

lemma eraser_inv_step: "eraser_inv e \<Longrightarrow> eraser_inv (erase_step ev e)"
  by (cases ev)
    (auto simp: erase_step_def eraser_inv_def reread_def tick_idle watch_check_def erase_turn_def idle_def)

lemma eraser_inv_run: "eraser_inv e \<Longrightarrow> eraser_inv (fold erase_step evs e)"
  by (induction evs arbitrary: e) (auto intro: eraser_inv_step)

lemma ended_stays: "ex_end e \<noteq> None \<Longrightarrow> fold erase_step evs e = e"
  by (induction evs) (auto simp: erase_step_def)

lemma lines_step: "ex_lines (erase_step ev e) \<le> ex_lines e + (if ev = EraseTurn then 1 else 0)"
  by (cases ev)
    (auto simp: erase_step_def reread_def watch_check_def erase_turn_def split: prod.splits outcome.splits)

lemma lines_run: "ex_lines (fold erase_step evs e) \<le> ex_lines e + count_list evs EraseTurn"
proof (induction evs arbitrary: e)
  case (Cons ev evs)
  then show ?case using lines_step [of ev e] order_trans [OF Cons.IH] by (fastforce split: if_splits)
qed simp

text \<open>
  The job never takes more than its hundred turns, completes only with all of them, and no reread
  crashes it. Once the status is not Go, the next check ends the process, so that after it no turn
  follows and before it at most those that fell in between.
\<close>

lemma erase_obeys_stop:
  assumes "erase_init file = Ok e0" and e_def: "e = fold erase_step evs e0"
  shows "ex_lines e \<le> 100" "ex_end e = Some Completed \<Longrightarrow> ex_lines e = 100" "ex_end e \<noteq> Some ReaderCrashed"
    and "ex_end (fold erase_step mid e) = None \<Longrightarrow>
      status erase_task (ex_reader (fold erase_step mid e)) \<noteq> Go \<Longrightarrow>
      ex_end (fold erase_step (mid @ WatchCheck # post) e) = Some StoppedRunning \<and>
      ex_lines (fold erase_step (mid @ WatchCheck # post) e) \<le> ex_lines e + count_list mid EraseTurn"
proof -
  have "eraser_inv e" unfolding e_def using assms(1) by (blast intro: eraser_inv_run dest: eraser_inv_init)
  then show "ex_lines e \<le> 100" "ex_end e = Some Completed \<Longrightarrow> ex_lines e = 100" "ex_end e \<noteq> Some ReaderCrashed"
    by (auto simp: eraser_inv_def)
  let ?m = "fold erase_step mid e"
  assume m: "ex_end ?m = None" "status erase_task (ex_reader ?m) \<noteq> Go"
  then have w: "erase_step WatchCheck ?m = ?m\<lparr>ex_end := Some StoppedRunning\<rparr>"
    by (simp add: erase_step_def watch_check_def)
  then show "ex_end (fold erase_step (mid @ WatchCheck # post) e) = Some StoppedRunning \<and>
      ex_lines (fold erase_step (mid @ WatchCheck # post) e) \<le> ex_lines e + count_list mid EraseTurn"
    using lines_run [of mid e] by (simp add: ended_stays)
qed

text \<open>
  A file that goes missing stops nothing: the reader keeps the table it has, so the job runs to
  its end, whereas a file that cannot be decoded stops it at the next check.
\<close>

lemma missing_file_step:
  assumes "idle (ex_reader e)" "status erase_task (ex_reader e) = Go" "ex_end e = None"
    and "ev \<in> {Reread None, WatchCheck, EraseTurn}"
  shows "idle (ex_reader (erase_step ev e)) \<and> status erase_task (ex_reader (erase_step ev e)) = Go
    \<and> ex_end (erase_step ev e) \<in> {None, Some Completed}"
proof -
  have "tick None (ex_reader e) = (ex_reader e, Ok ())" using tick_idle [OF assms(1), of None] by (simp add: table_of_def)
  then show ?thesis using assms by (auto simp: erase_step_def reread_def watch_check_def erase_turn_def split: if_splits)
qed

lemma missing_file_never_stops:
  assumes "set evs \<subseteq> {Reread None, WatchCheck, EraseTurn}" "idle (ex_reader e)"
    and "status erase_task (ex_reader e) = Go" "ex_end e = None"
  shows "ex_end (fold erase_step evs e) \<in> {None, Some Completed}"
  using assms
proof (induction evs arbitrary: e)
  case (Cons ev evs)
  have step: "idle (ex_reader (erase_step ev e))" "status erase_task (ex_reader (erase_step ev e)) = Go"
    "ex_end (erase_step ev e) \<in> {None, Some Completed}"
    using missing_file_step [OF Cons.prems(2-4), of ev] Cons.prems(1) by simp_all
  show ?case
  proof (cases "ex_end (erase_step ev e)")
    case None
    then show ?thesis using Cons.IH [OF _ step(1,2)] Cons.prems(1) by simp
  next
    case (Some x)
    then show ?thesis using ended_stays [of "erase_step ev e" evs] step(3) by simp
  qed
qed simp

lemma bad_file_stops:
  assumes "idle (ex_reader e)" "ex_end e = None" "None \<in> set ds"
  shows "ex_end (fold erase_step (Reread (Some ds) # WatchCheck # post) e) = Some StoppedRunning"
proof -
  have t: "load_entries [] ds = None" using assms(3) by (simp add: load_entries_None)
  have "ex_end (erase_step WatchCheck (erase_step (Reread (Some ds)) e)) = Some StoppedRunning"
    using assms(1,2) t
    by (simp add: erase_step_def reread_def tick_idle table_of_def watch_check_def status_def Go_def Stop_def)
  then show ?thesis by (simp add: ended_stays)
qed

text \<open>Alone, the job completes in its hundred turns and one look at the counter.\<close>

lemma erase_turns:
  "ex_end e = None \<Longrightarrow> n + ex_lines e \<le> 100 \<Longrightarrow>
     fold erase_step (replicate n EraseTurn) e = e\<lparr>ex_lines := n + ex_lines e\<rparr>"
  by (induction n arbitrary: e) (auto simp: erase_step_def erase_turn_def)

lemma erase_completes:
  assumes "erase_init file = Ok e"
  shows "ex_end (fold erase_step (replicate 101 EraseTurn) e) = Some Completed"
proof -
  have "replicate 101 EraseTurn = replicate 100 EraseTurn @ [EraseTurn]"
    using replicate_add [of 100 1 EraseTurn] by simp
  then show ?thesis using eraser_inv_init [OF assms] erase_turns [of e 100]
    by (simp add: erase_step_def erase_turn_def del: replicate.simps replicate_Suc)
qed

end
