(* ===== verification/Alerting.thy ===== *)
theory Alerting
  imports Observability
begin

text \<open>
  The example of alerting (\<open>observability/alerting\<close>), client and server together. Its server
  hands its provider of metrics to the handler and counts under a meter of its own, where that
  of \<open>observability/metrics\<close> takes the global provider and the name of the client's meter. A
  collector sees a counter under the service, the meter and the name of the instrument.
\<close>

section \<open>What a collector sees\<close>

record series =
  sr_service :: string
  sr_meter :: string
  sr_instrument :: string

type_synonym counters = "series \<Rightarrow> nat"

definition count_one :: "series \<Rightarrow> counters \<Rightarrow> counters" where
  "count_one k c = c(k := Suc (c k))"

text \<open>The sum over all services, as a query by meter and instrument gives it.\<close>

definition by_meter :: "string list \<Rightarrow> string \<Rightarrow> string \<Rightarrow> counters \<Rightarrow> nat" where
  "by_meter services meter instr c =
     sum_list (map (\<lambda>s. c \<lparr>sr_service = s, sr_meter = meter, sr_instrument = instr\<rparr>) services)"

section \<open>The server\<close>

record metric_provider =
  mp_service :: string

definition alert_init_metrics :: "otel_collector \<Rightarrow> string \<Rightarrow> (obs_fatal, metric_provider) outcome" where
  "alert_init_metrics col addr =
     (if agent_metrics col addr then Ok \<lparr>mp_service = ''demo-server''\<rparr> else Panics (PanicMsg ''metrics exporter''))"

definition alert_init_provider ::
    "(string \<Rightarrow> string option) \<Rightarrow> otel_collector \<Rightarrow> (obs_fatal, metric_provider) outcome" where
  "alert_init_provider env col =
     then_ok (alert_init_metrics col (agent_addr env)) (\<lambda>p.
       then_ok (init_tracer col (agent_addr env)) (\<lambda>_. Ok p))"

definition alert_key :: "metric_provider \<Rightarrow> series" where
  "alert_key p = \<lparr>sr_service = mp_service p, sr_meter = ''demo_server'', sr_instrument = ''request_counts''\<rparr>"

record alert_state =
  as_counts :: counters
  as_draws :: nat

definition alert_sleep :: "(nat \<Rightarrow> nat \<Rightarrow> nat) \<Rightarrow> int \<Rightarrow> nat \<Rightarrow> nat \<times> nat" where
  "alert_sleep rnd now d =
     (let modulus = now smod 5 in
      if modulus = 0 then (rnd d 2000, Suc d)
      else if modulus = 1 then (rnd d 15, Suc d)
      else if modulus = 2 then (rnd d 917, Suc d)
      else if modulus = 3 then (rnd d 87, Suc d)
      else if modulus = 4 then (rnd d 1173, Suc d)
      else (0, d))"

definition alert_hello ::
    "metric_provider \<Rightarrow> (nat \<Rightarrow> nat \<Rightarrow> nat) \<Rightarrow> int \<Rightarrow> alert_state \<Rightarrow> alert_state \<times> nat \<times> string" where
  "alert_hello p rnd now s =
     (let (sleep, d) = alert_sleep rnd now (as_draws s)
      in (\<lparr>as_counts = count_one (alert_key p) (as_counts s), as_draws = d\<rparr>, sleep, ''Hello World''))"

fun alert_hellos ::
    "metric_provider \<Rightarrow> (nat \<Rightarrow> nat \<Rightarrow> nat) \<Rightarrow> int list \<Rightarrow> alert_state \<Rightarrow> alert_state \<times> (nat \<times> string) list" where
  "alert_hellos p rnd [] s = (s, [])"
| "alert_hellos p rnd (now # ts) s =
     (let (s1, r) = alert_hello p rnd now s; (s2, rs) = alert_hellos p rnd ts s1 in (s2, r # rs))"

definition alert_server ::
    "(string \<Rightarrow> string option) \<Rightarrow> otel_collector \<Rightarrow> (string \<Rightarrow> bool) \<Rightarrow> bool \<Rightarrow> (nat \<Rightarrow> nat \<Rightarrow> nat) \<Rightarrow> int list
      \<Rightarrow> (obs_fatal, alert_state \<times> (nat \<times> string) list) outcome" where
  "alert_server env col ok listening rnd ts =
     then_ok (alert_init_provider env col) (\<lambda>p. run_deferred col
       (then_ok (make_instruments ok server_instruments) (\<lambda>_.
          if \<not> listening then Err NotListening
          else Ok (alert_hellos p rnd ts \<lparr>as_counts = (\<lambda>_. 0), as_draws = 0\<rparr>))))"

section \<open>The server against that of the metrics example\<close>

definition hello_of :: "metric_provider \<Rightarrow> alert_state \<Rightarrow> hello_state" where
  "hello_of p s = \<lparr>hs_count = as_counts s (alert_key p), hs_draws = as_draws s\<rparr>"

lemma alert_sleep_eq:
  "alert_sleep rnd now d = (case sleep_bound now of None \<Rightarrow> (0, d) | Some b \<Rightarrow> (rnd d b, Suc d))"
  by (simp add: alert_sleep_def sleep_bound_def Let_def)

lemma alert_hello_refines:
  "alert_hello p rnd now s = (s', r) \<Longrightarrow>
     handle_hello rnd now (hello_of p s) = (hello_of p s', r)
     \<and> (\<forall>k. k \<noteq> alert_key p \<longrightarrow> as_counts s' k = as_counts s k)"
  by (auto simp: alert_hello_def handle_hello_def alert_sleep_eq hello_of_def count_one_def Let_def
        split: option.splits prod.splits)

lemma alert_hellos_refine:
  "alert_hellos p rnd ts s = (s', rs) \<Longrightarrow>
     serve_hellos rnd ts (hello_of p s) = (hello_of p s', rs)
     \<and> (\<forall>k. k \<noteq> alert_key p \<longrightarrow> as_counts s' k = as_counts s k)"
proof (induction ts arbitrary: s rs)
  case (Cons now ts)
  obtain s1 r where one: "alert_hello p rnd now s = (s1, r)" by (metis prod.exhaust)
  obtain rs' where rest: "alert_hellos p rnd ts s1 = (s', rs')" "rs = r # rs'"
    using Cons.prems one by (auto split: prod.splits)
  show ?case using alert_hello_refines [OF one] Cons.IH [OF rest(1)] rest(2) by simp
qed simp

lemma alert_init_provider_eq:
  "alert_init_provider env col = then_ok (init_telemetry env col) (\<lambda>_. Ok \<lparr>mp_service = ''demo-server''\<rparr>)"
  by (simp add: alert_init_provider_def alert_init_metrics_def init_telemetry_def init_metrics_def)

definition server_series :: series where
  "server_series = \<lparr>sr_service = ''demo-server'', sr_meter = ''demo_server'', sr_instrument = ''request_counts''\<rparr>"

definition as_hello :: "alert_state \<times> (nat \<times> string) list \<Rightarrow> hello_state \<times> (nat \<times> string) list" where
  "as_hello x = (\<lparr>hs_count = as_counts (fst x) server_series, hs_draws = as_draws (fst x)\<rparr>, snd x)"

text \<open>The two servers start, answer, count and end alike.\<close>

lemma alert_server_refines:
  "then_ok (alert_server env col ok listening rnd ts) (\<lambda>x. Ok (as_hello x)) = hello_server env col ok listening rnd ts"
proof -
  let ?p = "\<lparr>mp_service = ''demo-server''\<rparr>" and ?s = "\<lparr>as_counts = (\<lambda>_. 0), as_draws = 0\<rparr>"
  have "alert_key ?p = server_series" by (simp add: alert_key_def server_series_def)
  moreover obtain s' rs where run: "alert_hellos ?p rnd ts ?s = (s', rs)" by (metis prod.exhaust)
  ultimately have same: "serve_hellos rnd ts \<lparr>hs_count = 0, hs_draws = 0\<rparr> = as_hello (alert_hellos ?p rnd ts ?s)"
    using alert_hellos_refine [OF run] by (simp add: hello_of_def as_hello_def)
  show ?thesis
    by (cases "init_telemetry env col"; cases "make_instruments ok server_instruments")
      (auto simp: alert_server_def hello_server_def alert_init_provider_eq same run_deferred_def obs_shutdown_def
        close_traces_def close_metrics_def split: reached.splits)
qed

section \<open>Client and server together\<close>

text \<open>
  What the client counts, of which only the counters are series of a number, and its requests
  over a network that adds \<open>lat k\<close> nanoseconds to the sleep of the \<open>k\<close>th reply.
\<close>

definition client_key :: "string \<Rightarrow> series" where
  "client_key instr = \<lparr>sr_service = ''demo-client'', sr_meter = ''demo_client'', sr_instrument = instr\<rparr>"

definition client_series :: "meters \<Rightarrow> counters" where
  "client_series m = (\<lambda>k. if k = client_key ''request_counts'' then request_count m
     else if k = client_key ''line_counts'' then line_count m else 0)"

definition served_by :: "(nat \<times> string) list \<Rightarrow> (nat \<Rightarrow> nat) \<Rightarrow> obs_world \<Rightarrow> obs_world" where
  "served_by rs lat W =
     W\<lparr>ow_net := (\<lambda>_ k. if k < length rs then Served (1000000 * fst (rs ! k) + lat k) else Unanswered)\<rparr>"

definition both :: "counters \<Rightarrow> counters \<Rightarrow> counters" where
  "both c d = (\<lambda>k. c k + d k)"

definition requests_of :: "string \<Rightarrow> counters \<Rightarrow> nat" where
  "requests_of meter = by_meter [''demo-client'', ''demo-server''] meter ''request_counts''"

definition client_starts :: "obs_world \<Rightarrow> bool" where
  "client_starts W \<longleftrightarrow> random_ok (ow_random W) \<and> ow_url_ok W (demo_server_addr (ow_env W))
     \<and> init_telemetry (ow_env W) (ow_collector W) = Ok ()
     \<and> make_instruments (ow_instrument_ok W) client_instruments = Ok ()"

lemma client_served_by:
  assumes "client_starts W"
  obtains m where "metrics_client (served_by rs lat W) (length rs) = (m, Ok ())" "request_count m = length rs"
    "request_latencies m = map (\<lambda>k. 1000000 * fst (rs ! k) + lat k) [0..<length rs]"
proof -
  let ?W = "served_by rs lat W"
  have start: "random_ok (ow_random ?W)" "\<forall>j < length rs. was_served ?W j"
    "init_telemetry (ow_env ?W) (ow_collector ?W) = Ok ()"
    "make_instruments (ow_instrument_ok ?W) client_instruments = Ok ()"
    using assms by (simp_all add: client_starts_def served_by_def was_served_def)
  obtain m where m: "turns (client_turn ?W) (length rs) no_meters = (m, Ok ())" "figures ?W (length rs) m"
    using metrics.turns_all [OF start(1,2) no_figures le_refl] by blast
  have "map Served (request_latencies m) = map Served (map (\<lambda>k. 1000000 * fst (rs ! k) + lat k) [0..<length rs])"
    using m(2) by (simp add: figures_def served_by_def cong: map_cong)
  then have "request_latencies m = map (\<lambda>k. 1000000 * fst (rs ! k) + lat k) [0..<length rs]"
    by (rule map_injective) (simp add: inj_def)
  moreover have "metrics_client ?W (length rs) = (m, Ok ())"
    using start(3,4) m(1) by (simp add: metrics_client_def send_requests_def run_deferred_def)
  ultimately show thesis using that m(2) by (simp add: figures_def)
qed

text \<open>
  After \<open>n\<close> requests the two programs of the alerting example show \<open>n\<close> requests under the meter of
  the client and \<open>n\<close> under that of the server, and every latency the client records is its reply's
  sleep, below two seconds, and what the network adds.
\<close>

lemma alerting_counts_once:
  assumes "client_starts W" "random_ok rnd" "alert_server env col ok listening rnd ts = Ok (s, rs)"
  shows "\<exists>m. metrics_client (served_by rs lat W) (length ts) = (m, Ok ())
    \<and> requests_of ''demo_client'' (both (client_series m) (as_counts s)) = length ts
    \<and> requests_of ''demo_server'' (both (client_series m) (as_counts s)) = length ts
    \<and> (\<forall>i < length ts. lat i \<le> request_latencies m ! i \<and> request_latencies m ! i < 2000 * 1000000 + lat i)"
proof -
  have "hello_server env col ok listening rnd ts
      = Ok (\<lparr>hs_count = as_counts s server_series, hs_draws = as_draws s\<rparr>, rs)"
    using alert_server_refines [of env col ok listening rnd ts] assms(3) by (simp add: as_hello_def)
  from hello_server_replies [OF assms(2) this]
  have srv: "as_counts s server_series = length ts" "length rs = length ts" "\<forall>i < length ts. fst (rs ! i) < 2000"
    by simp_all
  obtain p where "alert_hellos p rnd ts \<lparr>as_counts = (\<lambda>_. 0), as_draws = 0\<rparr> = (s, rs)" "alert_key p = server_series"
    using assms(3)
    by (auto simp: alert_server_def alert_init_provider_eq then_ok_eq_Ok run_deferred_def alert_key_def server_series_def
        split: if_splits outcome.splits)
  then have other: "k \<noteq> server_series \<Longrightarrow> as_counts s k = 0" for k
    using alert_hellos_refine by fastforce
  obtain m where m: "metrics_client (served_by rs lat W) (length rs) = (m, Ok ())" "request_count m = length rs"
    "request_latencies m = map (\<lambda>k. 1000000 * fst (rs ! k) + lat k) [0..<length rs]"
    by (rule client_served_by [OF assms(1)])
  have "requests_of ''demo_client'' (both (client_series m) (as_counts s)) = length ts"
    "requests_of ''demo_server'' (both (client_series m) (as_counts s)) = length ts"
    using srv(1,2) m(2) other
    by (simp_all add: requests_of_def by_meter_def both_def client_series_def client_key_def server_series_def)
  then show ?thesis using m srv(2,3) by (intro exI [of _ m]) (auto simp: nth_append)
qed

text \<open>
  The server of the metrics example counts under the name of the client's meter, so a query for
  that meter counts every request twice.
\<close>

definition hello_series :: "hello_state \<Rightarrow> counters" where
  "hello_series s = (\<lambda>k. if k = \<lparr>sr_service = ''demo-server'', sr_meter = ''demo_client'',
     sr_instrument = ''request_counts''\<rparr> then hs_count s else 0)"

lemma metrics_count_twice:
  assumes "client_starts W" "random_ok rnd" "hello_server env col ok listening rnd ts = Ok (s, rs)"
  shows "\<exists>m. metrics_client (served_by rs lat W) (length ts) = (m, Ok ())
    \<and> requests_of ''demo_client'' (both (client_series m) (hello_series s)) = 2 * length ts
    \<and> requests_of ''demo_server'' (both (client_series m) (hello_series s)) = 0"
proof -
  have srv: "hs_count s = length ts" "length rs = length ts"
    using hello_server_replies [OF assms(2,3)] by simp_all
  obtain m where m: "metrics_client (served_by rs lat W) (length rs) = (m, Ok ())" "request_count m = length rs"
    by (rule client_served_by [OF assms(1)])
  have "requests_of ''demo_client'' (both (client_series m) (hello_series s)) = 2 * length ts"
    "requests_of ''demo_server'' (both (client_series m) (hello_series s)) = 0"
    using srv m(2)
    by (simp_all add: requests_of_def by_meter_def both_def client_series_def client_key_def hello_series_def)
  then show ?thesis using m(1) srv(2) by auto
qed

end
