(* ===== verification/Spec2Isabelle.thy ===== *)
theory Spec2Isabelle
  imports Emergency_Stop Rollout_Workflow Pet_Operator Pet_Log Pet_Events Net_Scan Qotd Agent_Client
    Agent_Monitor Signals Workloads Rollout_Main Pet_Types Ping SSH_Tools
    Http_Clients Trace_Ids Qotd_Clients Observability LB_Main Pet_Main Agent_Socket Stop_Example Alerting
begin

text \<open>
  Verification of the Go programs of this repository.

  \<^bold>\<open>The programs.\<close> The repository holds several independent programs.

  \<^item> A rollout system (\<open>src/automation_the_hard_way/orchestration\<close>): a program that upgrades
    servers one after the other and some at once, taking each out of a load balancer while
    it is replaced; the load balancer, its control service and the client of it.
  \<^item> A pet store (\<open>src/kubernetes/petstore-operator/petstore\<close>): a server over an in-memory
    storage with three indexes, its telemetry and log, its client; and a Kubernetes operator
    (\<open>controllers\<close>) that keeps one pet per resource through that client.
  \<^item> An emergency stop reader (\<open>src/design_for_chaos/es\<close>): a file of switches, reread every
    few seconds, that tells running workflows to stop.
  \<^item> A system agent (\<open>src/automation_the_hard_way/agent\<close>) that installs and starts packages on a
    machine and serves figures about it, with its client and command line.
  \<^item> Tools: a network scanner (\<open>src/automation_the_hard_way/remoteUname\<close>) and a quote server
    with four clients (\<open>src/cli_apps/qotd\<close>), a program that pings hosts and two that
    work on a remote host over SSH (\<open>ping\<close>, \<open>remoteCmd\<close> and \<open>expect\<close> under
    \<open>src/automation_the_hard_way\<close>), a program that handles signals
    (\<open>src/cli_apps/signals\<close>) and one that deploys a web server on Kubernetes
    (\<open>src/kubernetes/workloads\<close>).
  \<^item> Examples of clients and servers: with retries and with a circuit breaker
    (\<open>src/design_for_chaos\<close>), with traces and metrics (\<open>src/observability\<close>).

  \<^bold>\<open>Conventions.\<close> \<open>Go_Prelude\<close> holds what all parts share. A call of a Go
  function ends in an \<open>outcome\<close>: a value, a panic, or a wait that never ends; an error
  returned is a value of a sum type. A Go map is an association list with distinct keys, a
  buffered channel a record with capacity and buffer. A string is the list of its bytes. What
  is shared through pointers lives in a heap, a function from addresses. Goroutines that race
  are step relations, or functions of an arbitrary schedule, one access to shared memory at a
  time; \<open>Go_Steps\<close> is the contract of such a program that always ends. \<open>Go_Strconv\<close> and \<open>Go_Net\<close> define the library functions the code calls on
  texts (\<open>Itoa\<close>, \<open>Atoi\<close>, \<open>SplitHostPort\<close>, \<open>ParseIP\<close>) with their
  round trips; \<open>Go_Path\<close> defines \<open>Clean\<close>, \<open>Join\<close>, \<open>Dir\<close> and
  \<open>Base\<close> of \<open>path/filepath\<close> and shows when a joined name stays below its directory.

  \<^bold>\<open>Load balancer.\<close> \<open>LB_Backend\<close> (\<open>lb/server/http/server.go\<close>): backends,
  their validation and health checks. \<open>Pool_P2C\<close> (\<open>p2c.go\<close>): the pool with its healthy
  and sick list; the goroutines of a health round each load, change and store the lists, and
  every interleaving is a \<open>sched\<close>. It shows that the weight of a backend counts its requests
  in flight, that a sequential round sorts the backends, that a round with one change is safe
  and that two changes can lose a backend. \<open>LB_Server\<close>: the pools by URL pattern and the
  router. \<open>LB_Grpc\<close> (\<open>lb/server/grpc/server.go\<close>, \<open>lb/client/client.go\<close>): the control
  calls and the client, with the invariant that router and pools agree, and the round trip of
  a backend through client and server. \<open>LB_Cli\<close> (\<open>lb/client/cli/cli.go\<close>): the command line
  tool over all of that, and what each of its commands does to the traffic. \<open>LB_Main\<close>
  (\<open>lb/lb.go\<close>): the whole process, its control calls, health rounds and requests in any order; it
  shows where each request goes, that the weights of all pools count the requests in flight, and
  what can crash the process.

  \<^bold>\<open>Rollout.\<close> \<open>Rollout_Config\<close> (\<open>config/config.go\<close>): validation.
  \<open>Rollout_Actions\<close> (\<open>actions/actions.go\<close>): the upgrade of one server as a chain of
  states over a history of calls; the environment, which answers each call, is an arbitrary
  function of the history, so the theorems hold for whatever the outside does. The loops that
  poll until a deadline take the number of polls from the environment; they are recursive in
  it and need no further fuel. \<open>Rollout_Workflow\<close> (\<open>workflow/workflow.go\<close>,
  \<open>orchestration.go\<close>): precondition, canaries, the concurrent phase behind a semaphore as a
  step relation, retries and the report. It shows the bounds on concurrency and failures, that
  the phase cannot deadlock and ends, and what a run reports. \<open>Rollout_Serving\<close> replays the
  calls of an upgrade on the load balancer: only the backend of the upgraded server leaves, and
  comes back on success. \<open>Rollout_Main\<close> composes all of that to the whole program: what its
  last table shows and how it exits.

  \<^bold>\<open>Pet store.\<close> \<open>Pet_Storage\<close> (\<open>storage/storage.go\<close>): pets and their validation.
  \<open>Pet_Mem\<close> (\<open>storage/mem/mem.go\<close>): the maps, the tree of birthdays, the lock and the
  search. The tree is the package \<open>llrb\<close>, which is not in the repository: a record of its
  operations, whose documented laws are the hypothesis \<open>llrb_laws\<close>; a sorted list meets them
  (\<open>list_llrb\<close>), which the witnesses use. \<open>Pet_Index\<close>: the invariants that tie the
  indexes to the pets. \<open>Pet_Refine\<close>: the contract of a storage (locale \<open>storage_data\<close>, the
  interface \<open>Data\<close>) over a map from ids to pets and the proof that the in-memory storage
  meets it. \<open>Pet_Search\<close>: when a search is exact, for every order in which the index
  answers arrive, and when it is not. \<open>Pet_Server\<close> (\<open>server.go\<close>): the handlers, proved
  over the contract and with their metrics. \<open>Pet_Client\<close> (\<open>client/client.go\<close>): the client
  composed with the handlers. \<open>Pet_Types\<close>: the types of what is stored after any history of calls.
  \<open>Pet_Operator\<close> (\<open>controllers/pet_controller.go\<close>): the
  reconciliation composed with all of that. \<open>Pet_Log\<close>, \<open>Pet_Events\<close>
  (\<open>server/log/log.go\<close>): the layout of log lines, and the pool of reused events.
  \<open>Pet_Telemetry\<close> (\<open>server/telemetry\<close>, \<open>petstore.go\<close>): sampler, exporters, the table of
  metrics, the flags. \<open>Pet_Main\<close> (\<open>petstore.go\<close>, \<open>telemetry/metrics/start.go\<close>): the program as a
  whole, from its flags to its end, and the span of a call. \<open>Trace_Ids\<close>: the ids of traces and
  spans as numbers, which the server and the tracing client share.

  \<^bold>\<open>System agent.\<close> \<open>Agent_Files\<close>: the calls of package \<open>os\<close> on a file system, a map
  from lists of names to nodes; which calls the system refuses for other reasons is a
  parameter. \<open>Agent_Install\<close> (\<open>agent/service/service.go\<close>, \<open>agent/msgs/msgs.go\<close>): the handler
  of installations. \<open>Agent_Safety\<close>: where it can write, for every outcome. \<open>Agent_Results\<close>:
  what a successful one leaves, and how a climbing entry, a package named by dots or a refused
  renaming loses files. \<open>Agent_Client\<close> (\<open>agent/client\<close>): command, client and handler
  composed. \<open>Agent_Socket\<close>: the build of agent and client for domain sockets over SSH, against
  the other one. \<open>Agent_Perf\<close> (\<open>sysmon_others.go\<close>, \<open>sysmon_darwin.go\<close>): the collectors, and the
  round trip of the output of \<open>vm_stat\<close>. \<open>Agent_Monitor\<close> (\<open>sysmon.go\<close>): the loop over what
  the collectors of either build promise, and the parser of the output of \<open>top\<close>; the nearest
  floating point number of a decimal fraction is an argument.

  \<^bold>\<open>Others.\<close> \<open>Emergency_Stop\<close> (\<open>es.go\<close>): the entries and subscriptions,
  channels in a heap, any sequence of subscriptions, cancellations and rereads.
  \<open>Stop_Example\<close> (\<open>es/example/main.go\<close>): a job that asks the reader, under every timing of
  job, checks and rereads.
  \<open>Net_Scan\<close> (\<open>remoteUname.go\<close>): the addresses of a network at every word length, and
  the two stages of the scan and the whole program. \<open>Qotd\<close> (\<open>cli_apps/qotd\<close>): one connection, the limit on
  connections and what the clients send. \<open>Qotd_Clients\<close>: the four clients as whole programs, which
  agree, composed with the server. \<open>Http_Clients\<close>: the clients with retries and with a circuit
  breaker; the libraries \<open>backoff\<close> and \<open>gobreaker\<close> are arguments, with their documented
  behaviour as hypotheses (\<open>retry_laws\<close>, \<open>breaker_laws\<close>), which a loop and a small state
  machine meet. \<open>Observability\<close>: the examples of metrics and tracing, their figures and every
  way they end. \<open>Alerting\<close>: client and server of that example together, and what a collector
  counts. The endless loops of these programs are their first \<open>n\<close> rounds, for every \<open>n\<close>.
  \<open>Signals\<close> (\<open>signals.go\<close>): all goroutines as steps;
  how the program ends, and that it does. \<open>Workloads\<close> (\<open>workloads/main.go\<close>): the objects
  created and every way the run can end, with or without its namespace or a client set. \<open>Ping\<close>
  (\<open>ping.go\<close>): which lines of the input are hosts, and that every host is reported once in
  every interleaving. \<open>SSH_Tools\<close> (\<open>remoteCmd.go\<close>, \<open>expect.go\<close>): flag, arguments,
  authentication and the dialog with the remote shell; it shows that a private key cannot be
  used.

  \<^bold>\<open>What the code does not mean to do.\<close> Several theorems state a behaviour that the
  comments of the code deny, such as a lock that is not released after a refused batch; they
  are stated as the code behaves, with the inputs for which it does.

  \<^bold>\<open>Not modelled.\<close> Sockets, TLS, SSH, dialling, time beyond the order of events, symbolic
  links, and text written for a person. Generated code (\<open>*.pb.go\<close>, deepcopy). Code that only
  hands values to a library: the objects of OpenTelemetry, the operator's controller manager
  (\<open>petstore-operator/main.go\<close>), the registration of flags and of cobra commands, the
  one-page sample servers, and the copying of errors to trace spans (\<open>server/errors\<close>). JSON,
  zip and protobuf decoding are given by their result.
\<close>

end
